(* ===== verification/Kernel_Prelude.thy ===== *)
theory Kernel_Prelude
  imports Main "HOL-Library.Word"
begin

text \<open>
  Shared vocabulary of the MELK OS development: the machine integers of the C code
  (\<open>uint32_t\<close> is \<open>u32\<close>, \<open>uint8_t\<close> is \<open>u8\<close>, both wrapping), single-bit task masks
  (\<open>1UL << task_id\<close>) with the lemmas that read them as sets of task identifiers, the
  reduction of the kernel's wrapping candidate arithmetic to natural numbers, and a few
  facts on list updates and on filtering.
\<close>

unbundle bit_operations_syntax

section \<open>Machine integers\<close>

type_synonym u32 = "32 word"
type_synonym u8 = "8 word"

named_theorems task_ops \<open>definitions of the operations of task.c\<close>
named_theorems machine_ops \<open>definitions of the processor primitives and registers\<close>
named_theorems sched_ops \<open>definitions of the operations of the scheduler\<close>
named_theorems frame_simps \<open>what an operation leaves unchanged\<close>
named_theorems mask_simps \<open>single-bit masks as set membership\<close>

lemma unat_less_eight [simp]: "unat (of_nat n :: u32) = n" if "n \<le> 8" for n
  using that by (simp add: unat_of_nat)

lemma unat_small_u32: "n < 2 ^ 32 \<Longrightarrow> unat (of_nat n :: u32) = n"
  by (simp add: unat_of_nat)

lemma unat_u32_less: "unat w < 4294967296" for w :: u32
  using unsigned_less [of w, where 'a = nat] by simp

lemma unat_u32_diff:
  "unat (a - b) = (if unat b \<le> unat a then unat a - unat b else unat a + 4294967296 - unat b)"
  for a b :: u32
  by (simp only: unat_sub_if_size word_size) simp

lemma u32_eq_iff_unat: "(a = b) \<longleftrightarrow> (unat a = unat b)" for a b :: u32
  by (simp add: word_unat_eq_iff)

lemma u32_of_unat [simp]: "of_nat (unat a) = a" for a :: u32
  by simp

section \<open>Single-bit masks\<close>

text \<open>\<open>1UL << task_id\<close>: a 32-bit word with one bit set.\<close>

definition task_bit :: "nat \<Rightarrow> u32" where
  "task_bit i = push_bit i 1"

lemma bit_task_bit [mask_simps]: "bit (task_bit n) k \<longleftrightarrow> k = n \<and> n < 32"
  by (auto simp: task_bit_def bit_simps)

lemma and_task_bit [mask_simps]:
  fixes w :: u32
  assumes "n < 32"
  shows "(w AND task_bit n = 0) \<longleftrightarrow> \<not> bit w n"
proof
  assume h: "w AND task_bit n = 0"
  have "bit (w AND task_bit n) n \<longleftrightarrow> bit w n"
    using assms by (simp add: bit_and_iff bit_task_bit)
  with h show "\<not> bit w n" by simp
next
  assume "\<not> bit w n"
  then show "w AND task_bit n = 0"
    by (intro bit_word_eqI) (auto simp: bit_and_iff bit_task_bit)
qed

lemma bit_or_task_bit [mask_simps]:
  "n < 32 \<Longrightarrow> bit (w OR task_bit n) k \<longleftrightarrow> bit w k \<or> k = n"
  by (auto simp: bit_or_iff bit_task_bit)

lemma bit_clear_task_bit [mask_simps]:
  "bit (w AND NOT (task_bit n)) k \<longleftrightarrow> bit w k \<and> k \<noteq> n" for w :: u32
proof (cases "k < 32")
  case True
  then show ?thesis
    by (cases "n < 32") (auto simp: bit_and_iff bit_not_iff bit_task_bit)
next
  case False
  then show ?thesis
    by (auto dest: bit_imp_le_length)
qed

lemma u32_bit_less: "bit (w :: u32) k \<Longrightarrow> k < 32"
  by (auto dest: bit_imp_le_length)

lemma u32_zero_iff_bits: "w = 0 \<longleftrightarrow> (\<forall>k < 32. \<not> bit w k)" for w :: u32
  by (auto simp: bit_eq_iff dest: u32_bit_less)

lemma finite_u32_bits [simp]: "finite {k. bit (w :: u32) k}"
  by (rule finite_subset [of _ "{..<32}"]) (auto dest: u32_bit_less)

section \<open>Candidate arithmetic\<close>

text \<open>
  The kernel's scans compute \<open>(start + offset) % task_count\<close> on \<open>uint32_t\<close>. With at
  most eight tasks and a valid start the sum does not wrap.
\<close>

lemma candidate_valid:
  fixes c n :: u32
  assumes "unat c < unat n" "unat n \<le> 8" "k \<le> unat n"
  shows "unat ((c + of_nat k) mod n) = (unat c + k) mod unat n"
  using assms by (simp add: unat_mod_distrib unat_word_ariths unat_of_nat)

section \<open>Lists\<close>

lemma find_cong_set: "(\<And>x. x \<in> set xs \<Longrightarrow> P x = Q x) \<Longrightarrow> find P xs = find Q xs"
  by (induction xs) auto

end
