(* ===== verification/Task.thy ===== *)
theory Task
  imports Kernel_Prelude
begin

text \<open>
  Task management (\<open>kernel/task.h\<close>, \<open>kernel/task.c\<close>): the task control block, the static
  task table, the static stacks and every operation on them. A table entry is addressed
  by its index, as in the C code. Stacks live in a word-addressed memory \<open>task_memory\<close>;
  pointers are the byte addresses the C code casts to and from. Three addresses fixed by
  the linker (the stack array, the exit trap, the idle entry) are the parameter
  \<open>link_layout\<close> of the operations that take them. Status codes are the \<open>int32_t\<close> values
  of the header, as integers.
\<close>

section \<open>Constants and types of task.h\<close>

abbreviation (input) OS_MAX_TASKS :: nat where "OS_MAX_TASKS \<equiv> 8"
abbreviation (input) OS_TASK_STACK_SIZE_WORDS :: u32 where "OS_TASK_STACK_SIZE_WORDS \<equiv> 256"
abbreviation (input) TASK_IDLE_TASK_ID :: u32 where "TASK_IDLE_TASK_ID \<equiv> 0"

abbreviation (input) TASK_OK :: int where "TASK_OK \<equiv> 0"
abbreviation (input) TASK_ERROR_NULL_ENTRY :: int where "TASK_ERROR_NULL_ENTRY \<equiv> - 1"
abbreviation (input) TASK_ERROR_NO_SPACE :: int where "TASK_ERROR_NO_SPACE \<equiv> - 2"
abbreviation (input) TASK_ERROR_INVALID_ID :: int where "TASK_ERROR_INVALID_ID \<equiv> - 3"
abbreviation (input) TASK_ERROR_INVALID_STACK :: int where "TASK_ERROR_INVALID_STACK \<equiv> - 4"
abbreviation (input) TASK_ERROR_INVALID_STATE :: int where "TASK_ERROR_INVALID_STATE \<equiv> - 5"
abbreviation (input) TASK_ERROR_IDLE_OPERATION :: int where "TASK_ERROR_IDLE_OPERATION \<equiv> - 6"

datatype task_state_t =
    TASK_STATE_UNUSED
  | TASK_STATE_READY
  | TASK_STATE_RUNNING
  | TASK_STATE_BLOCKED
  | TASK_STATE_SLEEPING
  | TASK_STATE_SUSPENDED

record task_control_block_t =
  tcb_id :: u32
  tcb_name :: "string option"
  tcb_entry :: u32
  tcb_argument :: u32
  tcb_state :: task_state_t
  tcb_stack_base :: u32
  tcb_stack_top :: u32
  tcb_stack_pointer :: u32
  tcb_stack_size_words :: u32
  tcb_wakeup_tick :: u32

text \<open>The static variables of task.c; \<open>task_memory\<close> holds \<open>g_task_stacks\<close>.\<close>

record task_system =
  g_task_table :: "task_control_block_t list"
  g_task_count :: u32
  task_memory :: "u32 \<Rightarrow> u32"

record link_layout =
  g_task_stacks_addr :: u32
  task_exit_trap_addr :: u32
  idle_task_addr :: u32

text \<open>
  What compiler and linker guarantee: the stack array is a word-aligned object (an array of
  \<open>uint32_t\<close>) of 8 * 256 words inside the 32 KiB of SRAM at \<open>0x20000000\<close>, and a function has a
  non-null address.
\<close>

definition layout_ok :: "link_layout \<Rightarrow> bool" where
  "layout_ok L \<longleftrightarrow> 0x20000000 \<le> unat (g_task_stacks_addr L) \<and>
     unat (g_task_stacks_addr L) + 8192 \<le> 0x20008000 \<and>
     unat (g_task_stacks_addr L) mod 4 = 0 \<and> idle_task_addr L \<noteq> 0"

definition update_task ::
  "nat \<Rightarrow> (task_control_block_t \<Rightarrow> task_control_block_t) \<Rightarrow> 'a task_system_scheme \<Rightarrow> 'a task_system_scheme"
where
  "update_task i f s = s\<lparr>g_task_table := (g_task_table s)[i := f (g_task_table s ! i)]\<rparr>"

abbreviation task_at :: "'a task_system_scheme \<Rightarrow> nat \<Rightarrow> task_control_block_t" where
  "task_at s i \<equiv> g_task_table s ! i"

abbreviation state_of :: "'a task_system_scheme \<Rightarrow> nat \<Rightarrow> task_state_t" where
  "state_of s i \<equiv> tcb_state (g_task_table s ! i)"

abbreviation task_total :: "'a task_system_scheme \<Rightarrow> nat" where
  "task_total s \<equiv> unat (g_task_count s)"

section \<open>Operations of task.c\<close>

definition task_has_wakeup_tick_expired :: "u32 \<Rightarrow> u32 \<Rightarrow> u32" where
  "task_has_wakeup_tick_expired current_tick wakeup_tick =
     (if current_tick - wakeup_tick < 0x80000000 then 1 else 0)"

text \<open>\<open>*(--sp) = v\<close>: one word lower, then store.\<close>

definition push_word :: "(u32 \<Rightarrow> u32) \<times> u32 \<Rightarrow> u32 \<Rightarrow> (u32 \<Rightarrow> u32) \<times> u32" where
  "push_word ms v = (case ms of (mem, sp) \<Rightarrow> (mem(sp - 4 := v), sp - 4))"

definition initial_frame :: "link_layout \<Rightarrow> u32 \<Rightarrow> u32 \<Rightarrow> u32 list" where
  "initial_frame L entry argument =
     [0x01000000, entry, task_exit_trap_addr L, 0x12121212,
      0x03030303, 0x02020202, 0x01010101, argument,
      0x11111111, 0x10101010, 0x09090909, 0x08080808,
      0x07070707, 0x06060606, 0x05050505, 0x04040404]"

definition task_prepare_initial_stack ::
  "link_layout \<Rightarrow> (u32 \<Rightarrow> u32) \<Rightarrow> u32 \<Rightarrow> u32 \<Rightarrow> u32 \<Rightarrow> (u32 \<Rightarrow> u32) \<times> u32"
where
  "task_prepare_initial_stack L mem stack_top entry argument =
     foldl push_word (mem, stack_top AND NOT 7) (initial_frame L entry argument)"

text \<open>
  \<open>&g_task_stacks[task_id][0]\<close> and \<open>&g_task_stacks[task_id][OS_TASK_STACK_SIZE_WORDS]\<close>.
\<close>

definition stack_base_addr :: "link_layout \<Rightarrow> u32 \<Rightarrow> u32" where
  "stack_base_addr L task_id =
     g_task_stacks_addr L + task_id * (4 * OS_TASK_STACK_SIZE_WORDS)"

definition stack_top_addr :: "link_layout \<Rightarrow> u32 \<Rightarrow> u32" where
  "stack_top_addr L task_id = stack_base_addr L task_id + 4 * OS_TASK_STACK_SIZE_WORDS"

definition task_create ::
  "link_layout \<Rightarrow> string option \<Rightarrow> u32 \<Rightarrow> u32 \<Rightarrow> 'a task_system_scheme \<Rightarrow> int \<times> 'a task_system_scheme"
where
  "task_create L name entry argument s =
     (if entry = 0 then (TASK_ERROR_NULL_ENTRY, s)
      else if g_task_count s \<ge> of_nat OS_MAX_TASKS then (TASK_ERROR_NO_SPACE, s)
      else
        let task_id = g_task_count s;
            stack_base = stack_base_addr L task_id;
            stack_top = stack_top_addr L task_id;
            (mem, sp) = task_prepare_initial_stack L (task_memory s) stack_top entry argument
        in (sint task_id,
            (update_task (unat task_id)
               (\<lambda>t. t\<lparr>tcb_id := task_id, tcb_name := name, tcb_entry := entry,
                     tcb_argument := argument, tcb_state := TASK_STATE_READY,
                     tcb_wakeup_tick := 0, tcb_stack_base := stack_base,
                     tcb_stack_top := stack_top, tcb_stack_pointer := sp,
                     tcb_stack_size_words := OS_TASK_STACK_SIZE_WORDS\<rparr>) s)
            \<lparr>task_memory := mem, g_task_count := task_id + 1\<rparr>))"

definition reset_tcb :: "nat \<Rightarrow> task_control_block_t \<Rightarrow> task_control_block_t" where
  "reset_tcb i t =
     t\<lparr>tcb_id := of_nat i, tcb_name := None, tcb_entry := 0, tcb_argument := 0,
       tcb_state := TASK_STATE_UNUSED, tcb_wakeup_tick := 0, tcb_stack_base := 0,
       tcb_stack_top := 0, tcb_stack_pointer := 0, tcb_stack_size_words := 0\<rparr>"

definition task_system_init :: "link_layout \<Rightarrow> 'a task_system_scheme \<Rightarrow> 'a task_system_scheme" where
  "task_system_init L s =
     snd (task_create L (Some ''idle'') (idle_task_addr L) 0
       (foldl (\<lambda>s i. update_task i (reset_tcb i) s) (s\<lparr>g_task_count := 0\<rparr>) [0..<OS_MAX_TASKS]))"

definition task_get_count :: "'a task_system_scheme \<Rightarrow> u32" where
  "task_get_count s = g_task_count s"

definition task_get_table :: "'a task_system_scheme \<Rightarrow> task_control_block_t list" where
  "task_get_table s = g_task_table s"

definition task_get_by_id :: "u32 \<Rightarrow> 'a task_system_scheme \<Rightarrow> task_control_block_t option" where
  "task_get_by_id task_id s =
     (if task_id \<ge> g_task_count s then None else Some (task_at s (unat task_id)))"

definition task_set_state ::
  "u32 \<Rightarrow> task_state_t \<Rightarrow> 'a task_system_scheme \<Rightarrow> int \<times> 'a task_system_scheme"
where
  "task_set_state task_id state s =
     (if task_id \<ge> g_task_count s then (TASK_ERROR_INVALID_ID, s)
      else (TASK_OK, update_task (unat task_id) (\<lambda>t. t\<lparr>tcb_state := state\<rparr>) s))"

definition task_get_stack_pointer :: "u32 \<Rightarrow> 'a task_system_scheme \<Rightarrow> u32" where
  "task_get_stack_pointer task_id s =
     (if task_id \<ge> g_task_count s then 0 else tcb_stack_pointer (task_at s (unat task_id)))"

definition task_set_stack_pointer ::
  "u32 \<Rightarrow> u32 \<Rightarrow> 'a task_system_scheme \<Rightarrow> int \<times> 'a task_system_scheme"
where
  "task_set_stack_pointer task_id stack_pointer s =
     (if task_id \<ge> g_task_count s then (TASK_ERROR_INVALID_ID, s)
      else if stack_pointer = 0 then (TASK_ERROR_INVALID_STACK, s)
      else if stack_pointer < tcb_stack_base (task_at s (unat task_id)) \<or>
              stack_pointer > tcb_stack_top (task_at s (unat task_id))
      then (TASK_ERROR_INVALID_STACK, s)
      else (TASK_OK, update_task (unat task_id) (\<lambda>t. t\<lparr>tcb_stack_pointer := stack_pointer\<rparr>) s))"

definition task_sleep_until :: "u32 \<Rightarrow> u32 \<Rightarrow> 'a task_system_scheme \<Rightarrow> int \<times> 'a task_system_scheme" where
  "task_sleep_until task_id wakeup_tick s =
     (if task_id \<ge> g_task_count s then (TASK_ERROR_INVALID_ID, s)
      else if task_id = TASK_IDLE_TASK_ID then (TASK_ERROR_INVALID_STATE, s)
      else if state_of s (unat task_id) \<noteq> TASK_STATE_RUNNING \<and>
              state_of s (unat task_id) \<noteq> TASK_STATE_READY
      then (TASK_ERROR_INVALID_STATE, s)
      else (TASK_OK, update_task (unat task_id)
              (\<lambda>t. t\<lparr>tcb_wakeup_tick := wakeup_tick, tcb_state := TASK_STATE_SLEEPING\<rparr>) s))"

definition task_wake :: "u32 \<Rightarrow> 'a task_system_scheme \<Rightarrow> int \<times> 'a task_system_scheme" where
  "task_wake task_id s =
     (if task_id \<ge> g_task_count s then (TASK_ERROR_INVALID_ID, s)
      else if state_of s (unat task_id) \<noteq> TASK_STATE_SLEEPING
      then (TASK_ERROR_INVALID_STATE, s)
      else (TASK_OK, update_task (unat task_id)
              (\<lambda>t. t\<lparr>tcb_wakeup_tick := 0, tcb_state := TASK_STATE_READY\<rparr>) s))"

text \<open>One iteration of the loop of \<open>task_wake_expired_sleeping_tasks\<close>.\<close>

definition wake_iteration ::
  "u32 \<Rightarrow> u32 \<times> 'a task_system_scheme \<Rightarrow> nat \<Rightarrow> u32 \<times> 'a task_system_scheme"
where
  "wake_iteration current_tick ws i =
     (case ws of (woken_tasks, s) \<Rightarrow>
       if state_of s i = TASK_STATE_SLEEPING then
         if task_has_wakeup_tick_expired current_tick (tcb_wakeup_tick (task_at s i)) \<noteq> 0 then
           (woken_tasks + 1,
            update_task i (\<lambda>t. t\<lparr>tcb_wakeup_tick := 0, tcb_state := TASK_STATE_READY\<rparr>) s)
         else (woken_tasks, s)
       else (woken_tasks, s))"

definition task_wake_expired_sleeping_tasks ::
  "u32 \<Rightarrow> 'a task_system_scheme \<Rightarrow> u32 \<times> 'a task_system_scheme"
where
  "task_wake_expired_sleeping_tasks current_tick s =
     foldl (wake_iteration current_tick) (0, s) [0..<task_total s]"

definition task_block :: "u32 \<Rightarrow> 'a task_system_scheme \<Rightarrow> int \<times> 'a task_system_scheme" where
  "task_block task_id s =
     (if task_id \<ge> g_task_count s then (TASK_ERROR_INVALID_ID, s)
      else if task_id = TASK_IDLE_TASK_ID then (TASK_ERROR_IDLE_OPERATION, s)
      else if state_of s (unat task_id) \<noteq> TASK_STATE_RUNNING
      then (TASK_ERROR_INVALID_STATE, s)
      else (TASK_OK, update_task (unat task_id)
              (\<lambda>t. t\<lparr>tcb_wakeup_tick := 0, tcb_state := TASK_STATE_BLOCKED\<rparr>) s))"

definition task_unblock :: "u32 \<Rightarrow> 'a task_system_scheme \<Rightarrow> int \<times> 'a task_system_scheme" where
  "task_unblock task_id s =
     (if task_id \<ge> g_task_count s then (TASK_ERROR_INVALID_ID, s)
      else if task_id = TASK_IDLE_TASK_ID then (TASK_ERROR_IDLE_OPERATION, s)
      else if state_of s (unat task_id) \<noteq> TASK_STATE_BLOCKED
      then (TASK_ERROR_INVALID_STATE, s)
      else (TASK_OK, update_task (unat task_id)
              (\<lambda>t. t\<lparr>tcb_wakeup_tick := 0, tcb_state := TASK_STATE_READY\<rparr>) s))"

declare task_get_count_def [task_ops] task_get_by_id_def [task_ops] task_set_state_def [task_ops]
  task_set_stack_pointer_def [task_ops] task_sleep_until_def [task_ops] task_wake_def [task_ops]
  task_block_def [task_ops] task_unblock_def [task_ops]

end
