(* ===== verification/Task_Lemmas.thy ===== *)
theory Task_Lemmas
  imports Task
begin

text \<open>
  Lemmas on the operations of task.c: frame and branch lemmas in simplifier form, the
  memory effect of pushing words on a descending stack, the placement of the task stacks,
  and the well-formedness invariant \<open>tasks_wf\<close> of the task table.
\<close>

section \<open>Updating one entry\<close>

lemma update_task_simps [simp]:
  "g_task_table (update_task i f s) = (g_task_table s)[i := f (g_task_table s ! i)]"
  "g_task_count (update_task i f s) = g_task_count s"
  "task_memory (update_task i f s) = task_memory s"
  "task_system.more (update_task i f s) = task_system.more s"
  by (simp_all add: update_task_def)

lemma nth_update_if: "xs[i := x] ! j = (if j = i \<and> i < length xs then x else xs ! j)"
  by (auto simp: list_update_beyond)

lemma u32_le_unat: "(a \<le> b) \<longleftrightarrow> unat a \<le> unat b" for a b :: u32
  by (simp add: word_le_nat_alt)

lemma u32_less_unat: "(a < b) \<longleftrightarrow> unat a < unat b" for a b :: u32
  by (simp add: word_less_nat_alt)

section \<open>Descending stacks\<close>

lemma foldl_push_word:
  assumes "4 * length vs < 2 ^ 32"
  shows "foldl push_word (mem, sp) vs =
    ((\<lambda>a. if 0 < unat (sp - a) \<and> unat (sp - a) mod 4 = 0 \<and> unat (sp - a) \<le> 4 * length vs
          then vs ! (unat (sp - a) div 4 - 1) else mem a),
     sp - of_nat (4 * length vs))"
  using assms
proof (induction vs rule: rev_induct)
  case Nil
  then show ?case by (auto simp: fun_eq_iff)
next
  case (snoc v vs)
  define x where "x = 4 * (length vs + 1)"
  have x: "x < 2 ^ 32" "x = 4 * length vs + 4" using snoc.prems by (simp_all add: x_def)
  have top: "a = sp - of_nat (4 * length vs) - 4 \<longleftrightarrow> unat (sp - a) = x" for a
  proof -
    have "a = sp - of_nat (4 * length vs) - 4 \<longleftrightarrow> sp - a = of_nat x"
      by (auto simp: x(2) algebra_simps)
    also have "\<dots> \<longleftrightarrow> unat (sp - a) = x"
      using x(1) by (metis unat_small_u32 u32_of_unat)
    finally show ?thesis .
  qed
  have other: "unat (sp - a) mod 4 = 0 \<Longrightarrow> unat (sp - a) \<noteq> x \<Longrightarrow>
      unat (sp - a) \<le> x \<longleftrightarrow> unat (sp - a) \<le> 4 * length vs" for a
    using x(2) by presburger
  have last: "(vs @ [v]) ! (x div 4 - 1) = v" by (simp add: x_def nth_append)
  have before: "0 < d \<Longrightarrow> d \<le> 4 * length vs \<Longrightarrow> (vs @ [v]) ! (d div 4 - 1) = vs ! (d div 4 - 1)"
    if "d mod 4 = 0" for d :: nat
  proof -
    assume "0 < d" "d \<le> 4 * length vs"
    with that have "d div 4 - 1 < length vs" by presburger
    then show ?thesis by (simp add: nth_append)
  qed
  have IH: "foldl push_word (mem, sp) vs =
    ((\<lambda>a. if 0 < unat (sp - a) \<and> unat (sp - a) mod 4 = 0 \<and> unat (sp - a) \<le> 4 * length vs
          then vs ! (unat (sp - a) div 4 - 1) else mem a), sp - of_nat (4 * length vs))"
    using snoc by simp
  have len: "4 * length (vs @ [v]) = x" by (simp add: x_def)
  have sp: "sp - of_nat (4 * length vs) - 4 = sp - of_nat x" by (simp add: x(2))
  show ?case
    unfolding foldl_append foldl.simps IH push_word_def [of _ v] prod.case len sp
  proof (intro arg_cong2 [where f = Pair] ext refl)
    fix a
    show "((\<lambda>a. if 0 < unat (sp - a) \<and> unat (sp - a) mod 4 = 0 \<and> unat (sp - a) \<le> 4 * length vs
          then vs ! (unat (sp - a) div 4 - 1) else mem a)(sp - of_nat x := v)) a =
      (if 0 < unat (sp - a) \<and> unat (sp - a) mod 4 = 0 \<and> unat (sp - a) \<le> x
       then (vs @ [v]) ! (unat (sp - a) div 4 - 1) else mem a)"
    proof (cases "unat (sp - a) = x")
      case True
      then have "a = sp - of_nat x" using top sp by metis
      moreover have "0 < x" "x mod 4 = 0" by (simp_all add: x_def)
      ultimately show ?thesis using True last by simp
    next
      case False
      then have "a \<noteq> sp - of_nat x" using top sp by metis
      with False other [of a] before [of "unat (sp - a)"] show ?thesis by auto
    qed
  qed
qed

text \<open>The words at \<open>sp, sp + 4, \<dots>\<close>: what a load-multiple from \<open>sp\<close> reads.\<close>

definition read_words :: "(u32 \<Rightarrow> u32) \<Rightarrow> u32 \<Rightarrow> nat \<Rightarrow> u32 list" where
  "read_words mem sp n = map (\<lambda>k. mem (sp + 4 * of_nat k)) [0..<n]"

lemma read_words_cong:
  "(\<And>j. j < n \<Longrightarrow> mem (sp + 4 * of_nat j) = mem' (sp + 4 * of_nat j)) \<Longrightarrow>
    read_words mem sp n = read_words mem' sp n"
  by (simp add: read_words_def)

lemma read_pushed:
  assumes "4 * length vs < 2 ^ 32" and "foldl push_word (mem, sp) vs = (mem', sp')"
  shows "read_words mem' sp' (length vs) = rev vs"
proof (rule nth_equalityI)
  show "length (read_words mem' sp' (length vs)) = length (rev vs)"
    by (simp add: read_words_def)
next
  fix k assume "k < length (read_words mem' sp' (length vs))"
  then have k: "k < length vs" by (simp add: read_words_def)
  have sp': "sp' = sp - of_nat (4 * length vs)"
    using assms foldl_push_word [OF assms(1), of mem sp] by simp
  have "sp - (sp' + 4 * of_nat k) = of_nat (4 * (length vs - k))"
    using k by (simp add: sp' of_nat_diff algebra_simps)
  then have d: "unat (sp - (sp' + 4 * of_nat k)) = 4 * (length vs - k)"
    using assms(1) unat_small_u32 [of "4 * (length vs - k)"] by simp
  have "mem' (sp' + 4 * of_nat k) = vs ! (length vs - k - 1)"
    using assms(2) foldl_push_word [OF assms(1), of mem sp] d k by auto
  then show "read_words mem' sp' (length vs) ! k = rev vs ! k"
    using k by (simp add: read_words_def rev_nth)
qed

lemma pushed_frame:
  assumes "4 * length vs < 2 ^ 32" and "foldl push_word (mem, sp) vs = (mem', sp')"
    and "unat (sp - a) = 0 \<or> 4 * length vs < unat (sp - a)"
  shows "mem' a = mem a"
  using assms foldl_push_word [OF assms(1), of mem sp] by auto

section \<open>Placement of the stacks\<close>

lemma unat_and_not_7: "unat (w AND NOT 7) = 8 * (unat w div 8)" for w :: u32
proof -
  have "w AND NOT 7 = push_bit 3 (drop_bit 3 w)"
  proof (rule bit_word_eqI)
    fix n assume "n < LENGTH(32)"
    moreover have "bit (7 :: u32) n \<longleftrightarrow> n < 3"
      using bit_mask_iff [of 3 n, where 'a = "32 word"] \<open>n < LENGTH(32)\<close>
      by (simp add: mask_eq_exp_minus_1)
    ultimately show "bit (w AND NOT 7) n \<longleftrightarrow> bit (push_bit 3 (drop_bit 3 w)) n"
      by (simp only: bit_and_iff bit_not_iff bit_push_bit_iff bit_drop_bit_eq) auto
  qed
  then have "unat (w AND NOT 7) = unat (push_bit 3 (drop_bit 3 w))" by simp
  also have "\<dots> = (8 * (unat w div 8)) mod 2 ^ 32"
  proof -
    have "unat w div 8 < 2 ^ 32" using unat_u32_less [of w] by simp
    then show ?thesis
      by (simp add: push_bit_eq_mult drop_bit_eq_div unat_word_ariths unat_div_distrib mult.commute)
  qed
  also have "\<dots> = 8 * (unat w div 8)"
    using unat_u32_less [of w] by (intro mod_less) simp
  finally show ?thesis .
qed

lemmas unat_and_minus_8 = unat_and_not_7 [simplified]

lemma unat_stack_base:
  assumes "layout_ok L" "unat i \<le> 8"
  shows "unat (stack_base_addr L i) = unat (g_task_stacks_addr L) + 1024 * unat i"
  using assms by (simp add: stack_base_addr_def layout_ok_def unat_word_ariths)

lemma unat_stack_top:
  assumes "layout_ok L" "unat i < 8"
  shows "unat (stack_top_addr L i) = unat (g_task_stacks_addr L) + 1024 * unat i + 1024"
  using assms unat_stack_base [OF assms(1), of i]
  by (simp add: stack_top_addr_def layout_ok_def unat_word_ariths)

text \<open>
  The initial stack of a task: sixteen words below the aligned top of its region, so the
  saved stack pointer is 8-byte aligned and lies inside the region.
\<close>

lemma length_initial_frame [simp]: "length (initial_frame L entry argument) = 16"
  by (simp add: initial_frame_def)

lemma prepared_stack_pointer:
  "snd (task_prepare_initial_stack L mem stk entry argument) = (stk AND NOT 7) - 64"
  using foldl_push_word [of "initial_frame L entry argument" mem "stk AND NOT 7"]
  by (simp add: task_prepare_initial_stack_def)

lemma unat_prepared_stack_pointer:
  assumes "64 \<le> 8 * (unat stk div 8)"
  shows "unat (snd (task_prepare_initial_stack L mem stk entry argument)) =
    8 * (unat stk div 8) - 64"
proof -
  have "(64 :: u32) \<le> stk AND NOT 7"
    using assms by (simp add: u32_le_unat unat_and_minus_8)
  then show ?thesis
    by (simp add: prepared_stack_pointer unat_sub unat_and_minus_8)
qed

lemma prepared_stack_bounds:
  assumes "layout_ok L" "unat i < 8"
    and "task_prepare_initial_stack L mem (stack_top_addr L i) entry argument = (mem', sp)"
  shows "unat (stack_base_addr L i) + 952 \<le> unat sp" "unat sp \<le> unat (stack_top_addr L i) - 64"
    "unat sp mod 8 = 0"
proof -
  let ?t = "unat (stack_top_addr L i)"
  have t: "?t = unat (stack_base_addr L i) + 1024" "0x20000000 \<le> unat (stack_base_addr L i)"
    using assms(1,2) by (simp_all add: unat_stack_top unat_stack_base layout_ok_def)
  have "unat (snd (task_prepare_initial_stack L mem (stack_top_addr L i) entry argument)) =
      8 * (?t div 8) - 64"
    by (rule unat_prepared_stack_pointer) (use t in presburger)
  with assms(3) have sp: "unat sp = 8 * (?t div 8) - 64" by simp
  then show "unat (stack_base_addr L i) + 952 \<le> unat sp" using t by linarith
  show "unat sp \<le> ?t - 64" using sp by linarith
  show "unat sp mod 8 = 0" using sp t by presburger
qed

section \<open>The well-formedness invariant\<close>

text \<open>
  What every entry in use satisfies: it carries its own index, it is not UNUSED, its saved
  stack pointer lies in its stack, and it has a wakeup tick only while it sleeps. Entries
  not yet created are UNUSED, and the idle task is never asleep or blocked.
\<close>

definition tcb_wf :: "nat \<Rightarrow> task_control_block_t \<Rightarrow> bool" where
  "tcb_wf i t \<longleftrightarrow> tcb_id t = of_nat i \<and> tcb_state t \<noteq> TASK_STATE_UNUSED \<and>
     tcb_entry t \<noteq> 0 \<and> tcb_stack_base t \<le> tcb_stack_pointer t \<and>
     tcb_stack_pointer t \<le> tcb_stack_top t \<and> tcb_stack_pointer t \<noteq> 0 \<and>
     (tcb_state t \<noteq> TASK_STATE_SLEEPING \<longrightarrow> tcb_wakeup_tick t = 0)"

definition table_wf :: "'a task_system_scheme \<Rightarrow> bool" where
  "table_wf s \<longleftrightarrow> length (g_task_table s) = OS_MAX_TASKS \<and> task_total s \<le> OS_MAX_TASKS \<and>
     (\<forall>i < task_total s. tcb_wf i (task_at s i)) \<and>
     (\<forall>i < OS_MAX_TASKS. task_total s \<le> i \<longrightarrow> state_of s i = TASK_STATE_UNUSED)"

definition tasks_wf :: "'a task_system_scheme \<Rightarrow> bool" where
  "tasks_wf s \<longleftrightarrow> table_wf s \<and> 0 < task_total s \<and>
     (state_of s 0 = TASK_STATE_READY \<or> state_of s 0 = TASK_STATE_RUNNING)"

text \<open>Each task in use owns the region of the stack array the linker gave it.\<close>

definition stacks_wf :: "link_layout \<Rightarrow> 'a task_system_scheme \<Rightarrow> bool" where
  "stacks_wf L s \<longleftrightarrow> (\<forall>i < task_total s.
     tcb_stack_base (task_at s i) = stack_base_addr L (of_nat i) \<and>
     tcb_stack_top (task_at s i) = stack_top_addr L (of_nat i))"

lemma tasks_wfD:
  assumes "tasks_wf s"
  shows "length (g_task_table s) = 8" "0 < task_total s" "task_total s \<le> 8"
    "i < task_total s \<Longrightarrow> tcb_wf i (task_at s i)"
    "i < 8 \<Longrightarrow> task_total s \<le> i \<Longrightarrow> state_of s i = TASK_STATE_UNUSED"
    "state_of s 0 = TASK_STATE_READY \<or> state_of s 0 = TASK_STATE_RUNNING"
  using assms by (auto simp: tasks_wf_def table_wf_def)

lemma tasks_wf_nonnull: "tasks_wf s \<Longrightarrow> i < task_total s \<Longrightarrow> i < length (g_task_table s)"
  by (auto simp: tasks_wf_def table_wf_def)

text \<open>A change of one entry in use that keeps that entry well formed keeps the table so.\<close>

lemma tasks_wf_update:
  assumes "tasks_wf s" "i < task_total s" "tcb_wf i (f (task_at s i))"
    "i = 0 \<Longrightarrow> tcb_state (f (task_at s 0)) = TASK_STATE_READY \<or>
                tcb_state (f (task_at s 0)) = TASK_STATE_RUNNING"
  shows "tasks_wf (update_task i f s)"
  using assms by (auto simp: tasks_wf_def table_wf_def nth_list_update)

lemma stacks_wf_update:
  assumes "stacks_wf L s" "i < length (g_task_table s)"
    "tcb_stack_base (f (task_at s i)) = tcb_stack_base (task_at s i)"
    "tcb_stack_top (f (task_at s i)) = tcb_stack_top (task_at s i)"
  shows "stacks_wf L (update_task i f s)"
  using assms by (auto simp: stacks_wf_def nth_list_update)

section \<open>The operations on well-formed tables\<close>

lemma task_get_by_id_eq:
  "task_get_by_id i s = (if unat i < task_total s then Some (task_at s (unat i)) else None)"
  by (simp add: task_get_by_id_def u32_le_unat)

lemma task_set_state_eq:
  "task_set_state i st s =
    (if unat i < task_total s then (TASK_OK, update_task (unat i) (\<lambda>t. t\<lparr>tcb_state := st\<rparr>) s)
     else (TASK_ERROR_INVALID_ID, s))"
  by (simp add: task_set_state_def u32_le_unat)

lemma task_block_eq:
  "task_block i s =
    (if unat i < task_total s then
       if i = 0 then (TASK_ERROR_IDLE_OPERATION, s)
       else if state_of s (unat i) = TASK_STATE_RUNNING then
         (TASK_OK, update_task (unat i)
            (\<lambda>t. t\<lparr>tcb_wakeup_tick := 0, tcb_state := TASK_STATE_BLOCKED\<rparr>) s)
       else (TASK_ERROR_INVALID_STATE, s)
     else (TASK_ERROR_INVALID_ID, s))"
  by (simp add: task_block_def u32_le_unat)

lemma task_unblock_eq:
  "task_unblock i s =
    (if unat i < task_total s then
       if i = 0 then (TASK_ERROR_IDLE_OPERATION, s)
       else if state_of s (unat i) = TASK_STATE_BLOCKED then
         (TASK_OK, update_task (unat i)
            (\<lambda>t. t\<lparr>tcb_wakeup_tick := 0, tcb_state := TASK_STATE_READY\<rparr>) s)
       else (TASK_ERROR_INVALID_STATE, s)
     else (TASK_ERROR_INVALID_ID, s))"
  by (simp add: task_unblock_def u32_le_unat)

lemma task_wake_eq:
  "task_wake i s =
    (if unat i < task_total s then
       if state_of s (unat i) = TASK_STATE_SLEEPING then
         (TASK_OK, update_task (unat i)
            (\<lambda>t. t\<lparr>tcb_wakeup_tick := 0, tcb_state := TASK_STATE_READY\<rparr>) s)
       else (TASK_ERROR_INVALID_STATE, s)
     else (TASK_ERROR_INVALID_ID, s))"
  by (simp add: task_wake_def u32_le_unat)

lemma task_sleep_until_eq:
  "task_sleep_until i w s =
    (if unat i < task_total s then
       if i = 0 then (TASK_ERROR_INVALID_STATE, s)
       else if state_of s (unat i) = TASK_STATE_RUNNING \<or> state_of s (unat i) = TASK_STATE_READY then
         (TASK_OK, update_task (unat i)
            (\<lambda>t. t\<lparr>tcb_wakeup_tick := w, tcb_state := TASK_STATE_SLEEPING\<rparr>) s)
       else (TASK_ERROR_INVALID_STATE, s)
     else (TASK_ERROR_INVALID_ID, s))"
  by (auto simp: task_sleep_until_def u32_le_unat)

lemma task_set_stack_pointer_eq:
  "task_set_stack_pointer i p s =
    (if unat i < task_total s then
       if p \<noteq> 0 \<and> tcb_stack_base (task_at s (unat i)) \<le> p \<and> p \<le> tcb_stack_top (task_at s (unat i)) then
         (TASK_OK, update_task (unat i) (\<lambda>t. t\<lparr>tcb_stack_pointer := p\<rparr>) s)
       else (TASK_ERROR_INVALID_STACK, s)
     else (TASK_ERROR_INVALID_ID, s))"
  by (auto simp: task_set_stack_pointer_def u32_le_unat u32_less_unat)

lemmas task_op_eqs = task_set_state_eq task_block_eq task_unblock_eq task_wake_eq
  task_sleep_until_eq

lemma u32_zero_unat: "(i = 0) \<longleftrightarrow> (unat i = 0)" for i :: u32
  by (simp add: unat_eq_0)

text \<open>What wakes at a tick, and the closed form of the wakeup loop.\<close>

definition wakes_at :: "u32 \<Rightarrow> task_control_block_t \<Rightarrow> bool" where
  "wakes_at now t \<longleftrightarrow> tcb_state t = TASK_STATE_SLEEPING \<and> now - tcb_wakeup_tick t < 0x80000000"

definition woken :: "u32 \<Rightarrow> task_control_block_t \<Rightarrow> task_control_block_t" where
  "woken now t =
     (if wakes_at now t then t\<lparr>tcb_wakeup_tick := 0, tcb_state := TASK_STATE_READY\<rparr> else t)"

lemma wake_iteration_eq:
  "wake_iteration now (n, s) i =
    (if wakes_at now (task_at s i) then n + 1 else n, update_task i (woken now) s)"
proof -
  have "update_task i (\<lambda>t. t) s = s" by (simp add: update_task_def)
  then show ?thesis
    by (simp add: wake_iteration_def wakes_at_def woken_def task_has_wakeup_tick_expired_def
        update_task_def)
qed

lemma wake_loop_eq:
  assumes "n \<le> length (g_task_table s)"
  shows "foldl (wake_iteration now) (0, s) [0..<n] =
    (of_nat (length (filter (wakes_at now) (take n (g_task_table s)))),
     s\<lparr>g_task_table := map (woken now) (take n (g_task_table s)) @ drop n (g_task_table s)\<rparr>)"
  using assms
proof (induction n)
  case 0
  then show ?case by simp
next
  case (Suc n)
  let ?xs = "g_task_table s"
  have n: "n < length ?xs" using Suc.prems by simp
  have nth: "(map (woken now) (take n ?xs) @ drop n ?xs) ! n = ?xs ! n"
    using n by (simp add: nth_append)
  have upd: "(map (woken now) (take n ?xs) @ drop n ?xs)[n := woken now (?xs ! n)] =
      map (woken now) (take (Suc n) ?xs) @ drop (Suc n) ?xs"
    using n by (simp add: list_update_append take_Suc_conv_app_nth Cons_nth_drop_Suc [symmetric])
  show ?case
    using Suc.IH n nth upd
    by (simp add: wake_iteration_eq update_task_def take_Suc_conv_app_nth)
qed

lemma task_wake_expired_eq:
  assumes "tasks_wf s"
  shows "task_wake_expired_sleeping_tasks now s =
    (of_nat (length (filter (wakes_at now) (take (task_total s) (g_task_table s)))),
     s\<lparr>g_task_table := map (woken now) (g_task_table s)\<rparr>)"
proof -
  let ?n = "task_total s" and ?xs = "g_task_table s"
  have le: "?n \<le> length ?xs" using assms by (simp add: tasks_wf_def table_wf_def)
  have "map (woken now) (drop ?n ?xs) = drop ?n ?xs"
  proof (rule map_idI)
    fix t assume "t \<in> set (drop ?n ?xs)"
    then obtain i where "i < 8 - ?n" "t = ?xs ! (?n + i)"
      using assms by (auto simp: in_set_conv_nth tasks_wf_def table_wf_def)
    then have "tcb_state t = TASK_STATE_UNUSED"
      using tasks_wfD(5) [OF assms, of "?n + i"] by simp
    then show "woken now t = t" by (simp add: woken_def wakes_at_def)
  qed
  then have "map (woken now) (take ?n ?xs) @ drop ?n ?xs = map (woken now) ?xs"
    by (metis append_take_drop_id map_append)
  with wake_loop_eq [OF le] show ?thesis
    by (simp add: task_wake_expired_sleeping_tasks_def)
qed

section \<open>Task creation\<close>

text \<open>The entry that a successful creation writes.\<close>

definition created_tcb ::
  "link_layout \<Rightarrow> string option \<Rightarrow> u32 \<Rightarrow> u32 \<Rightarrow> u32 \<Rightarrow> task_control_block_t \<Rightarrow> task_control_block_t"
where
  "created_tcb L name entry argument i t =
     t\<lparr>tcb_id := i, tcb_name := name, tcb_entry := entry, tcb_argument := argument,
       tcb_state := TASK_STATE_READY, tcb_wakeup_tick := 0,
       tcb_stack_base := stack_base_addr L i, tcb_stack_top := stack_top_addr L i,
       tcb_stack_pointer := (stack_top_addr L i AND NOT 7) - 64,
       tcb_stack_size_words := OS_TASK_STACK_SIZE_WORDS\<rparr>"

lemma sint_small:
  fixes i :: u32
  assumes "unat i < 8"
  shows "sint i = int (unat i)"
proof -
  obtain n where n: "i = of_nat n" "n < 8" using assms by (metis of_nat_unat ucast_id)
  then have "n \<in> {0, 1, 2, 3, 4, 5, 6, 7}" by auto
  then show ?thesis using n(1) by (elim insertE) simp_all
qed

lemma task_create_eq:
  assumes "entry \<noteq> 0" "task_total s < 8"
  shows "task_create L name entry argument s =
    (int (task_total s),
     (update_task (task_total s) (created_tcb L name entry argument (g_task_count s)) s)
       \<lparr>task_memory := fst (task_prepare_initial_stack L (task_memory s)
          (stack_top_addr L (g_task_count s)) entry argument),
        g_task_count := g_task_count s + 1\<rparr>)"
proof -
  obtain mem sp where prep: "task_prepare_initial_stack L (task_memory s)
      (stack_top_addr L (g_task_count s)) entry argument = (mem, sp)" by force
  have sp: "sp = (stack_top_addr L (g_task_count s) AND NOT 7) - 64"
    using prep prepared_stack_pointer
      [of L "task_memory s" "stack_top_addr L (g_task_count s)" entry argument] by simp
  have room: "\<not> g_task_count s \<ge> of_nat OS_MAX_TASKS"
    using assms(2) by (simp add: u32_le_unat)
  show ?thesis
    unfolding task_create_def Let_def prep prod.case sp created_tcb_def fst_conv
    using assms room by (simp add: sint_small)
qed

lemma task_create_null: "task_create L name 0 argument s = (TASK_ERROR_NULL_ENTRY, s)"
  by (simp add: task_create_def)

lemma task_create_full:
  "entry \<noteq> 0 \<Longrightarrow> 8 \<le> task_total s \<Longrightarrow>
    task_create L name entry argument s = (TASK_ERROR_NO_SPACE, s)"
  by (simp add: task_create_def u32_le_unat)

lemma unat_suc_count: "unat c < 8 \<Longrightarrow> unat (c + 1) = Suc (unat c)" for c :: u32
  by (simp add: unat_word_ariths)

lemma created_tcb_wf:
  assumes "layout_ok L" "unat i < 8" "entry \<noteq> 0"
  shows "tcb_wf (unat i) (created_tcb L name entry argument i t)"
proof -
  let ?p = "task_prepare_initial_stack L (\<lambda>_. 0) (stack_top_addr L i) entry argument"
  have sp: "snd ?p = (stack_top_addr L i AND NOT 7) - 64" by (rule prepared_stack_pointer)
  obtain mem where p: "?p = (mem, (stack_top_addr L i AND NOT 7) - 64)"
    using sp by (metis prod.collapse)
  note b = prepared_stack_bounds [OF assms(1,2) p]
  have "0x20000000 \<le> unat (stack_base_addr L i)"
    using assms by (simp add: unat_stack_base layout_ok_def)
  moreover have "unat (stack_top_addr L i) = unat (stack_base_addr L i) + 1024"
    using assms by (simp add: unat_stack_top unat_stack_base)
  ultimately have "stack_base_addr L i \<le> (stack_top_addr L i AND NOT 7) - 64"
    "(stack_top_addr L i AND NOT 7) - 64 \<le> stack_top_addr L i"
    "0 < unat ((stack_top_addr L i AND NOT 7) - 64)"
    using b by (simp_all only: u32_le_unat)
  then show ?thesis
    using assms by (auto simp: tcb_wf_def created_tcb_def)
qed

text \<open>The stack that a creation writes: the initial frame, and nothing outside the task's region.\<close>

lemma task_create_memory:
  fixes name :: "string option" and argument :: u32 and s :: "'a task_system_scheme"
  assumes "layout_ok L" "entry \<noteq> 0" "task_total s < 8"
  defines "c \<equiv> g_task_count s" and "mem \<equiv> task_memory (snd (task_create L name entry argument s))"
  shows "read_words mem ((stack_top_addr L c AND NOT 7) - 64) 16 = rev (initial_frame L entry argument)"
    "unat a < unat (stack_base_addr L c) \<or> unat (stack_top_addr L c) \<le> unat a \<Longrightarrow> mem a = task_memory s a"
proof -
  let ?t = "stack_top_addr L c AND NOT 7"
  have fold: "foldl push_word (task_memory s, ?t) (initial_frame L entry argument) = (mem, ?t - 64)"
    using prepared_stack_pointer [of L "task_memory s" "stack_top_addr L c" entry argument]
    unfolding mem_def c_def task_create_eq [OF assms(2,3)] task_prepare_initial_stack_def
    by (simp add: prod_eq_iff)
  show "read_words mem (?t - 64) 16 = rev (initial_frame L entry argument)"
    using read_pushed [OF _ fold] by simp
  assume a: "unat a < unat (stack_base_addr L c) \<or> unat (stack_top_addr L c) \<le> unat a"
  show "mem a = task_memory s a"
  proof (rule pushed_frame [OF _ fold])
    have aligned: "unat ?t \<le> unat (stack_top_addr L c)" "unat (stack_top_addr L c) < unat ?t + 8"
      by (simp_all only: unat_and_not_7)
    have range: "unat (stack_top_addr L c) = unat (stack_base_addr L c) + 1024"
        "unat (stack_top_addr L c) < 0x30000000" "0x20000000 \<le> unat (stack_base_addr L c)"
      using assms(1,3) by (simp_all add: c_def unat_stack_top unat_stack_base layout_ok_def)
    show "unat (?t - a) = 0 \<or> 4 * length (initial_frame L entry argument) < unat (?t - a)"
      using a aligned range unat_u32_less [of a]
      unfolding unat_u32_diff length_initial_frame by (auto split: if_splits)
  qed simp
qed

section \<open>Preservation of well-formedness\<close>

lemma task_create_table_wf:
  assumes "layout_ok L" "table_wf s"
  shows "table_wf (snd (task_create L name entry argument s))"
proof (cases "entry \<noteq> 0 \<and> task_total s < 8")
  case True
  have len: "length (g_task_table s) = 8" using assms by (simp add: table_wf_def)
  show ?thesis
    using assms True created_tcb_wf [OF assms(1), of "g_task_count s"]
    by (auto simp: task_create_eq table_wf_def len nth_list_update unat_suc_count less_Suc_eq)
next
  case False
  then show ?thesis
    using assms by (cases "entry = 0") (simp_all add: task_create_null task_create_full)
qed

lemma task_create_total:
  "task_total (snd (task_create L name entry argument s)) =
    (if entry \<noteq> 0 \<and> task_total s < 8 then Suc (task_total s) else task_total s)"
  by (cases "entry = 0"; cases "task_total s < 8")
    (simp_all add: task_create_null task_create_full task_create_eq unat_suc_count)

lemma task_create_others:
  assumes "table_wf s" "i < task_total s"
  shows "task_at (snd (task_create L name entry argument s)) i = task_at s i"
  using assms
  by (cases "entry = 0"; cases "task_total s < 8")
    (simp_all add: task_create_null task_create_full task_create_eq)

lemma task_create_wf:
  assumes "layout_ok L" "tasks_wf s"
  shows "tasks_wf (snd (task_create L name entry argument s))"
  using assms task_create_table_wf [OF assms(1)] task_create_others [of s 0 L name entry argument]
  by (auto simp: tasks_wf_def task_create_total)

lemma task_create_stacks_wf:
  assumes "table_wf s" "stacks_wf L s"
  shows "stacks_wf L (snd (task_create L name entry argument s))"
proof (cases "entry \<noteq> 0 \<and> task_total s < 8")
  case True
  have len: "length (g_task_table s) = 8" using assms by (simp add: table_wf_def)
  show ?thesis
    using assms True
    by (auto simp: task_create_eq stacks_wf_def len nth_list_update unat_suc_count less_Suc_eq
        created_tcb_def)
next
  case False
  then show ?thesis
    using assms by (cases "entry = 0") (simp_all add: task_create_null task_create_full)
qed

lemma task_block_wf: "tasks_wf s \<Longrightarrow> tasks_wf (snd (task_block i s))"
  by (auto simp: task_block_eq u32_zero_unat intro!: tasks_wf_update)
    (auto simp: tasks_wf_def table_wf_def tcb_wf_def)

lemma task_unblock_wf: "tasks_wf s \<Longrightarrow> tasks_wf (snd (task_unblock i s))"
  by (auto simp: task_unblock_eq u32_zero_unat intro!: tasks_wf_update)
    (auto simp: tasks_wf_def table_wf_def tcb_wf_def)

lemma task_wake_wf: "tasks_wf s \<Longrightarrow> tasks_wf (snd (task_wake i s))"
  by (auto simp: task_wake_eq u32_zero_unat intro!: tasks_wf_update)
    (auto simp: tasks_wf_def table_wf_def tcb_wf_def)

lemma task_sleep_until_wf: "tasks_wf s \<Longrightarrow> tasks_wf (snd (task_sleep_until i w s))"
  by (auto simp: task_sleep_until_eq u32_zero_unat intro!: tasks_wf_update)
    (auto simp: tasks_wf_def table_wf_def tcb_wf_def)

lemma task_set_stack_pointer_wf: "tasks_wf s \<Longrightarrow> tasks_wf (snd (task_set_stack_pointer i p s))"
  by (auto simp: task_set_stack_pointer_def u32_le_unat u32_less_unat intro!: tasks_wf_update)
    (auto simp: tasks_wf_def table_wf_def tcb_wf_def u32_le_unat)

text \<open>The scheduler's two uses of \<open>task_set_state\<close>.\<close>

lemma task_set_state_wf:
  assumes "tasks_wf s" "st = TASK_STATE_READY \<or> st = TASK_STATE_RUNNING"
    "unat i < task_total s \<Longrightarrow> state_of s (unat i) \<noteq> TASK_STATE_SLEEPING"
  shows "tasks_wf (snd (task_set_state i st s))"
  using assms
  by (auto simp: task_set_state_eq intro!: tasks_wf_update)
    (auto simp: tasks_wf_def table_wf_def tcb_wf_def)

lemma task_wake_expired_wf:
  assumes "tasks_wf s"
  shows "tasks_wf (snd (task_wake_expired_sleeping_tasks now s))"
  using assms
  by (auto simp: task_wake_expired_eq tasks_wf_def table_wf_def woken_def wakes_at_def tcb_wf_def)

lemmas task_ops_wf = task_block_wf task_unblock_wf task_wake_wf task_sleep_until_wf
  task_set_stack_pointer_wf task_wake_expired_wf

text \<open>No operation but creation moves a stack or changes the number of tasks.\<close>

lemma task_ops_total [frame_simps]:
  "g_task_count (snd (task_block i s)) = g_task_count s"
  "g_task_count (snd (task_unblock i s)) = g_task_count s"
  "g_task_count (snd (task_wake i s)) = g_task_count s"
  "g_task_count (snd (task_sleep_until i w s)) = g_task_count s"
  "g_task_count (snd (task_set_stack_pointer i p s)) = g_task_count s"
  "g_task_count (snd (task_set_state i st s)) = g_task_count s"
  "tasks_wf s \<Longrightarrow> g_task_count (snd (task_wake_expired_sleeping_tasks now s)) = g_task_count s"
  by (simp_all add: task_op_eqs task_set_stack_pointer_def task_wake_expired_eq)

lemma task_ops_stacks:
  assumes "tasks_wf s" "stacks_wf L s"
  shows "stacks_wf L (snd (task_block i s))" "stacks_wf L (snd (task_unblock i s))"
    "stacks_wf L (snd (task_wake i s))" "stacks_wf L (snd (task_sleep_until i w s))"
    "stacks_wf L (snd (task_set_stack_pointer i p s))" "stacks_wf L (snd (task_set_state i st s))"
    "stacks_wf L (snd (task_wake_expired_sleeping_tasks now s))"
  using assms tasks_wf_nonnull [OF assms(1)]
  by (auto simp: task_op_eqs task_set_stack_pointer_def u32_le_unat not_le intro!: stacks_wf_update)
    (auto simp: task_wake_expired_eq stacks_wf_def woken_def)

end
