(* ===== verification/Task_Properties.thy ===== *)
theory Task_Properties
  imports Task_Lemmas
begin

text \<open>
  Properties of the task component: what every sequence of calls keeps of the table, and what
  it keeps as long as \<open>task_set_state\<close>, which is unguarded, is used as the scheduler uses it;
  the transitions of the state machine; the initial exception frame the context switch
  expects; the separation of the stacks; and timed wakeup, exact for sleeps shorter than
  \<open>2 ^ 31\<close> ticks.
\<close>

section \<open>Sequences of calls\<close>

text \<open>Every function of \<open>task.h\<close> that changes the state, \<open>task_set_state\<close> included.\<close>

datatype task_call =
    Call_init
  | Call_create "string option" u32 u32
  | Call_set_state u32 task_state_t
  | Call_set_stack_pointer u32 u32
  | Call_sleep_until u32 u32
  | Call_wake u32
  | Call_wake_expired u32
  | Call_block u32
  | Call_unblock u32

fun run_call :: "link_layout \<Rightarrow> task_call \<Rightarrow> 'a task_system_scheme \<Rightarrow> 'a task_system_scheme" where
  "run_call L Call_init s = task_system_init L s"
| "run_call L (Call_create name entry argument) s = snd (task_create L name entry argument s)"
| "run_call L (Call_set_state i st) s = snd (task_set_state i st s)"
| "run_call L (Call_set_stack_pointer i p) s = snd (task_set_stack_pointer i p s)"
| "run_call L (Call_sleep_until i w) s = snd (task_sleep_until i w s)"
| "run_call L (Call_wake i) s = snd (task_wake i s)"
| "run_call L (Call_wake_expired now) s = snd (task_wake_expired_sleeping_tasks now s)"
| "run_call L (Call_block i) s = snd (task_block i s)"
| "run_call L (Call_unblock i) s = snd (task_unblock i s)"

definition run_calls ::
  "link_layout \<Rightarrow> task_call list \<Rightarrow> 'a task_system_scheme \<Rightarrow> 'a task_system_scheme"
where
  "run_calls L calls s = foldl (\<lambda>s c. run_call L c s) s calls"

lemma run_calls_simps [simp]:
  "run_calls L [] s = s" "run_calls L (c # cs) s = run_calls L cs (run_call L c s)"
  by (simp_all add: run_calls_def)

text \<open>
  \<open>task_set_state\<close> alone checks nothing but the id. A call of it is harmless if the new state
  fits the entry: an entry in use is not made UNUSED, a task with a wakeup tick stays SLEEPING,
  and idle is made READY or RUNNING only.
\<close>

fun harmless :: "task_call \<Rightarrow> 'a task_system_scheme \<Rightarrow> bool" where
  "harmless (Call_set_state i st) s = (unat i < task_total s \<longrightarrow> st \<noteq> TASK_STATE_UNUSED \<and>
     (st = TASK_STATE_SLEEPING \<or> tcb_wakeup_tick (task_at s (unat i)) = 0) \<and>
     (i = 0 \<longrightarrow> st = TASK_STATE_READY \<or> st = TASK_STATE_RUNNING))"
| "harmless _ s = True"

primrec all_harmless :: "link_layout \<Rightarrow> task_call list \<Rightarrow> 'a task_system_scheme \<Rightarrow> bool" where
  "all_harmless L [] s = True"
| "all_harmless L (c # cs) s = (harmless c s \<and> all_harmless L cs (run_call L c s))"

text \<open>
  What no call can break: the size of the table, the identity of the entries in use, where their
  stacks are, and that the saved stack pointers lie in them.
\<close>

definition entry_wf :: "nat \<Rightarrow> task_control_block_t \<Rightarrow> bool" where
  "entry_wf i t \<longleftrightarrow> tcb_id t = of_nat i \<and> tcb_entry t \<noteq> 0 \<and> tcb_stack_pointer t \<noteq> 0 \<and>
     tcb_stack_base t \<le> tcb_stack_pointer t \<and> tcb_stack_pointer t \<le> tcb_stack_top t"

definition placed_wf :: "link_layout \<Rightarrow> 'a task_system_scheme \<Rightarrow> bool" where
  "placed_wf L s \<longleftrightarrow> length (g_task_table s) = OS_MAX_TASKS \<and> 0 < task_total s \<and>
     task_total s \<le> OS_MAX_TASKS \<and> (\<forall>i < task_total s. entry_wf i (task_at s i)) \<and>
     (\<forall>i < OS_MAX_TASKS. task_total s \<le> i \<longrightarrow> state_of s i = TASK_STATE_UNUSED) \<and> stacks_wf L s"

lemma placed_wfD:
  assumes "placed_wf L s"
  shows "length (g_task_table s) = 8" "0 < task_total s" "task_total s \<le> 8" "stacks_wf L s"
    "i < task_total s \<Longrightarrow> entry_wf i (task_at s i)"
  using assms by (auto simp: placed_wf_def)

lemma tasks_wf_placed: "tasks_wf s \<Longrightarrow> stacks_wf L s \<Longrightarrow> placed_wf L s"
  by (auto simp: placed_wf_def entry_wf_def tasks_wf_def table_wf_def tcb_wf_def)

lemma entry_wf_cong:
  assumes "tcb_id t' = tcb_id t" "tcb_entry t' = tcb_entry t" "tcb_stack_pointer t' = tcb_stack_pointer t"
    "tcb_stack_base t' = tcb_stack_base t" "tcb_stack_top t' = tcb_stack_top t"
  shows "entry_wf i t' = entry_wf i t"
  by (simp add: entry_wf_def assms)

lemma placed_wf_update:
  assumes "placed_wf L s" "i < task_total s" "entry_wf i (f (task_at s i))"
    "tcb_stack_base (f (task_at s i)) = tcb_stack_base (task_at s i)"
    "tcb_stack_top (f (task_at s i)) = tcb_stack_top (task_at s i)"
  shows "placed_wf L (update_task i f s)"
  using assms stacks_wf_update [OF placed_wfD(4) [OF assms(1)], of i f]
  by (auto simp: placed_wf_def nth_list_update)

text \<open>The state, and the wakeup tick, of an entry may be anything.\<close>

lemma placed_wf_states:
  assumes "placed_wf L s"
  shows "placed_wf L (snd (task_set_state i st s))" "placed_wf L (snd (task_sleep_until i w s))"
    "placed_wf L (snd (task_wake i s))" "placed_wf L (snd (task_block i s))"
    "placed_wf L (snd (task_unblock i s))"
  using assms placed_wfD(5) [OF assms, of "unat i"]
  by (auto simp: task_op_eqs entry_wf_def intro!: placed_wf_update)

lemma placed_wf_set_stack_pointer:
  assumes "placed_wf L s"
  shows "placed_wf L (snd (task_set_stack_pointer i p s))"
  using assms placed_wfD(5) [OF assms, of "unat i"]
  by (auto simp: task_set_stack_pointer_eq entry_wf_def intro!: placed_wf_update)

lemma placed_wf_wake_expired:
  assumes "placed_wf L s"
  shows "placed_wf L (snd (task_wake_expired_sleeping_tasks now s))"
proof -
  note d = placed_wfD [OF assms]
  let ?s = "snd (task_wake_expired_sleeping_tasks now s)" and ?n = "task_total s" and ?xs = "g_task_table s"
  have le: "?n \<le> length ?xs" using d by simp
  have s': "?s = s\<lparr>g_task_table := map (woken now) (take ?n ?xs) @ drop ?n ?xs\<rparr>"
    using wake_loop_eq [OF le] by (simp add: task_wake_expired_sleeping_tasks_def)
  have slot: "task_at ?s i = (if i < ?n then woken now (task_at s i) else task_at s i)" if "i < 8" for i
    using that d(1,3) by (auto simp: s' nth_append)
  have woken: "entry_wf i (woken now t) = entry_wf i t" "tcb_stack_base (woken now t) = tcb_stack_base t"
      "tcb_stack_top (woken now t) = tcb_stack_top t" for i t
    by (simp_all add: woken_def entry_wf_def)
  have "g_task_count ?s = g_task_count s" "length (g_task_table ?s) = 8" using d by (simp_all add: s')
  then show ?thesis
    using assms d(3) by (simp add: placed_wf_def stacks_wf_def slot woken)
qed

lemma placed_wf_create:
  assumes "layout_ok L" "placed_wf L s"
  shows "placed_wf L (snd (task_create L name entry argument s))"
proof (cases "entry \<noteq> 0 \<and> task_total s < 8")
  case True
  note d = placed_wfD [OF assms(2)]
  have "tcb_wf (task_total s) (created_tcb L name entry argument (g_task_count s) (task_at s (task_total s)))"
    by (rule created_tcb_wf [OF assms(1)]) (use True in simp_all)
  then have created: "entry_wf (task_total s)
      (created_tcb L name entry argument (g_task_count s) (task_at s (task_total s)))"
    by (simp add: entry_wf_def tcb_wf_def)
  show ?thesis
    using assms(2) True d(1) created
    by (auto simp: task_create_eq placed_wf_def stacks_wf_def nth_list_update unat_suc_count less_Suc_eq
        created_tcb_def)
next
  case False
  then show ?thesis
    using assms by (cases "entry = 0") (simp_all add: task_create_null task_create_full)
qed

text \<open>
  The scheduler's two calls are harmless: it makes RUNNING a task that is READY or RUNNING, and
  READY the current task if that is RUNNING.
\<close>

lemma scheduler_calls_harmless:
  assumes "tasks_wf s" "st = TASK_STATE_READY \<or> st = TASK_STATE_RUNNING"
    "state_of s (unat i) = TASK_STATE_READY \<or> state_of s (unat i) = TASK_STATE_RUNNING"
  shows "harmless (Call_set_state i st) s"
  using assms tasks_wfD(4) [OF assms(1), of "unat i"] by (auto simp: tcb_wf_def)

lemma harmless_set_state_wf:
  assumes "tasks_wf s" "harmless (Call_set_state i st) s"
  shows "tasks_wf (snd (task_set_state i st s))"
  using assms tasks_wfD(4) [OF assms(1), of "unat i"] tasks_wfD(6) [OF assms(1)]
  by (auto simp: task_set_state_eq tcb_wf_def u32_zero_unat intro!: tasks_wf_update)

section \<open>Initialisation\<close>

lemma foldl_update_task:
  assumes "n \<le> length (g_task_table s)"
  shows "foldl (\<lambda>s i. update_task i (f i) s) s [0..<n] =
    s\<lparr>g_task_table := map (\<lambda>i. f i (g_task_table s ! i)) [0..<n] @ drop n (g_task_table s)\<rparr>"
  using assms
proof (induction n)
  case 0
  then show ?case by simp
next
  case (Suc n)
  have n: "n < length (g_task_table s)" using Suc.prems by simp
  have "(map (\<lambda>i. f i (g_task_table s ! i)) [0..<n] @ drop n (g_task_table s))
      [n := f n (g_task_table s ! n)] =
    map (\<lambda>i. f i (g_task_table s ! i)) [0..<Suc n] @ drop (Suc n) (g_task_table s)"
    using n by (simp add: list_update_append Cons_nth_drop_Suc [symmetric])
  with Suc.IH n show ?case by (simp add: update_task_def nth_append)
qed

lemma init_table_wf:
  assumes "length (g_task_table s) = OS_MAX_TASKS"
  shows "table_wf (foldl (\<lambda>s i. update_task i (reset_tcb i) s) (s\<lparr>g_task_count := 0\<rparr>) [0..<OS_MAX_TASKS])"
    (is "table_wf ?s")
proof -
  have s: "?s = s\<lparr>g_task_count := 0,
      g_task_table := map (\<lambda>i. reset_tcb i (g_task_table s ! i)) [0..<OS_MAX_TASKS]\<rparr>"
    using foldl_update_task [of OS_MAX_TASKS "s\<lparr>g_task_count := 0\<rparr>" reset_tcb] assms
    by (simp del: upt_Suc add: upt_rec_numeral)
  show ?thesis
    unfolding s by (simp add: table_wf_def reset_tcb_def del: upt_Suc upt_rec_numeral)
qed

lemma foldl_update_task_count:
  "g_task_count (foldl (\<lambda>s i. update_task i (f i) s) s is) = g_task_count s"
  by (induction "is" arbitrary: s) simp_all

lemma task_system_init_wf:
  assumes "layout_ok L" "length (g_task_table s) = OS_MAX_TASKS"
  shows "tasks_wf (task_system_init L s)" "stacks_wf L (task_system_init L s)"
    "task_total (task_system_init L s) = 1" "state_of (task_system_init L s) 0 = TASK_STATE_READY"
proof -
  let ?s = "foldl (\<lambda>s i. update_task i (reset_tcb i) s) (s\<lparr>g_task_count := 0\<rparr>) [0..<OS_MAX_TASKS]"
  have init: "task_system_init L s = snd (task_create L (Some ''idle'') (idle_task_addr L) 0 ?s)"
    by (simp only: task_system_init_def)
  have wf: "table_wf ?s" by (rule init_table_wf [OF assms(2)])
  have count: "g_task_count ?s = 0" unfolding foldl_update_task_count by simp
  have entry: "idle_task_addr L \<noteq> 0" using assms(1) by (simp add: layout_ok_def)
  have none: "stacks_wf L ?s" unfolding stacks_wf_def count by simp
  have len: "length (g_task_table ?s) = 8" using wf by (simp only: table_wf_def)
  have idle: "state_of (snd (task_create L (Some ''idle'') (idle_task_addr L) 0 ?s)) 0 = TASK_STATE_READY"
    using entry count len
    by (subst task_create_eq) (simp_all only: count, simp_all add: created_tcb_def)
  then show "state_of (task_system_init L s) 0 = TASK_STATE_READY" unfolding init .
  show total: "task_total (task_system_init L s) = 1"
    unfolding init task_create_total count using entry by simp
  show "stacks_wf L (task_system_init L s)"
    unfolding init by (rule task_create_stacks_wf [OF wf none])
  show "tasks_wf (task_system_init L s)"
    using task_create_table_wf [OF assms(1) wf] total idle by (simp add: tasks_wf_def init)
qed

section \<open>Every call keeps the invariants\<close>

lemma init_placed:
  "layout_ok L \<Longrightarrow> length (g_task_table s) = OS_MAX_TASKS \<Longrightarrow> placed_wf L (task_system_init L s)"
  by (rule tasks_wf_placed) (rule task_system_init_wf; assumption)+

lemma run_call_placed:
  assumes "layout_ok L" "placed_wf L s"
  shows "placed_wf L (run_call L c s)"
proof (cases c)
  case Call_init
  have "length (g_task_table s) = OS_MAX_TASKS" using placed_wfD(1) [OF assms(2)] by simp
  then show ?thesis
    using Call_init init_placed [OF assms(1)] by (simp only: run_call.simps)
qed (use assms in \<open>simp_all add: placed_wf_states placed_wf_set_stack_pointer placed_wf_wake_expired
  placed_wf_create\<close>)

lemma run_calls_placed:
  "layout_ok L \<Longrightarrow> placed_wf L s \<Longrightarrow> placed_wf L (run_calls L calls s)"
  by (induction calls arbitrary: s) (simp_all add: run_call_placed)

lemma run_call_wf:
  assumes "layout_ok L" "tasks_wf s" "harmless c s"
  shows "tasks_wf (run_call L c s)"
proof (cases c)
  case Call_init
  have "length (g_task_table s) = OS_MAX_TASKS" using tasks_wfD(1) [OF assms(2)] by simp
  then show ?thesis using Call_init task_system_init_wf(1) [OF assms(1)] by (simp only: run_call.simps)
next
  case (Call_set_state i st)
  then show ?thesis using harmless_set_state_wf [OF assms(2)] assms(3) by simp
qed (use assms in \<open>auto simp: task_ops_wf task_create_wf\<close>)

lemma run_calls_wf:
  "layout_ok L \<Longrightarrow> tasks_wf s \<Longrightarrow> all_harmless L calls s \<Longrightarrow> tasks_wf (run_calls L calls s)"
  by (induction calls arbitrary: s) (simp_all add: run_call_wf)

text \<open>The stacks after any sequence of calls.\<close>

lemma placed_stack:
  assumes "layout_ok L" "placed_wf L s" "i < task_total s"
  shows "unat (tcb_stack_base (task_at s i)) = unat (g_task_stacks_addr L) + 1024 * i"
    "unat (tcb_stack_top (task_at s i)) = unat (g_task_stacks_addr L) + 1024 * i + 1024" "i < 8"
proof -
  note d = placed_wfD [OF assms(2)]
  show "i < 8" using assms(3) d(3) by simp
  then show "unat (tcb_stack_base (task_at s i)) = unat (g_task_stacks_addr L) + 1024 * i"
    "unat (tcb_stack_top (task_at s i)) = unat (g_task_stacks_addr L) + 1024 * i + 1024"
    using assms(1,3) d(4) by (simp_all add: stacks_wf_def unat_stack_base unat_stack_top)
qed

lemma create_keeps_stacks:
  assumes "layout_ok L" "placed_wf L s" "i < task_total s"
    and a: "tcb_stack_base (task_at s i) \<le> a" "a < tcb_stack_top (task_at s i)"
  shows "task_memory (snd (task_create L name entry argument s)) a = task_memory s a"
proof (cases "entry \<noteq> 0 \<and> task_total s < 8")
  case True
  note stack = placed_stack [OF assms(1-3)]
  have "unat (stack_base_addr L (g_task_count s)) = unat (g_task_stacks_addr L) + 1024 * task_total s"
    using assms(1) True by (simp add: unat_stack_base)
  moreover have "1024 * Suc i \<le> 1024 * task_total s" using assms(3) by (intro mult_le_mono) auto
  ultimately have "unat a < unat (stack_base_addr L (g_task_count s))"
    using a stack by (simp add: u32_le_unat u32_less_unat)
  then show ?thesis using True by (intro task_create_memory(2) [OF assms(1)]) simp_all
next
  case False
  then show ?thesis by (cases "entry = 0") (simp_all add: task_create_null task_create_full)
qed

section \<open>A concrete system\<close>

text \<open>
  A concrete linker layout and the zeroed static variables, for the witnesses of this and
  the following theories.
\<close>

definition demo_layout :: link_layout where
  "demo_layout = \<lparr>g_task_stacks_addr = 0x20000100, task_exit_trap_addr = 0x501,
     idle_task_addr = 0x601\<rparr>"

definition zero_tcb :: task_control_block_t where
  "zero_tcb = \<lparr>tcb_id = 0, tcb_name = None, tcb_entry = 0, tcb_argument = 0,
     tcb_state = TASK_STATE_UNUSED, tcb_stack_base = 0, tcb_stack_top = 0,
     tcb_stack_pointer = 0, tcb_stack_size_words = 0, tcb_wakeup_tick = 0\<rparr>"

definition zero_system :: task_system where
  "zero_system = \<lparr>g_task_table = replicate OS_MAX_TASKS zero_tcb, g_task_count = 0,
     task_memory = (\<lambda>_. 0)\<rparr>"

lemma demo_layout_ok [simp]: "layout_ok demo_layout"
  by (simp add: layout_ok_def demo_layout_def)

lemma zero_system_length [simp]: "length (g_task_table zero_system) = OS_MAX_TASKS"
  by (simp add: zero_system_def)

section \<open>Properties\<close>

text \<open>
  (C17) Task table safety: after \<open>task_system_init\<close>, whatever sequence of calls of \<open>task.h\<close>
  follows, with whatever arguments, every entry in use carries its index, has its region of the
  stack array as its stack and its saved stack pointer inside it, and every other entry is
  UNUSED. \<open>task_set_state\<close> does not check what it is given; if every call of it in the
  sequence is harmless, no entry in use is UNUSED, only a SLEEPING task has a wakeup tick, and
  idle is READY or RUNNING.
\<close>

theorem task_calls_keep_table_well_formed:
  assumes "layout_ok L" "length (g_task_table s) = OS_MAX_TASKS"
  shows "placed_wf L (run_calls L calls (task_system_init L s)) \<and>
    (all_harmless L calls (task_system_init L s) \<longrightarrow> tasks_wf (run_calls L calls (task_system_init L s)))"
  using run_calls_placed [OF assms(1) init_placed [OF assms(1,2)], of calls]
    run_calls_wf [OF assms(1) task_system_init_wf(1) [OF assms(1,2)], of calls]
  by simp

text \<open>A call of \<open>task_set_state\<close> that is not harmless, and a sequence in which it is.\<close>

lemma demo_created:
  "task_total (run_call demo_layout (Call_create name 0x701 x) (task_system_init demo_layout zero_system)) = 2"
  "state_of (run_call demo_layout (Call_create name 0x701 x) (task_system_init demo_layout zero_system)) 1 =
     TASK_STATE_READY"
  "tcb_wakeup_tick (task_at (run_call demo_layout (Call_create name 0x701 x)
     (task_system_init demo_layout zero_system)) 1) = 0"
proof -
  let ?i = "task_system_init demo_layout zero_system"
  have init: "task_total ?i = 1" "length (g_task_table ?i) = 8"
    using task_system_init_wf [OF demo_layout_ok zero_system_length] by (simp_all add: tasks_wf_def table_wf_def)
  then show
    "task_total (run_call demo_layout (Call_create name 0x701 x) ?i) = 2"
    "state_of (run_call demo_layout (Call_create name 0x701 x) ?i) 1 = TASK_STATE_READY"
    "tcb_wakeup_tick (task_at (run_call demo_layout (Call_create name 0x701 x) ?i) 1) = 0"
    by (simp_all add: task_create_eq unat_suc_count created_tcb_def)
qed

theorem task_calls_keep_table_well_formed_witness:
  "placed_wf demo_layout (run_calls demo_layout
     [Call_create (Some ''a'') 0x701 5, Call_set_state 1 TASK_STATE_UNUSED, Call_wake_expired 31]
     (task_system_init demo_layout zero_system)) \<and>
   tasks_wf (run_calls demo_layout
     [Call_create (Some ''a'') 0x701 5, Call_set_state 1 TASK_STATE_RUNNING, Call_sleep_until 1 30,
      Call_block 0, Call_wake_expired 31] (task_system_init demo_layout zero_system))"
proof -
  have "all_harmless demo_layout [Call_create (Some ''a'') 0x701 5, Call_set_state 1 TASK_STATE_RUNNING,
      Call_sleep_until 1 30, Call_block 0, Call_wake_expired 31] (task_system_init demo_layout zero_system)"
    using demo_created by (simp del: run_call.simps)
  then show ?thesis
    using task_calls_keep_table_well_formed [OF demo_layout_ok zero_system_length] by blast
qed

text \<open>The transitions of the task state machine documented in the README and the headers.\<close>

inductive task_transition :: "task_state_t \<Rightarrow> task_state_t \<Rightarrow> bool" where
  create: "task_transition TASK_STATE_UNUSED TASK_STATE_READY"
| sleep_running: "task_transition TASK_STATE_RUNNING TASK_STATE_SLEEPING"
| sleep_ready: "task_transition TASK_STATE_READY TASK_STATE_SLEEPING"
| wake: "task_transition TASK_STATE_SLEEPING TASK_STATE_READY"
| block: "task_transition TASK_STATE_RUNNING TASK_STATE_BLOCKED"
| unblock: "task_transition TASK_STATE_BLOCKED TASK_STATE_READY"

inductive_cases from_blocked: "task_transition TASK_STATE_BLOCKED t"
inductive_simps task_transition_to_simps:
  "task_transition s TASK_STATE_SLEEPING" "task_transition s TASK_STATE_BLOCKED"

text \<open>
  (C18) State machine: \<open>task_system_init\<close> makes idle READY and every other entry UNUSED;
  \<open>task_set_state\<close> gives its task the state it is told and leaves all others alone; every other
  call leaves a task's state as it is or moves it along one of the documented transitions; so
  with these calls a BLOCKED task can only become READY, and only a RUNNING task becomes BLOCKED.
\<close>

theorem task_call_transitions:
  assumes "layout_ok L" "tasks_wf s" "i < OS_MAX_TASKS"
  shows "case c of
      Call_init \<Rightarrow> state_of (run_call L c s) i = (if i = 0 then TASK_STATE_READY else TASK_STATE_UNUSED)
    | Call_set_state j st \<Rightarrow>
        state_of (run_call L c s) i = (if i = unat j \<and> i < task_total s then st else state_of s i)
    | _ \<Rightarrow> state_of (run_call L c s) i = state_of s i \<or>
        task_transition (state_of s i) (state_of (run_call L c s) i)"
proof (cases c)
  case Call_init
  have "length (g_task_table s) = OS_MAX_TASKS" using tasks_wfD(1) [OF assms(2)] by simp
  note init = task_system_init_wf [OF assms(1) this]
  show ?thesis using Call_init init(4) tasks_wfD(5) [OF init(1), of i] init(3) assms(3) by auto
next
  case (Call_create name entry argument)
  have "table_wf s" using assms(2) by (simp add: tasks_wf_def)
  with Call_create assms tasks_wfD(1,5) [OF assms(2)] show ?thesis
    by (cases "entry = 0"; cases "task_total s < 8")
      (auto simp: task_create_null task_create_full task_create_eq nth_list_update created_tcb_def
        intro: task_transition.intros)
next
  case (Call_wake_expired now)
  with assms tasks_wfD(1) [OF assms(2)] show ?thesis
    by (auto simp: task_wake_expired_eq woken_def wakes_at_def intro: task_transition.intros)
qed (use assms tasks_wfD(1) [OF assms(2)] in
  \<open>auto simp: task_op_eqs task_set_stack_pointer_def nth_update_if intro: task_transition.intros\<close>)

theorem task_call_transitions_witness:
  "let s = task_system_init demo_layout zero_system;
       s' = run_call demo_layout (Call_create (Some ''a'') 0x701 5) s in
   (state_of s' 1 = state_of s 1 \<or> task_transition (state_of s 1) (state_of s' 1)) \<and>
   state_of (run_call demo_layout (Call_set_state 0 TASK_STATE_RUNNING) s) 0 = TASK_STATE_RUNNING"
proof -
  note init = task_system_init_wf [OF demo_layout_ok zero_system_length]
  show ?thesis
    using task_call_transitions [OF demo_layout_ok init(1), of 1 "Call_create (Some ''a'') 0x701 5"]
      task_call_transitions [OF demo_layout_ok init(1), of 0 "Call_set_state 0 TASK_STATE_RUNNING"] init(3)
    by (simp add: Let_def del: run_call.simps)
qed

text \<open>
  (C19) Initial context: a created task gets an 8-byte aligned saved stack pointer inside its
  own stack; the sixteen words from there up are \<open>R4\<close> to \<open>R11\<close>, \<open>R0\<close> (the task argument),
  \<open>R1\<close>, \<open>R2\<close>, \<open>R3\<close>, \<open>R12\<close>, \<open>LR\<close> (the exit trap), \<open>PC\<close> (the entry) and \<open>xPSR\<close> with
  the Thumb bit, which is the order PendSV and the exception return pop them; and no byte
  outside the task's own stack region is written.
\<close>

theorem task_create_initial_context:
  assumes "layout_ok L" "entry \<noteq> 0" "task_total s < OS_MAX_TASKS"
    and "length (g_task_table s) = OS_MAX_TASKS"
    and "task_create L name entry argument s = (tid, s')"
  shows "tid = int (task_total s) \<and> task_total s' = Suc (task_total s) \<and>
    (let t = task_at s' (task_total s); sp = tcb_stack_pointer t in
       tcb_state t = TASK_STATE_READY \<and> unat sp mod 8 = 0 \<and>
       unat (tcb_stack_base t) \<le> unat sp \<and> unat sp + 64 \<le> unat (tcb_stack_top t) \<and>
       read_words (task_memory s') sp 16 =
         [0x04040404, 0x05050505, 0x06060606, 0x07070707, 0x08080808, 0x09090909, 0x10101010,
          0x11111111, argument, 0x01010101, 0x02020202, 0x03030303, 0x12121212,
          task_exit_trap_addr L, entry, 0x01000000] \<and>
       (\<forall>a. unat a < unat (tcb_stack_base t) \<or> unat (tcb_stack_top t) \<le> unat a \<longrightarrow>
          task_memory s' a = task_memory s a))"
proof -
  let ?c = "g_task_count s"
  let ?sp = "(stack_top_addr L ?c AND NOT 7) - 64"
  have c8: "unat ?c < 8" using assms(3) by simp
  have s': "tid = int (task_total s)" "s' = snd (task_create L name entry argument s)"
    using assms(2,3,5) by (auto simp: task_create_eq)
  note mem = task_create_memory [OF assms(1-3), where name = name and argument = argument, folded s'(2)]
  have t: "task_at s' (task_total s) = created_tcb L name entry argument ?c (task_at s (task_total s))"
    using assms(3,4) by (simp add: s'(2) task_create_eq [OF assms(2,3)])
  have total: "task_total s' = Suc (task_total s)"
    using assms(2,3) by (simp add: s'(2) task_create_total)
  have range: "unat (stack_top_addr L ?c) = unat (stack_base_addr L ?c) + 1024"
    using assms(1) c8 by (simp add: unat_stack_top unat_stack_base)
  obtain m where "task_prepare_initial_stack L (task_memory s) (stack_top_addr L ?c) entry argument = (m, ?sp)"
    using prepared_stack_pointer by (metis prod.collapse)
  note bounds = prepared_stack_bounds [OF assms(1) c8 this]
  have f: "tcb_state (task_at s' (task_total s)) = TASK_STATE_READY"
      "tcb_stack_base (task_at s' (task_total s)) = stack_base_addr L ?c"
      "tcb_stack_top (task_at s' (task_total s)) = stack_top_addr L ?c"
      "tcb_stack_pointer (task_at s' (task_total s)) = ?sp"
    unfolding t by (simp_all add: created_tcb_def)
  show ?thesis
    unfolding Let_def f total s'(1) mem(1)
    using bounds range mem(2) by (auto simp: initial_frame_def)
qed

theorem task_create_initial_context_witness:
  "let s' = snd (task_create demo_layout (Some ''a'') 0x701 5 zero_system) in
     read_words (task_memory s') (tcb_stack_pointer (task_at s' 0)) 16 =
       [0x04040404, 0x05050505, 0x06060606, 0x07070707, 0x08080808, 0x09090909, 0x10101010,
        0x11111111, 5, 0x01010101, 0x02020202, 0x03030303, 0x12121212, 0x501, 0x701, 0x01000000]"
proof -
  have total: "task_total zero_system = 0" by (simp add: zero_system_def)
  have exit: "task_exit_trap_addr demo_layout = 0x501" by (simp add: demo_layout_def)
  show ?thesis
    using task_create_initial_context [OF demo_layout_ok _ _ zero_system_length prod.collapse [symmetric],
        of "0x701" "Some ''a''" 5] total exit
    by (simp add: Let_def)
qed

text \<open>
  (C20) Stack separation: after \<open>task_system_init\<close> and any sequence of calls (creations,
  assignments of states and of stack pointers included) every task has a stack of its own: 1024
  bytes inside SRAM, with its saved stack pointer in it, that does not overlap the stack of any
  other task, and creating a further task changes no word of it.
\<close>

theorem task_stacks_disjoint:
  assumes "layout_ok L" "length (g_task_table s0) = OS_MAX_TASKS"
    and "s = run_calls L calls (task_system_init L s0)"
    and "i < task_total s" "j < task_total s" "i \<noteq> j"
  shows "let base = (\<lambda>k. tcb_stack_base (task_at s k)); limit = (\<lambda>k. tcb_stack_top (task_at s k)) in
    (unat (limit i) \<le> unat (base j) \<or> unat (limit j) \<le> unat (base i)) \<and>
    0x20000000 \<le> unat (base i) \<and> unat (limit i) = unat (base i) + 1024 \<and> unat (limit i) \<le> 0x20008000 \<and>
    base i \<le> tcb_stack_pointer (task_at s i) \<and> tcb_stack_pointer (task_at s i) \<le> limit i \<and>
    (\<forall>name entry argument a. base i \<le> a \<and> a < limit i \<longrightarrow>
      task_memory (snd (task_create L name entry argument s)) a = task_memory s a)"
proof -
  define base limit where "base = (\<lambda>k. tcb_stack_base (task_at s k))" "limit = (\<lambda>k. tcb_stack_top (task_at s k))"
  have wf: "placed_wf L s" unfolding assms(3) by (rule run_calls_placed [OF assms(1) init_placed [OF assms(1,2)]])
  note I = placed_stack [OF assms(1) wf assms(4)] and J = placed_stack [OF assms(1) wf assms(5)]
  have "1024 * Suc i \<le> 1024 * j \<or> 1024 * Suc j \<le> 1024 * i"
    using assms(6) by (cases "i < j") (auto intro!: mult_le_mono)
  then have apart: "unat (limit i) \<le> unat (base j) \<or> unat (limit j) \<le> unat (base i)"
    using I J by (auto simp: base_limit_def)
  have sram: "0x20000000 \<le> unat (base i)" "unat (limit i) = unat (base i) + 1024" "unat (limit i) \<le> 0x20008000"
    using assms(1) I by (auto simp: base_limit_def layout_ok_def)
  have sp: "base i \<le> tcb_stack_pointer (task_at s i)" "tcb_stack_pointer (task_at s i) \<le> limit i"
    using placed_wfD(5) [OF wf assms(4)] by (simp_all add: entry_wf_def base_limit_def)
  have "task_memory (snd (task_create L name entry argument s)) a = task_memory s a"
    if "base i \<le> a \<and> a < limit i" for name entry argument a
    using that by (intro create_keeps_stacks [OF assms(1) wf assms(4)]) (simp_all add: base_limit_def)
  with apart sram sp show ?thesis unfolding Let_def base_limit_def by blast
qed

theorem task_stacks_disjoint_witness:
  "let s = run_calls demo_layout [Call_create None 0x701 0, Call_set_state 1 TASK_STATE_BLOCKED]
       (task_system_init demo_layout zero_system) in
   (unat (tcb_stack_top (task_at s 0)) \<le> unat (tcb_stack_base (task_at s 1)) \<or>
    unat (tcb_stack_top (task_at s 1)) \<le> unat (tcb_stack_base (task_at s 0))) \<and>
   task_memory (snd (task_create demo_layout None 0x901 7 s)) (tcb_stack_base (task_at s 1)) =
     task_memory s (tcb_stack_base (task_at s 1))"
proof -
  let ?calls = "[Call_create None 0x701 0, Call_set_state 1 TASK_STATE_BLOCKED]"
  let ?s = "run_calls demo_layout ?calls (task_system_init demo_layout zero_system)"
  have total: "task_total ?s = 2"
    using demo_created(1) [of None 0] by (simp add: frame_simps del: run_call.simps(2))
  note stacks = task_stacks_disjoint [OF demo_layout_ok zero_system_length refl, where i = 1 and j = 0 and calls = ?calls]
  show ?thesis
    using stacks total by (auto simp: Let_def u32_le_unat u32_less_unat)
qed

lemma expired_after:
  fixes now ms e :: u32
  assumes "unat ms < 2 ^ 31" "unat e < 2 ^ 31"
  shows "((now + e) - (now + ms) < 0x80000000) \<longleftrightarrow> ms \<le> e"
proof -
  have "(now + e) - (now + ms) = e - ms" by simp
  then show ?thesis
    using assms by (auto simp: u32_less_unat u32_le_unat unat_u32_diff)
qed

text \<open>
  Exact timed wakeup: a task put to sleep at tick \<open>now\<close> for \<open>ms\<close> ticks, with
  \<open>0 < ms < 2 ^ 31\<close>, is woken by the scan at tick \<open>now + e\<close> (for any \<open>e < 2 ^ 31\<close>, across
  a wrap of the tick counter too) exactly if \<open>ms \<le> e\<close>: never early, and not later than the
  first scan at or after its tick.
\<close>

lemma sleeping_task_wakes_exactly_on_time:
  assumes "tasks_wf s" "task_sleep_until i (now + ms) s = (TASK_OK, s')"
    and "unat ms < 2 ^ 31" "unat e < 2 ^ 31"
  shows "state_of (snd (task_wake_expired_sleeping_tasks (now + e) s')) (unat i) =
    (if ms \<le> e then TASK_STATE_READY else TASK_STATE_SLEEPING)"
proof -
  have wf: "tasks_wf s'" using task_sleep_until_wf [OF assms(1), of i "now + ms"] assms(2) by simp
  have slot: "unat i < length (g_task_table s)"
    using assms(2) tasks_wf_nonnull [OF assms(1)] by (auto simp: task_sleep_until_eq split: if_splits)
  then have t: "state_of s' (unat i) = TASK_STATE_SLEEPING"
      "tcb_wakeup_tick (task_at s' (unat i)) = now + ms" "length (g_task_table s') = length (g_task_table s)"
    using assms(2) by (auto simp: task_sleep_until_eq split: if_splits)
  show ?thesis
    using slot t expired_after [OF assms(3,4), of now]
    by (auto simp: task_wake_expired_eq [OF wf] woken_def wakes_at_def)
qed

text \<open>A system with one application task that has just been selected to run.\<close>

definition demo_running :: task_system where
  "demo_running = snd (task_set_state 1 TASK_STATE_RUNNING
     (run_calls demo_layout [Call_create (Some ''a'') 0x701 0] (task_system_init demo_layout zero_system)))"

lemma demo_running_facts:
  "tasks_wf demo_running" "task_total demo_running = 2"
  "state_of demo_running 0 = TASK_STATE_READY" "state_of demo_running 1 = TASK_STATE_RUNNING"
proof -
  let ?i = "task_system_init demo_layout zero_system"
  let ?s = "run_calls demo_layout [Call_create (Some ''a'') 0x701 0] ?i"
  have init: "tasks_wf ?i" "task_total ?i = 1" "state_of ?i 0 = TASK_STATE_READY"
      "length (g_task_table ?i) = 8"
    using task_system_init_wf [OF demo_layout_ok zero_system_length] by (simp_all add: tasks_wf_def table_wf_def)
  have wf: "tasks_wf ?s" using init by (simp add: run_calls_def task_create_wf)
  have s: "task_total ?s = 2" "state_of ?s 0 = TASK_STATE_READY"
      "state_of ?s 1 = TASK_STATE_READY" "length (g_task_table ?s) = 8"
    using init by (simp_all add: run_calls_def task_create_eq unat_suc_count created_tcb_def)
  show "tasks_wf demo_running" unfolding demo_running_def
    by (rule task_set_state_wf [OF wf]) (use s in simp_all)
  show "task_total demo_running = 2" "state_of demo_running 0 = TASK_STATE_READY"
    "state_of demo_running 1 = TASK_STATE_RUNNING"
    using s by (simp_all add: demo_running_def task_set_state_eq)
qed

text \<open>
  Overlong sleeps: the wrap-safe comparison reads a sleep of more than
  \<open>2 ^ 31 + 1\<close> ticks as already expired, so such a task is woken by the very next scan,
  one tick later.
\<close>

lemma overlong_sleep_wakes_at_next_tick:
  assumes "tasks_wf s" "task_sleep_until i (now + ms) s = (TASK_OK, s')"
    and "2 ^ 31 + 1 < unat ms"
  shows "state_of (snd (task_wake_expired_sleeping_tasks (now + 1) s')) (unat i) = TASK_STATE_READY"
proof -
  have wf: "tasks_wf s'" using task_sleep_until_wf [OF assms(1), of i "now + ms"] assms(2) by simp
  have slot: "unat i < length (g_task_table s)"
    using assms(2) tasks_wf_nonnull [OF assms(1)] by (auto simp: task_sleep_until_eq split: if_splits)
  then have t: "state_of s' (unat i) = TASK_STATE_SLEEPING"
      "tcb_wakeup_tick (task_at s' (unat i)) = now + ms" "length (g_task_table s') = length (g_task_table s)"
    using assms(2) by (auto simp: task_sleep_until_eq split: if_splits)
  have "(now + 1) - (now + ms) = 1 - ms" by simp
  moreover have "1 - ms < 0x80000000"
    using assms(3) unat_u32_less [of ms] by (simp add: u32_less_unat unat_u32_diff)
  ultimately show ?thesis
    using slot t by (auto simp: task_wake_expired_eq [OF wf] woken_def wakes_at_def)
qed

text \<open>
  (C21) The duration of a sleep: a task put to sleep at tick \<open>now\<close> for \<open>ms < 2 ^ 31\<close> ticks is woken
  by the scan at tick \<open>now + e\<close> (for any \<open>e < 2 ^ 31\<close>, across a wrap of the tick counter too)
  exactly if \<open>ms \<le> e\<close>, so neither early nor late; a sleep of more than \<open>2 ^ 31 + 1\<close> ticks is read
  as already expired by the wrap-safe comparison and ends at the very next tick.
\<close>

theorem sleep_duration:
  assumes "tasks_wf s" "task_sleep_until i (now + ms) s = (TASK_OK, s')"
  shows "(unat ms < 2 ^ 31 \<and> unat e < 2 ^ 31 \<longrightarrow>
      state_of (snd (task_wake_expired_sleeping_tasks (now + e) s')) (unat i) =
        (if ms \<le> e then TASK_STATE_READY else TASK_STATE_SLEEPING)) \<and>
    (2 ^ 31 + 1 < unat ms \<longrightarrow>
      state_of (snd (task_wake_expired_sleeping_tasks (now + 1) s')) (unat i) = TASK_STATE_READY)"
  using sleeping_task_wakes_exactly_on_time [OF assms, of e] overlong_sleep_wakes_at_next_tick [OF assms]
  by blast

theorem sleep_duration_witness:
  "let s' = snd (task_sleep_until 1 (0xFFFFFFF0 + 30) demo_running);
       l' = snd (task_sleep_until 1 (100 + 0x80000002) demo_running) in
   state_of (snd (task_wake_expired_sleeping_tasks (0xFFFFFFF0 + 29) s')) 1 = TASK_STATE_SLEEPING \<and>
   state_of (snd (task_wake_expired_sleeping_tasks (0xFFFFFFF0 + 30) s')) 1 = TASK_STATE_READY \<and>
   state_of (snd (task_wake_expired_sleeping_tasks (100 + 1) l')) 1 = TASK_STATE_READY"
proof -
  have ok: "task_sleep_until 1 w demo_running = (TASK_OK, snd (task_sleep_until 1 w demo_running))" for w
    using demo_running_facts by (simp add: task_sleep_until_eq)
  show ?thesis
    unfolding Let_def
    using sleep_duration [OF demo_running_facts(1) ok [of "0xFFFFFFF0 + 30"], of 29]
      sleep_duration [OF demo_running_facts(1) ok [of "0xFFFFFFF0 + 30"], of 30]
      sleep_duration [OF demo_running_facts(1) ok [of "100 + 0x80000002"]]
    by simp
qed

text \<open>
  The wakeup scan: it wakes exactly the sleeping tasks whose tick has passed (their
  state becomes READY, their wakeup tick is cleared), leaves every other entry as it is and
  returns how many it woke.
\<close>

lemma wake_scan_wakes_exactly_the_expired:
  assumes "tasks_wf s" "task_wake_expired_sleeping_tasks now s = (n, s')"
  shows "unat n = card {i. i < task_total s \<and> wakes_at now (task_at s i)} \<and>
    (\<forall>i < OS_MAX_TASKS. task_at s' i =
      (if wakes_at now (task_at s i)
       then (task_at s i)\<lparr>tcb_wakeup_tick := 0, tcb_state := TASK_STATE_READY\<rparr>
       else task_at s i))"
proof -
  let ?t = "task_total s" and ?xs = "g_task_table s"
  have le: "?t \<le> length ?xs" "?t \<le> 8" "length ?xs = 8"
    using assms(1) by (simp_all add: tasks_wf_def table_wf_def)
  have "length (filter (wakes_at now) (take ?t ?xs)) =
      card {i. i < length (take ?t ?xs) \<and> wakes_at now (take ?t ?xs ! i)}"
    by (rule length_filter_conv_card)
  also have "{i. i < length (take ?t ?xs) \<and> wakes_at now (take ?t ?xs ! i)} =
      {i. i < ?t \<and> wakes_at now (?xs ! i)}"
    using le(1) by auto
  finally have count: "length (filter (wakes_at now) (take ?t ?xs)) =
      card {i. i < ?t \<and> wakes_at now (?xs ! i)}" .
  have "length (filter (wakes_at now) (take ?t ?xs)) \<le> 8"
    using length_filter_le [of "wakes_at now" "take ?t ?xs"] le by simp
  then show ?thesis
    using assms(2) count le(3)
    by (auto simp: task_wake_expired_eq [OF assms(1)] woken_def)
qed

lemma wake_scan_wakes_exactly_the_expired_witness:
  "state_of (snd (task_wake_expired_sleeping_tasks 200 (snd (task_sleep_until 1 200 demo_running)))) 1 =
     TASK_STATE_READY"
proof -
  let ?s = "snd (task_sleep_until 1 200 demo_running)"
  have wf: "tasks_wf ?s" by (rule task_sleep_until_wf [OF demo_running_facts(1)])
  have len: "length (g_task_table demo_running) = 8"
    using demo_running_facts(1) by (simp add: tasks_wf_def table_wf_def)
  have "wakes_at 200 (task_at ?s 1)"
    using demo_running_facts len by (simp add: task_sleep_until_eq wakes_at_def)
  then show ?thesis
    using wake_scan_wakes_exactly_the_expired [OF wf prod.collapse [symmetric], of 200]
    by simp
qed

end
