(* ===== verification/Machine.thy ===== *)
theory Machine
  imports Task_Lemmas
begin

text \<open>
  The processor as the kernel uses it: the primitives of \<open>kernel/context_switch_asm.asm\<close>
  (\<open>os_irq_save\<close>, \<open>os_irq_restore\<close>, \<open>os_get_exception_number\<close>), the part of
  \<open>kernel/context_switch.c\<close> that drives the System Control Block, and the tick counter and
  timer registers of \<open>drivers/systick.c\<close>. The record extends the task system by the
  processor registers and by the static variables of the two files.

  Hardware behaviour that is used and documented for ARMv7-M: PRIMASK is one bit; a write
  to ICSR with bit 28 set makes PendSV pending and a zero bit has no effect there; any
  write to the SysTick current-value register clears it.
\<close>

section \<open>State\<close>

record machine = task_system +
  cpu_primask :: u32
  cpu_ipsr :: u32
  cpu_control :: u32
  cpu_psp :: u32
  cpu_r4_r11 :: "u32 list"
  pendsv_pending :: bool
  scb_shpr3 :: u32
  systick_ctrl :: u32
  systick_reload :: u32
  systick_current :: u32
  g_context_switch_started :: u32
  g_os_ticks :: u32

section \<open>context_switch_asm.asm: critical sections\<close>

definition os_irq_save :: "'a machine_scheme \<Rightarrow> u32 \<times> 'a machine_scheme" where
  "os_irq_save m = (cpu_primask m, m\<lparr>cpu_primask := 1\<rparr>)"

definition os_irq_restore :: "u32 \<Rightarrow> 'a machine_scheme \<Rightarrow> 'a machine_scheme" where
  "os_irq_restore primask m = m\<lparr>cpu_primask := primask AND 1\<rparr>"

definition os_get_exception_number :: "'a machine_scheme \<Rightarrow> u32" where
  "os_get_exception_number m = cpu_ipsr m"

section \<open>context_switch.c: PendSV control\<close>

definition SCB_ICSR_PENDSVSET :: u32 where
  "SCB_ICSR_PENDSVSET = push_bit 28 1"

definition SCB_SHPR3_PENDSV_MASK :: u32 where
  "SCB_SHPR3_PENDSV_MASK = push_bit 16 0xFF"

definition scb_icsr_write :: "u32 \<Rightarrow> 'a machine_scheme \<Rightarrow> 'a machine_scheme" where
  "scb_icsr_write v m = m\<lparr>pendsv_pending := (bit v 28 \<or> pendsv_pending m)\<rparr>"

definition os_context_switch_init :: "'a machine_scheme \<Rightarrow> 'a machine_scheme" where
  "os_context_switch_init m =
     (let m1 = m\<lparr>g_context_switch_started := 0\<rparr>;
          m2 = m1\<lparr>scb_shpr3 := scb_shpr3 m1 AND NOT SCB_SHPR3_PENDSV_MASK\<rparr>
      in m2\<lparr>scb_shpr3 := scb_shpr3 m2 OR SCB_SHPR3_PENDSV_MASK\<rparr>)"

definition os_trigger_context_switch :: "'a machine_scheme \<Rightarrow> 'a machine_scheme" where
  "os_trigger_context_switch m = scb_icsr_write SCB_ICSR_PENDSVSET m"

definition os_context_switch_is_started :: "'a machine_scheme \<Rightarrow> u32" where
  "os_context_switch_is_started m = g_context_switch_started m"

definition os_context_switch_mark_started :: "'a machine_scheme \<Rightarrow> 'a machine_scheme" where
  "os_context_switch_mark_started m = m\<lparr>g_context_switch_started := 1\<rparr>"

declare os_irq_save_def [machine_ops] os_irq_restore_def [machine_ops]
  os_get_exception_number_def [machine_ops] os_context_switch_is_started_def [machine_ops]
  os_context_switch_mark_started_def [machine_ops]

lemma os_trigger_context_switch_eq [machine_ops]:
  "os_trigger_context_switch m = m\<lparr>pendsv_pending := True\<rparr>"
  by (simp add: os_trigger_context_switch_def scb_icsr_write_def SCB_ICSR_PENDSVSET_def bit_simps)

lemma primask_same: "cpu_primask m = p \<Longrightarrow> m\<lparr>cpu_primask := p\<rparr> = m"
  by auto

lemma irq_restore_saved:
  "cpu_primask m AND 1 = cpu_primask m \<Longrightarrow>
    os_irq_restore (fst (os_irq_save m)) (snd (os_irq_save m)) = m"
  by (simp add: machine_ops)

text \<open>Operations of task.c leave the processor and these variables alone.\<close>

lemma update_task_machine [simp]:
  "cpu_primask (update_task i f m) = cpu_primask m"
  "cpu_ipsr (update_task i f m) = cpu_ipsr m"
  "cpu_control (update_task i f m) = cpu_control m"
  "cpu_psp (update_task i f m) = cpu_psp m"
  "cpu_r4_r11 (update_task i f m) = cpu_r4_r11 m"
  "pendsv_pending (update_task i f m) = pendsv_pending m"
  "scb_shpr3 (update_task i f m) = scb_shpr3 m"
  "systick_ctrl (update_task i f m) = systick_ctrl m"
  "systick_reload (update_task i f m) = systick_reload m"
  "systick_current (update_task i f m) = systick_current m"
  "g_context_switch_started (update_task i f m) = g_context_switch_started m"
  "g_os_ticks (update_task i f m) = g_os_ticks m"
  "machine.more (update_task i f m) = machine.more m"
  by (simp_all add: update_task_def)

end
