(* ===== verification/Systick.thy ===== *)
theory Systick
  imports Machine
begin

text \<open>
  The SysTick driver (\<open>drivers/systick.c\<close>, \<open>drivers/systick.h\<close>): clock validation, timer
  start and stop, the tick counter and the busy-wait \<open>os_delay_ms\<close>. The counter is
  \<open>volatile\<close>: what the interrupts do between a poll of the busy-wait and the next is its
  parameter \<open>irq\<close>, by the number of the poll. \<open>systick_handler\<close>, which also calls the scheduler, is in theory Interrupts.
\<close>

abbreviation (input) OS_TICKS_PER_SECOND :: u32 where "OS_TICKS_PER_SECOND \<equiv> 1000"
abbreviation (input) SYSTICK_OK :: u32 where "SYSTICK_OK \<equiv> 0"
abbreviation (input) SYSTICK_ERROR_CLOCK :: u32 where "SYSTICK_ERROR_CLOCK \<equiv> 1"
abbreviation (input) SYSTICK_MAX_RELOAD :: u32 where "SYSTICK_MAX_RELOAD \<equiv> 0x00FFFFFF"

definition SYSTICK_CTRL_ENABLE :: u32 where "SYSTICK_CTRL_ENABLE = push_bit 0 1"
definition SYSTICK_CTRL_TICKINT :: u32 where "SYSTICK_CTRL_TICKINT = push_bit 1 1"
definition SYSTICK_CTRL_CLKSOURCE :: u32 where "SYSTICK_CTRL_CLKSOURCE = push_bit 2 1"

definition systick_is_valid_clock :: "u32 \<Rightarrow> u32" where
  "systick_is_valid_clock system_clock_hz =
     (if system_clock_hz = 0 then 0
      else if system_clock_hz mod OS_TICKS_PER_SECOND \<noteq> 0 then 0
      else let reload_value = system_clock_hz div OS_TICKS_PER_SECOND - 1
           in if reload_value > SYSTICK_MAX_RELOAD then 0 else 1)"

definition systick_stop :: "'a machine_scheme \<Rightarrow> 'a machine_scheme" where
  "systick_stop m = m\<lparr>systick_ctrl := 0, systick_current := 0\<rparr>"

definition systick_init :: "u32 \<Rightarrow> 'a machine_scheme \<Rightarrow> u32 \<times> 'a machine_scheme" where
  "systick_init system_clock_hz m =
     (if systick_is_valid_clock system_clock_hz = 0 then
        (SYSTICK_ERROR_CLOCK, (systick_stop m)\<lparr>g_os_ticks := 0\<rparr>)
      else
        let reload_value = system_clock_hz div OS_TICKS_PER_SECOND - 1;
            m1 = m\<lparr>systick_ctrl := 0\<rparr>;
            m2 = m1\<lparr>systick_reload := reload_value\<rparr>;
            m3 = m2\<lparr>systick_current := 0\<rparr>;
            m4 = m3\<lparr>g_os_ticks := 0\<rparr>
        in (SYSTICK_OK,
            m4\<lparr>systick_ctrl := SYSTICK_CTRL_CLKSOURCE OR SYSTICK_CTRL_TICKINT OR
                              SYSTICK_CTRL_ENABLE\<rparr>))"

definition systick_reset_ticks :: "'a machine_scheme \<Rightarrow> 'a machine_scheme" where
  "systick_reset_ticks m = m\<lparr>g_os_ticks := 0\<rparr>"

definition systick_tick :: "'a machine_scheme \<Rightarrow> 'a machine_scheme" where
  "systick_tick m = m\<lparr>g_os_ticks := g_os_ticks m + 1\<rparr>"

definition os_get_ticks :: "'a machine_scheme \<Rightarrow> u32" where
  "os_get_ticks m = g_os_ticks m"

partial_function (option) os_delay_loop ::
  "(nat \<Rightarrow> 'a machine_scheme \<Rightarrow> 'a machine_scheme) \<Rightarrow> nat \<Rightarrow> u32 \<Rightarrow> u32 \<Rightarrow> 'a machine_scheme \<Rightarrow>
   'a machine_scheme option"
where
  "os_delay_loop irq poll start_tick delay_ms m =
     (if os_get_ticks m - start_tick < delay_ms
      then os_delay_loop irq (Suc poll) start_tick delay_ms (irq poll m)
      else Some m)"

definition os_delay_ms ::
  "(nat \<Rightarrow> 'a machine_scheme \<Rightarrow> 'a machine_scheme) \<Rightarrow> u32 \<Rightarrow> 'a machine_scheme \<Rightarrow> 'a machine_scheme option"
where
  "os_delay_ms irq delay_ms m = os_delay_loop irq 0 (os_get_ticks m) delay_ms m"

declare systick_tick_def [machine_ops] os_get_ticks_def [machine_ops]

section \<open>The busy-wait\<close>

text \<open>The state at a poll, and what the loop does if the given numbers of ticks come between its polls.\<close>

primrec polled :: "(nat \<Rightarrow> 'a machine_scheme \<Rightarrow> 'a machine_scheme) \<Rightarrow> nat \<Rightarrow> 'a machine_scheme \<Rightarrow> 'a machine_scheme" where
  "polled irq 0 m = m"
| "polled irq (Suc p) m = irq p (polled irq p m)"

lemma polled_ticks:
  assumes "\<And>p m. g_os_ticks (irq p m) = g_os_ticks m + of_nat (t p)"
  shows "g_os_ticks (polled irq p m) = g_os_ticks m + of_nat (sum t {..<p})"
  by (induction p) (simp_all add: assms)

text \<open>The elapsed time is the number of ticks that have come, as long as the loop has not returned.\<close>

lemma elapsed_ticks:
  fixes ms :: u32
  assumes "sum t {..<p} < unat ms" "t p + unat ms \<le> 2 ^ 32"
  shows "unat (of_nat (sum t {..<p}) :: u32) = sum t {..<p}"
    "unat (of_nat (sum t {..<Suc p}) :: u32) = sum t {..<Suc p}"
proof -
  have "sum t {..<Suc p} < 2 ^ 32" using assms by simp
  then show "unat (of_nat (sum t {..<p}) :: u32) = sum t {..<p}"
    "unat (of_nat (sum t {..<Suc p}) :: u32) = sum t {..<Suc p}"
    by (intro unat_small_u32; simp)+
qed

lemma os_delay_loop_returns:
  assumes "\<And>p m. g_os_ticks (irq p m) = g_os_ticks m + of_nat (t p)" "\<And>p. t p + unat ms \<le> 2 ^ 32"
    and "unat ms \<le> sum t {..<q + p}" "\<forall>r < q + p. sum t {..<r} < unat ms"
  shows "os_delay_loop irq q (g_os_ticks m) ms (polled irq q m) = Some (polled irq (q + p) m)"
  using assms(3,4)
proof (induction p arbitrary: q)
  case 0
  have "unat (of_nat (sum t {..<q}) :: u32) = sum t {..<q}"
  proof (cases q)
    case (Suc r)
    then show ?thesis using elapsed_ticks(2) [where t = t and p = r, OF _ assms(2)] 0 by simp
  qed simp
  then have "\<not> g_os_ticks (polled irq q m) - g_os_ticks m < ms"
    using 0 by (simp add: polled_ticks [where t = t, OF assms(1)] u32_less_unat del: of_nat_sum)
  then show ?case by (subst os_delay_loop.simps) (simp add: os_get_ticks_def)
next
  case (Suc p)
  have "sum t {..<q} < unat ms" using Suc.prems(2) by simp
  then have "g_os_ticks (polled irq q m) - g_os_ticks m < ms"
    using elapsed_ticks(1) [where t = t and p = q, OF _ assms(2)]
    by (simp add: polled_ticks [where t = t, OF assms(1)] u32_less_unat del: of_nat_sum)
  then show ?case
    using Suc.IH [of "Suc q"] Suc.prems by (subst os_delay_loop.simps) (simp add: os_get_ticks_def)
qed

text \<open>The loop cannot end before that.\<close>

lemma os_delay_loop_elapsed:
  fixes irq :: "nat \<Rightarrow> 'a machine_scheme \<Rightarrow> 'a machine_scheme"
  assumes "os_delay_loop irq q start ms m = Some m'"
  shows "\<exists>p. m' = foldl (\<lambda>m i. irq i m) m [q..<q + p] \<and> \<not> g_os_ticks m' - start < ms"
proof (rule os_delay_loop.raw_induct [OF _ assms,
    where P = "\<lambda>irq q start ms m m'. \<exists>p. m' = foldl (\<lambda>m i. irq i m) m [q..<q + p] \<and>
      \<not> g_os_ticks m' - start < ms"])
  fix loop q start ms m m' and irq :: "nat \<Rightarrow> 'a machine_scheme \<Rightarrow> 'a machine_scheme"
  assume step: "(if os_get_ticks m - start < ms then loop irq (Suc q) start ms (irq q m) else Some m) = Some m'"
  assume "\<And>(irq :: nat \<Rightarrow> 'a machine_scheme \<Rightarrow> 'a machine_scheme) q start ms m m'. loop irq q start ms m = Some m' \<Longrightarrow>
    \<exists>p. m' = foldl (\<lambda>m i. irq i m) m [q..<q + p] \<and> \<not> g_os_ticks m' - start < ms"
  note IH = this [of irq "Suc q" start ms "irq q m" m']
  show "\<exists>p. m' = foldl (\<lambda>m i. irq i m) m [q..<q + p] \<and> \<not> g_os_ticks m' - start < ms"
  proof (cases "g_os_ticks m - start < ms")
    case True
    then obtain p where "m' = foldl (\<lambda>m i. irq i m) (irq q m) [Suc q..<Suc q + p]" "\<not> g_os_ticks m' - start < ms"
      using IH step by (auto simp: os_get_ticks_def)
    then show ?thesis by (intro exI [of _ "Suc p"]) (simp add: upt_conv_Cons del: upt_Suc)
  next
    case False
    then show ?thesis using step by (intro exI [of _ 0]) (simp add: os_get_ticks_def)
  qed
qed

lemma polled_foldl: "polled irq p m = foldl (\<lambda>m i. irq i m) m [0..<p]"
  by (induction p) simp_all

lemma os_delay_ms_elapsed:
  assumes "os_delay_ms irq ms m = Some m'" "\<And>p m. g_os_ticks (irq p m) = g_os_ticks m + of_nat (t p)"
  shows "\<exists>p. unat ms \<le> sum t {..<p}"
proof -
  obtain p where p: "m' = polled irq p m" "\<not> g_os_ticks m' - g_os_ticks m < ms"
    using os_delay_loop_elapsed [of irq 0 "os_get_ticks m" ms m m'] assms(1)
    by (auto simp: os_delay_ms_def polled_foldl os_get_ticks_def)
  then have "unat ms \<le> unat (of_nat (sum t {..<p}) :: u32)"
    by (simp add: polled_ticks [where t = t, OF assms(2)] u32_less_unat del: of_nat_sum)
  also have "\<dots> \<le> sum t {..<p}" by (simp add: unat_of_nat take_bit_nat_less_eq_self del: of_nat_sum)
  finally show ?thesis by blast
qed

section \<open>Properties\<close>

text \<open>
  (C22) One-millisecond tick: the driver accepts a clock exactly if it is a positive multiple
  of 1000 Hz whose reload value fits the 24-bit counter; then the timer runs from that
  reload value with one period of \<open>reload + 1\<close> cycles being exactly one millisecond, the
  tick counter starts at 0 and the interrupt is enabled. Otherwise the timer is stopped.
\<close>

theorem systick_init_period:
  "let (status, m') = systick_init hz m in
   g_os_ticks m' = 0 \<and> systick_current m' = 0 \<and>
   (if 0 < unat hz \<and> 1000 dvd unat hz \<and> unat hz \<le> 1000 * 2 ^ 24
    then status = SYSTICK_OK \<and> 1000 * (unat (systick_reload m') + 1) = unat hz \<and>
         unat (systick_reload m') < 2 ^ 24 \<and> systick_ctrl m' = 7
    else status = SYSTICK_ERROR_CLOCK \<and> systick_ctrl m' = 0)"
proof -
  let ?r = "hz div 1000 - 1"
  have mod: "hz mod 1000 = 0 \<longleftrightarrow> unat hz mod 1000 = 0"
    by (simp add: unat_eq_0 [symmetric] unat_mod_distrib del: unat_eq_0)
  have div_eq: "unat (hz div 1000) = unat hz div 1000" by (simp add: unat_div_distrib)
  have zero: "hz = 0 \<longleftrightarrow> unat hz = 0" by (simp add: unat_eq_0)
  have reload: "unat ?r = q - 1" if "unat hz = 1000 * q" "0 < q" for q
  proof -
    have "(1 :: u32) \<le> hz div 1000" using that by (simp add: u32_le_unat div_eq)
    then show ?thesis using that by (simp add: unat_sub div_eq)
  qed
  have cond: "systick_is_valid_clock hz = 0 \<longleftrightarrow>
      unat hz = 0 \<or> unat hz mod 1000 \<noteq> 0 \<or> 0xFFFFFF < unat ?r"
    unfolding systick_is_valid_clock_def Let_def mod [symmetric] zero [symmetric]
    by (simp add: u32_less_unat)
  have valid: "systick_is_valid_clock hz = 0 \<longleftrightarrow>
      \<not> (0 < unat hz \<and> 1000 dvd unat hz \<and> unat hz \<le> 1000 * 2 ^ 24)"
  proof (cases "0 < unat hz \<and> unat hz mod 1000 = 0")
    case True
    then obtain q where q: "unat hz = 1000 * q" "0 < q" by (auto simp: mod_eq_0_iff_dvd elim!: dvdE)
    with cond show ?thesis unfolding reload [OF q] by auto
  next
    case False
    with cond show ?thesis by (auto simp: dvd_eq_mod_eq_0)
  qed
  have ctrl: "SYSTICK_CTRL_CLKSOURCE OR SYSTICK_CTRL_TICKINT OR SYSTICK_CTRL_ENABLE = 7"
    by (simp add: SYSTICK_CTRL_CLKSOURCE_def SYSTICK_CTRL_TICKINT_def SYSTICK_CTRL_ENABLE_def)
  show ?thesis
  proof (cases "systick_is_valid_clock hz = 0")
    case True
    then show ?thesis using valid by (simp add: systick_init_def systick_stop_def)
  next
    case False
    then obtain q where q: "unat hz = 1000 * q" "0 < q" "q \<le> 2 ^ 24"
      using valid by (auto elim!: dvdE)
    have "1000 * (unat ?r + 1) = unat hz" "unat ?r < 2 ^ 24"
      unfolding reload [OF q(1,2)] using q by simp_all
    with False valid ctrl show ?thesis by (simp add: systick_init_def Let_def)
  qed
qed

text \<open>
  (C23) The busy-wait: let \<open>t p\<close> timer ticks, none or several, come between poll \<open>p\<close> and the
  next. \<open>os_delay_ms\<close> returns exactly if at least \<open>delay_ms\<close> ticks come in all, and then at the
  first poll that has seen as many, so never early; for every 32-bit delay, from every counter
  value and across a wrap of the counter, provided that no single gap between two polls lasts
  more than \<open>2 ^ 32 - delay_ms\<close> ticks.
\<close>

theorem os_delay_ms_waits:
  assumes "\<And>p m. g_os_ticks (irq p m) = g_os_ticks m + of_nat (t p)" "\<And>p. t p + unat ms \<le> 2 ^ 32"
  shows "(os_delay_ms irq ms m \<noteq> None \<longleftrightarrow> (\<exists>p. unat ms \<le> sum t {..<p})) \<and>
    (\<forall>p. unat ms \<le> sum t {..<p} \<and> (\<forall>q < p. sum t {..<q} < unat ms) \<longrightarrow>
      os_delay_ms irq ms m = Some (polled irq p m) \<and>
      g_os_ticks (polled irq p m) = g_os_ticks m + of_nat (sum t {..<p}))"
proof -
  have first: "os_delay_ms irq ms m = Some (polled irq p m)"
    if "unat ms \<le> sum t {..<p}" "\<forall>q < p. sum t {..<q} < unat ms" for p
    using os_delay_loop_returns [where t = t and q = 0 and p = p and m = m, OF assms] that
    by (simp add: os_delay_ms_def os_get_ticks_def)
  have "os_delay_ms irq ms m \<noteq> None" if enough: "\<exists>p. unat ms \<le> sum t {..<p}"
  proof -
    obtain p where "unat ms \<le> sum t {..<p}" "\<forall>q < p. \<not> unat ms \<le> sum t {..<q}"
      using exists_least_iff [of "\<lambda>p. unat ms \<le> sum t {..<p}"] enough by blast
    then show ?thesis using first [of p] by (auto simp: not_le)
  qed
  then show ?thesis
    using first os_delay_ms_elapsed [where t = t, OF _ assms(1)] polled_ticks [where t = t, OF assms(1)] by blast
qed

text \<open>Two ticks after every other poll: a delay of 3 ticks ends at poll 4, after 4 ticks.\<close>

theorem os_delay_ms_waits_witness:
  "\<forall>m :: machine. \<exists>irq m'. os_delay_ms irq 3 m = Some m' \<and> g_os_ticks m' = g_os_ticks m + 4"
proof
  fix m :: machine
  define t :: "nat \<Rightarrow> nat" where "t p = (if odd p then 2 else 0)" for p
  define irq where "irq p m = (systick_tick ^^ t p) m" for p and m :: machine
  have "g_os_ticks ((systick_tick ^^ n) m) = g_os_ticks m + of_nat n" for n and m :: machine
    by (induction n) (simp_all add: systick_tick_def)
  then have tick: "g_os_ticks (irq p m) = g_os_ticks m + of_nat (t p)" for p and m :: machine
    by (simp add: irq_def)
  have sums: "sum t {..<0} = 0" "sum t {..<1} = 0" "sum t {..<2} = 2" "sum t {..<3} = 2" "sum t {..<4} = 4"
    by (simp_all add: t_def lessThan_nat_numeral lessThan_Suc)
  have "q < 4 \<Longrightarrow> q \<in> {0, 1, 2, 3}" for q :: nat by auto
  then have "\<forall>q < 4. sum t {..<q} < unat (3 :: u32)" using sums by fastforce
  moreover have "t p + unat (3 :: u32) \<le> 2 ^ 32" for p by (simp add: t_def)
  ultimately show "\<exists>irq m'. os_delay_ms irq 3 m = Some m' \<and> g_os_ticks m' = g_os_ticks m + 4"
    using os_delay_ms_waits [of irq t 3 m, OF tick] sums(5)
    by (intro exI [of _ irq] exI [of _ "polled irq 4 m"]) (simp del: of_nat_sum)
qed

end
