(* ===== verification/Ring_Search.thy ===== *)
theory Ring_Search
  imports Kernel_Prelude
begin

text \<open>
  The contract of a round-robin search. Three operations of the kernel walk the task
  identifiers in the circular order \<open>start + 1, start + 2, \<dots>, start\<close> (all modulo the
  number of tasks) and stop at the first eligible one: \<open>os_schedule_next\<close>,
  \<open>mutex_find_next_waiting_task\<close> and \<open>semaphore_find_next_waiting_task\<close>. The locale
  \<open>ring_search\<close> states what such a search promises and derives its functional
  properties once; \<open>ring_rotation\<close> adds that the next search starts at the identifier
  found, and derives that an identifier that stays eligible is found after at most
  \<open>size\<close> searches. Each of the three operations interprets the locales.
\<close>

section \<open>The circular order\<close>

definition ring_order :: "nat \<Rightarrow> nat \<Rightarrow> nat list" where
  "ring_order s n = map (\<lambda>k. (s + k) mod n) [1..<Suc n]"

text \<open>How many identifiers the walk from \<open>s\<close> visits before \<open>j\<close>.\<close>

definition ring_dist :: "nat \<Rightarrow> nat \<Rightarrow> nat \<Rightarrow> nat" where
  "ring_dist s n j = (if s < j then j - s - 1 else n + j - s - 1)"

lemma length_ring_order [simp]: "length (ring_order s n) = n"
  by (simp add: ring_order_def)

lemma nth_ring_order: "d < n \<Longrightarrow> ring_order s n ! d = (s + Suc d) mod n"
  by (simp add: ring_order_def del: upt_Suc)

lemma ring_dist_less: "s < n \<Longrightarrow> j < n \<Longrightarrow> ring_dist s n j < n"
  by (auto simp: ring_dist_def)

lemma nth_ring_dist:
  assumes "s < n" "j < n"
  shows "ring_order s n ! ring_dist s n j = j"
proof (cases "s < j")
  case True
  with assms show ?thesis
    by (simp add: nth_ring_order ring_dist_less) (simp add: ring_dist_def)
next
  case False
  then have "s + Suc (ring_dist s n j) = n + j" using assms by (simp add: ring_dist_def)
  with assms show ?thesis by (simp add: nth_ring_order ring_dist_less)
qed

lemma ring_dist_nth:
  assumes "s < n" "d < n"
  shows "ring_dist s n ((s + Suc d) mod n) = d"
proof (cases "s + Suc d < n")
  case True
  then show ?thesis by (simp add: ring_dist_def)
next
  case False
  then have "(s + Suc d) mod n = s + Suc d - n"
    using assms by (simp add: mod_if)
  moreover have "\<not> s < s + Suc d - n" and "n + (s + Suc d - n) - s - 1 = d"
    using assms False by arith+
  ultimately show ?thesis by (simp add: ring_dist_def)
qed

lemma set_ring_order: "s < n \<Longrightarrow> set (ring_order s n) = {..<n}"
proof (intro equalityI subsetI)
  fix j assume "s < n" "j \<in> {..<n}"
  then show "j \<in> set (ring_order s n)"
    by (metis lessThan_iff length_ring_order nth_mem nth_ring_dist ring_dist_less)
next
  fix j assume "s < n" "j \<in> set (ring_order s n)"
  then show "j \<in> {..<n}" by (auto simp: ring_order_def)
qed

text \<open>Moving the start to an identifier that comes before \<open>j\<close> brings \<open>j\<close> closer.\<close>

lemma ring_dist_advance:
  assumes "s < n" "i < n" "j < n" "ring_dist s n i < ring_dist s n j"
  shows "ring_dist i n j < ring_dist s n j"
  using assms by (auto simp: ring_dist_def split: if_splits)

lemma find_ring_order_nearest:
  assumes "s < n" "find P (ring_order s n) = Some i" "j < n" "P j"
  shows "ring_dist s n i \<le> ring_dist s n j"
proof -
  from assms(2) obtain d where d: "d < n" "ring_order s n ! d = i"
      and least: "\<forall>e < d. \<not> P (ring_order s n ! e)"
    by (auto simp: find_Some_iff)
  have "i = (s + Suc d) mod n" using d by (simp add: nth_ring_order)
  then have "ring_dist s n i = d" using ring_dist_nth [OF assms(1) d(1)] by simp
  moreover have "\<not> ring_dist s n j < d"
    using least nth_ring_dist [OF assms(1,3)] assms(4) by metis
  ultimately show ?thesis by simp
qed

section \<open>The search contract\<close>

locale ring_search =
  fixes search :: "'s \<Rightarrow> nat option"
    and start :: "'s \<Rightarrow> nat"
    and size_of :: "'s \<Rightarrow> nat"
    and eligible :: "'s \<Rightarrow> nat \<Rightarrow> bool"
    and valid :: "'s \<Rightarrow> bool"
  assumes start_less: "valid s \<Longrightarrow> start s < size_of s"
    and search_eq: "valid s \<Longrightarrow>
      search s = find (\<lambda>i. i \<noteq> 0 \<and> eligible s i) (ring_order (start s) (size_of s))"
begin

lemma found:
  assumes "valid s" "search s = Some i"
  shows "0 < i \<and> i < size_of s \<and> eligible s i"
proof -
  from assms have "find (\<lambda>i. i \<noteq> 0 \<and> eligible s i) (ring_order (start s) (size_of s)) = Some i"
    by (simp add: search_eq)
  then have "i \<noteq> 0 \<and> eligible s i \<and> i \<in> set (ring_order (start s) (size_of s))"
    by (auto simp: find_Some_iff)
  then show ?thesis using set_ring_order [OF start_less [OF assms(1)]] by auto
qed

lemma not_found_iff:
  assumes "valid s"
  shows "search s = None \<longleftrightarrow> (\<forall>i. 0 < i \<and> i < size_of s \<longrightarrow> \<not> eligible s i)"
  using set_ring_order [OF start_less [OF assms]]
  by (auto simp: search_eq [OF assms] find_None_iff)

lemma found_if_eligible:
  assumes "valid s" "eligible s i" "0 < i" "i < size_of s"
  obtains j where "search s = Some j"
  using not_found_iff [OF assms(1)] assms by (cases "search s") auto

lemma nearest:
  assumes "valid s" "search s = Some i" "eligible s j" "0 < j" "j < size_of s"
  shows "ring_dist (start s) (size_of s) i \<le> ring_dist (start s) (size_of s) j"
proof (rule find_ring_order_nearest)
  show "find (\<lambda>i. i \<noteq> 0 \<and> eligible s i) (ring_order (start s) (size_of s)) = Some i"
    using assms(2) by (simp only: search_eq [OF assms(1)])
qed (use assms start_less in auto)

end

text \<open>
  A rotation: the search is repeated, and the identifier it finds is where the next
  search starts.
\<close>

locale ring_rotation = ring_search +
  fixes moved :: "'a \<Rightarrow> 'a \<Rightarrow> bool"
  assumes moved_start: "valid s \<Longrightarrow> search s = Some i \<Longrightarrow> moved s s' \<Longrightarrow> start s' = i"
begin

text \<open>An eligible identifier gets closer with every search that finds another one.\<close>

lemma closer:
  assumes "valid s" "search s = Some i" "eligible s j" "0 < j" "j < size_of s" "i \<noteq> j" "moved s s'"
  shows "ring_dist (start s') (size_of s) j < ring_dist (start s) (size_of s) j"
proof -
  have i: "i < size_of s" using found [OF assms(1,2)] by simp
  note st = start_less [OF assms(1)]
  have "ring_dist (start s) (size_of s) i \<noteq> ring_dist (start s) (size_of s) j"
    using assms(6) nth_ring_dist [OF st] i assms(5) by metis
  then have "ring_dist (start s) (size_of s) i < ring_dist (start s) (size_of s) j"
    using nearest [OF assms(1-5)] by simp
  then show ?thesis
    using ring_dist_advance [OF st i assms(5)] moved_start [OF assms(1,2,7)] by simp
qed

text \<open>So an identifier that stays eligible is found within \<open>size\<close> searches.\<close>

lemma bounded_wait:
  assumes valid: "\<And>k. k < n \<Longrightarrow> valid (f k)"
    and sized: "\<And>k. k < n \<Longrightarrow> size_of (f k) = n"
    and moves: "\<And>k. Suc k < n \<Longrightarrow> moved (f k) (f (Suc k))"
    and stays: "\<And>k. k < n \<Longrightarrow> (\<forall>l < k. search (f l) \<noteq> Some j) \<Longrightarrow> eligible (f k) j"
    and j: "0 < j" "j < n"
  shows "\<exists>k < n. search (f k) = Some j"
proof (rule ccontr)
  assume "\<not> ?thesis"
  then have never: "\<forall>l < n. search (f l) \<noteq> Some j" by auto
  have dist: "ring_dist (start (f k)) n j + k < n" if "k < n" for k
    using that
  proof (induction k)
    case 0
    then show ?case using start_less [OF valid [of 0]] sized [of 0] j by (simp add: ring_dist_less)
  next
    case (Suc k)
    then have k: "k < n" by simp
    note v = valid [OF k] and sz = sized [OF k]
    have el: "eligible (f k) j" using stays [OF k] never k by auto
    obtain i where i: "search (f k) = Some i"
      using found_if_eligible [OF v el j(1)] sz j(2) by auto
    then have "i \<noteq> j" using never k by auto
    have "ring_dist (start (f (Suc k))) n j < ring_dist (start (f k)) n j"
      using closer [OF v i el j(1) _ \<open>i \<noteq> j\<close> moves [OF Suc.prems]] sz j(2) by simp
    then show ?case using Suc.IH [OF k] by simp
  qed
  obtain m where m: "n = Suc m" using j by (cases n) auto
  then have k: "m < n" by simp
  note v = valid [OF k] and sz = sized [OF k]
  have el: "eligible (f m) j" using stays [OF k] never m by auto
  obtain i where i: "search (f m) = Some i"
    using found_if_eligible [OF v el j(1)] sz j(2) by auto
  have "ring_dist (start (f m)) n j = 0" using dist [OF k] m by simp
  then have "ring_dist (start (f m)) n i = ring_dist (start (f m)) n j"
    using nearest [OF v i el j(1)] sz j(2) by simp
  moreover have "start (f m) < n" "i < n"
    using start_less [OF v] found [OF v i] sz by simp_all
  ultimately have "i = j" using nth_ring_dist j(2) by metis
  with i never m show False by auto
qed

end

end
