(* ===== verification/Scheduler.thy ===== *)
theory Scheduler
  imports Systick Ring_Search
begin

text \<open>
  The scheduler (\<open>kernel/task_scheduler.c\<close>, \<open>kernel/task_scheduler.h\<close>): its static
  variables, every operation of the file, and the invariant \<open>sched_wf\<close>. The selection loop
  of \<open>os_schedule_next\<close> interprets the round-robin search contract.
\<close>

section \<open>State\<close>

abbreviation (input) SCHEDULER_OK :: int where "SCHEDULER_OK \<equiv> 0"
abbreviation (input) SCHEDULER_ERROR_NO_TASK :: int where "SCHEDULER_ERROR_NO_TASK \<equiv> - 1"
abbreviation (input) SCHEDULER_INVALID_TASK_ID :: u32 where "SCHEDULER_INVALID_TASK_ID \<equiv> 0xFFFFFFFF"
abbreviation (input) SCHEDULER_IDLE_TASK_ID :: u32 where "SCHEDULER_IDLE_TASK_ID \<equiv> TASK_IDLE_TASK_ID"
abbreviation (input) SCHEDULER_TIME_SLICE_TICKS :: u32 where "SCHEDULER_TIME_SLICE_TICKS \<equiv> 10"

datatype scheduler_state_t =
    SCHEDULER_STATE_STOPPED
  | SCHEDULER_STATE_INITIALIZED
  | SCHEDULER_STATE_RUNNING

record kernel = machine +
  g_current_task_id :: u32
  g_scheduler_state :: scheduler_state_t
  g_preemption_enabled :: u32
  g_scheduler_tick_count :: u32

section \<open>Operations of task_scheduler.c\<close>

definition scheduler_is_valid_task :: "task_control_block_t option \<Rightarrow> u8" where
  "scheduler_is_valid_task task =
     (case task of None \<Rightarrow> 0
      | Some t \<Rightarrow> if tcb_state t = TASK_STATE_UNUSED then 0 else 1)"

definition scheduler_is_ready_task :: "task_control_block_t option \<Rightarrow> u8" where
  "scheduler_is_ready_task task =
     (case task of None \<Rightarrow> 0
      | Some t \<Rightarrow> if tcb_state t = TASK_STATE_READY then 1 else 0)"

definition scheduler_set_current_task :: "u32 \<Rightarrow> 'a kernel_scheme \<Rightarrow> int \<times> 'a kernel_scheme" where
  "scheduler_set_current_task task_id k =
     (case task_set_state task_id TASK_STATE_RUNNING k of (status, k1) \<Rightarrow>
       if status \<noteq> TASK_OK then (status, k1)
       else (SCHEDULER_OK, k1\<lparr>g_current_task_id := task_id\<rparr>))"

definition os_scheduler_init :: "'a kernel_scheme \<Rightarrow> 'a kernel_scheme" where
  "os_scheduler_init k =
     k\<lparr>g_current_task_id := SCHEDULER_IDLE_TASK_ID,
       g_scheduler_state := SCHEDULER_STATE_INITIALIZED,
       g_preemption_enabled := 0, g_scheduler_tick_count := 0\<rparr>"

definition os_get_current_task :: "'a kernel_scheme \<Rightarrow> task_control_block_t option" where
  "os_get_current_task k =
     (if g_current_task_id k = SCHEDULER_INVALID_TASK_ID then None
      else task_get_by_id (g_current_task_id k) k)"

definition os_get_current_task_id :: "'a kernel_scheme \<Rightarrow> u32" where
  "os_get_current_task_id k = g_current_task_id k"

definition os_scheduler_get_state :: "'a kernel_scheme \<Rightarrow> scheduler_state_t" where
  "os_scheduler_get_state k = g_scheduler_state k"

text \<open>
  The selection loop, over the remaining offsets \<open>1 \<dots> task_count\<close>. The result is the
  \<open>return\<close> of the loop body, or \<open>None\<close> when the loop runs to its end.
\<close>

fun schedule_loop ::
  "nat list \<Rightarrow> u32 \<Rightarrow> 'a kernel_scheme \<Rightarrow> task_control_block_t option option \<times> 'a kernel_scheme"
where
  "schedule_loop [] task_count k = (None, k)"
| "schedule_loop (offset # offsets) task_count k =
     (let candidate_id = (g_current_task_id k + of_nat offset) mod task_count in
      if candidate_id = SCHEDULER_IDLE_TASK_ID then schedule_loop offsets task_count k
      else if scheduler_is_ready_task (task_get_by_id candidate_id k) \<noteq> 0 then
        case scheduler_set_current_task candidate_id k of (status, k1) \<Rightarrow>
          if status = SCHEDULER_OK then (Some (task_get_by_id candidate_id k1), k1)
          else schedule_loop offsets task_count k1
      else schedule_loop offsets task_count k)"

text \<open>The first part of \<open>os_schedule_next\<close>: a RUNNING current task becomes READY again.\<close>

definition requeue_current :: "'a kernel_scheme \<Rightarrow> 'a kernel_scheme" where
  "requeue_current k =
     (case os_get_current_task k of
        None \<Rightarrow> k
      | Some current_task \<Rightarrow>
          if tcb_state current_task = TASK_STATE_RUNNING
          then snd (task_set_state (tcb_id current_task) TASK_STATE_READY k) else k)"

definition os_schedule_next :: "'a kernel_scheme \<Rightarrow> task_control_block_t option \<times> 'a kernel_scheme" where
  "os_schedule_next k =
     (let task_count = task_get_count k in
      if task_count = 0 then (None, k\<lparr>g_current_task_id := SCHEDULER_INVALID_TASK_ID\<rparr>)
      else
        case schedule_loop [1..<Suc (unat task_count)] task_count (requeue_current k) of
          (Some result, k1) \<Rightarrow> (result, k1)
        | (None, k1) \<Rightarrow>
            if scheduler_is_valid_task (task_get_by_id SCHEDULER_IDLE_TASK_ID k1) \<noteq> 0 then
              case scheduler_set_current_task SCHEDULER_IDLE_TASK_ID k1 of (status, k2) \<Rightarrow>
                if status = SCHEDULER_OK
                then (task_get_by_id SCHEDULER_IDLE_TASK_ID k2, k2)
                else (None, k2\<lparr>g_current_task_id := SCHEDULER_INVALID_TASK_ID\<rparr>)
            else (None, k1\<lparr>g_current_task_id := SCHEDULER_INVALID_TASK_ID\<rparr>))"

definition os_scheduler_start :: "'a kernel_scheme \<Rightarrow> int \<times> 'a kernel_scheme" where
  "os_scheduler_start k =
     (let k1 = (if g_scheduler_state k = SCHEDULER_STATE_STOPPED then os_scheduler_init k else k);
          k2 = k1\<lparr>g_scheduler_state := SCHEDULER_STATE_RUNNING\<rparr>
      in case os_schedule_next k2 of
           (None, k3) \<Rightarrow> (SCHEDULER_ERROR_NO_TASK, k3)
         | (Some _, k3) \<Rightarrow> (SCHEDULER_OK, k3))"

definition os_yield :: "'a kernel_scheme \<Rightarrow> 'a kernel_scheme" where
  "os_yield k =
     (if g_scheduler_state k \<noteq> SCHEDULER_STATE_RUNNING then k
      else if os_context_switch_is_started k = 0 then k
      else os_trigger_context_switch k)"

text \<open>
  \<open>os_sleep\<close> reads the tick counter before it masks the interrupts, so timer interrupts, and
  context switches to other tasks and back, can fall in between. Hence two parts: the entry,
  which returns or goes on with the caller's id and the wakeup tick it has computed, and the
  critical section. \<open>irq\<close> is what interrupts do between two polls when the entry falls back to
  the busy-wait; \<open>None\<close> is a busy-wait that never ends.
\<close>

definition os_sleep_entry ::
  "(nat \<Rightarrow> 'a kernel_scheme \<Rightarrow> 'a kernel_scheme) \<Rightarrow> u32 \<Rightarrow> 'a kernel_scheme \<Rightarrow>
   ((u32 \<times> u32) option \<times> 'a kernel_scheme) option"
where
  "os_sleep_entry irq milliseconds k =
     (if milliseconds = 0 then Some (None, os_yield k)
      else if g_scheduler_state k \<noteq> SCHEDULER_STATE_RUNNING \<or> os_context_switch_is_started k = 0
      then map_option (Pair None) (os_delay_ms irq milliseconds k)
      else
        let current_task_id = os_get_current_task_id k in
        if current_task_id = SCHEDULER_INVALID_TASK_ID \<or> current_task_id = SCHEDULER_IDLE_TASK_ID
        then Some (None, k)
        else let wakeup_tick = os_get_ticks k + milliseconds in Some (Some (current_task_id, wakeup_tick), k))"

definition os_sleep_critical :: "u32 \<Rightarrow> u32 \<Rightarrow> 'a kernel_scheme \<Rightarrow> 'a kernel_scheme" where
  "os_sleep_critical current_task_id wakeup_tick k =
     (let (irq_state, k1) = os_irq_save k;
          (task_status, k2) = task_sleep_until current_task_id wakeup_tick k1;
          k3 = (if task_status = TASK_OK
                then os_trigger_context_switch (k2\<lparr>g_scheduler_tick_count := 0\<rparr>) else k2)
      in os_irq_restore irq_state k3)"

text \<open>The whole call; \<open>gap\<close> is what happens between its two parts.\<close>

definition os_sleep ::
  "(nat \<Rightarrow> 'a kernel_scheme \<Rightarrow> 'a kernel_scheme) \<Rightarrow> ('a kernel_scheme \<Rightarrow> 'a kernel_scheme) \<Rightarrow>
   u32 \<Rightarrow> 'a kernel_scheme \<Rightarrow> 'a kernel_scheme option"
where
  "os_sleep irq gap milliseconds k =
     (case os_sleep_entry irq milliseconds k of
        None \<Rightarrow> None
      | Some (None, k1) \<Rightarrow> Some k1
      | Some (Some (current_task_id, wakeup_tick), k1) \<Rightarrow>
          Some (os_sleep_critical current_task_id wakeup_tick (gap k1)))"

definition os_scheduler_enable_preemption :: "'a kernel_scheme \<Rightarrow> 'a kernel_scheme" where
  "os_scheduler_enable_preemption k = k\<lparr>g_scheduler_tick_count := 0, g_preemption_enabled := 1\<rparr>"

definition os_scheduler_disable_preemption :: "'a kernel_scheme \<Rightarrow> 'a kernel_scheme" where
  "os_scheduler_disable_preemption k = k\<lparr>g_preemption_enabled := 0, g_scheduler_tick_count := 0\<rparr>"

definition os_scheduler_is_preemption_enabled :: "'a kernel_scheme \<Rightarrow> u32" where
  "os_scheduler_is_preemption_enabled k = g_preemption_enabled k"

definition os_scheduler_tick :: "'a kernel_scheme \<Rightarrow> 'a kernel_scheme" where
  "os_scheduler_tick k =
     (if g_scheduler_state k \<noteq> SCHEDULER_STATE_RUNNING then k
      else
        case task_wake_expired_sleeping_tasks (os_get_ticks k) k of (woken_task_count, k1) \<Rightarrow>
        if os_context_switch_is_started k1 = 0 then k1
        else if woken_task_count > 0 \<and> g_current_task_id k1 = SCHEDULER_IDLE_TASK_ID
        then os_trigger_context_switch (k1\<lparr>g_scheduler_tick_count := 0\<rparr>)
        else if g_preemption_enabled k1 = 0 then k1
        else
          let k2 = k1\<lparr>g_scheduler_tick_count := g_scheduler_tick_count k1 + 1\<rparr> in
          if g_scheduler_tick_count k2 \<ge> SCHEDULER_TIME_SLICE_TICKS
          then os_trigger_context_switch (k2\<lparr>g_scheduler_tick_count := 0\<rparr>)
          else k2)"

lemma update_task_kernel [simp]:
  "g_current_task_id (update_task i f k) = g_current_task_id k"
  "g_scheduler_state (update_task i f k) = g_scheduler_state k"
  "g_preemption_enabled (update_task i f k) = g_preemption_enabled k"
  "g_scheduler_tick_count (update_task i f k) = g_scheduler_tick_count k"
  by (simp_all add: update_task_def)

end
