(* ===== verification/Scheduler_Lemmas.thy ===== *)
theory Scheduler_Lemmas
  imports Scheduler
begin

text \<open>
  Lemmas on the scheduler: the invariant \<open>sched_wf\<close>, the closed form of
  \<open>os_schedule_next\<close> (requeue the running task, find the first ready application task in
  ring order, dispatch it, or idle), the interpretation of the round-robin search contract
  and the preservation of the invariant by every operation of the file.
\<close>

section \<open>The invariant\<close>

text \<open>The current identifier is valid and no other task is RUNNING.\<close>

definition sched_wf :: "'a kernel_scheme \<Rightarrow> bool" where
  "sched_wf k \<longleftrightarrow> tasks_wf k \<and> unat (g_current_task_id k) < task_total k \<and>
     (\<forall>i < task_total k. state_of k i = TASK_STATE_RUNNING \<longrightarrow> i = unat (g_current_task_id k))"

abbreviation current_index :: "'a kernel_scheme \<Rightarrow> nat" where
  "current_index k \<equiv> unat (g_current_task_id k)"

lemma sched_wfD:
  assumes "sched_wf k"
  shows "tasks_wf k" "current_index k < task_total k" "task_total k \<le> 8"
    "length (g_task_table k) = 8" "current_index k < 8"
    "i < task_total k \<Longrightarrow> state_of k i = TASK_STATE_RUNNING \<Longrightarrow> i = current_index k"
  using assms by (auto simp: sched_wf_def tasks_wf_def table_wf_def)

section \<open>Requeue, search, dispatch\<close>

definition dispatch :: "nat \<Rightarrow> 'a kernel_scheme \<Rightarrow> 'a kernel_scheme" where
  "dispatch i k =
     (update_task i (\<lambda>t. t\<lparr>tcb_state := TASK_STATE_RUNNING\<rparr>) k)\<lparr>g_current_task_id := of_nat i\<rparr>"

definition select_ready :: "'a kernel_scheme \<Rightarrow> nat option" where
  "select_ready k =
     find (\<lambda>i. i \<noteq> 0 \<and> state_of k i = TASK_STATE_READY) (ring_order (current_index k) (task_total k))"

lemma current_valid:
  assumes "sched_wf k"
  shows "os_get_current_task k = Some (task_at k (current_index k))"
proof -
  have "g_current_task_id k \<noteq> SCHEDULER_INVALID_TASK_ID"
    using sched_wfD(5) [OF assms] by (auto simp: u32_eq_iff_unat)
  then show ?thesis
    using sched_wfD(2) [OF assms] by (simp add: os_get_current_task_def task_get_by_id_eq)
qed

lemma current_tcb_id:
  assumes "sched_wf k"
  shows "tcb_id (task_at k (current_index k)) = g_current_task_id k"
  using tasks_wfD(4) [OF sched_wfD(1) [OF assms] sched_wfD(2) [OF assms]]
  by (simp add: tcb_wf_def)

lemma requeue_eq:
  assumes "sched_wf k"
  shows "requeue_current k =
    (if state_of k (current_index k) = TASK_STATE_RUNNING
     then update_task (current_index k) (\<lambda>t. t\<lparr>tcb_state := TASK_STATE_READY\<rparr>) k else k)"
  using sched_wfD(2) [OF assms]
  by (simp add: requeue_current_def current_valid [OF assms] current_tcb_id [OF assms]
      task_set_state_eq)

lemma requeue_wf:
  assumes "sched_wf k"
  shows "sched_wf (requeue_current k)"
proof (cases "state_of k (current_index k) = TASK_STATE_RUNNING")
  case True
  let ?f = "\<lambda>t. t\<lparr>tcb_state := TASK_STATE_READY\<rparr>"
  have "tasks_wf (update_task (current_index k) ?f k)"
    using tasks_wfD(4) [OF sched_wfD(1) [OF assms] sched_wfD(2) [OF assms]] True
    by (intro tasks_wf_update sched_wfD(1,2) [OF assms]) (simp_all add: tcb_wf_def)
  moreover have "\<forall>i < task_total k. state_of (update_task (current_index k) ?f k) i =
      TASK_STATE_RUNNING \<longrightarrow> i = current_index k"
    using assms by (simp add: sched_wf_def nth_update_if)
  ultimately show ?thesis
    using True sched_wfD(2) [OF assms] unfolding requeue_eq [OF assms] by (simp add: sched_wf_def)
next
  case False
  with assms show ?thesis by (simp add: requeue_eq [OF assms])
qed

lemma requeue_frame [frame_simps]:
  assumes "sched_wf k"
  shows "g_task_count (requeue_current k) = g_task_count k"
    "g_current_task_id (requeue_current k) = g_current_task_id k"
    "length (g_task_table (requeue_current k)) = 8"
  using sched_wfD(4) [OF assms] by (simp_all add: requeue_eq [OF assms])

text \<open>After requeueing nothing is RUNNING.\<close>

lemma requeue_state:
  assumes "sched_wf k" "i < task_total k"
  shows "state_of (requeue_current k) i =
    (if state_of k i = TASK_STATE_RUNNING then TASK_STATE_READY else state_of k i)"
proof (cases "i = current_index k")
  case True
  with assms(2) sched_wfD(4,5) [OF assms(1)] show ?thesis by (simp add: requeue_eq [OF assms(1)])
next
  case False
  with sched_wfD(6) [OF assms] have "state_of k i \<noteq> TASK_STATE_RUNNING" by auto
  with False show ?thesis by (simp add: requeue_eq [OF assms(1)])
qed

lemma schedule_loop_eq:
  assumes "length (g_task_table k) = 8" "task_total k \<le> 8" "current_index k < task_total k"
    and "\<forall>d \<in> set ds. d \<le> task_total k"
  shows "schedule_loop ds (g_task_count k) k =
    (case find (\<lambda>i. i \<noteq> 0 \<and> state_of k i = TASK_STATE_READY)
            (map (\<lambda>d. (current_index k + d) mod task_total k) ds) of
       None \<Rightarrow> (None, k)
     | Some i \<Rightarrow> (Some (Some (task_at (dispatch i k) i)), dispatch i k))"
  using assms(4)
proof (induction ds)
  case Nil
  then show ?case by simp
next
  case (Cons d ds)
  let ?c = "(g_current_task_id k + of_nat d) mod g_task_count k"
  let ?i = "(current_index k + d) mod task_total k"
  have c: "unat ?c = ?i"
    by (rule candidate_valid) (use assms(2,3) Cons.prems in simp_all)
  have i: "?i < task_total k" using assms(3) by simp
  then have i8: "?i < 8" using assms(2) by simp
  have conv: "of_nat ?i = ?c" unfolding c [symmetric] by simp
  have zero: "?c = 0 \<longleftrightarrow> ?i = 0" unfolding c [symmetric] by (simp add: unat_eq_0)
  have IH: "schedule_loop ds (g_task_count k) k =
    (case find (\<lambda>i. i \<noteq> 0 \<and> state_of k i = TASK_STATE_READY)
            (map (\<lambda>d. (current_index k + d) mod task_total k) ds) of
       None \<Rightarrow> (None, k)
     | Some i \<Rightarrow> (Some (Some (task_at (dispatch i k) i)), dispatch i k))"
    using Cons by simp
  have get: "task_get_by_id ?c k = Some (task_at k ?i)"
    unfolding task_get_by_id_eq c using i by simp
  have set: "scheduler_set_current_task ?c k = (SCHEDULER_OK, dispatch ?i k)"
    unfolding scheduler_set_current_task_def task_set_state_eq c dispatch_def conv using i by simp
  have got: "task_get_by_id ?c (dispatch ?i k) = Some (task_at (dispatch ?i k) ?i)"
    unfolding task_get_by_id_eq c using i by (simp add: dispatch_def)
  show ?case
    unfolding schedule_loop.simps Let_def get set zero list.map find.simps IH
    using got by (auto simp: scheduler_is_ready_task_def)
qed

lemma sched_loop_ring:
  assumes "sched_wf k"
  shows "schedule_loop [1..<Suc (task_total k)] (g_task_count k) k =
    (case select_ready k of
       None \<Rightarrow> (None, k)
     | Some i \<Rightarrow> (Some (Some (task_at (dispatch i k) i)), dispatch i k))"
  unfolding select_ready_def ring_order_def
  by (rule schedule_loop_eq) (use sched_wfD [OF assms] in auto)

text \<open>The closed form of \<open>os_schedule_next\<close>.\<close>

definition chosen :: "'a kernel_scheme \<Rightarrow> nat" where
  "chosen k = (case select_ready (requeue_current k) of None \<Rightarrow> 0 | Some i \<Rightarrow> i)"

lemma os_schedule_next_eq:
  assumes "sched_wf k"
  shows "os_schedule_next k =
    (Some (task_at (dispatch (chosen k) (requeue_current k)) (chosen k)),
     dispatch (chosen k) (requeue_current k))"
proof -
  let ?k = "requeue_current k"
  have wf: "sched_wf ?k" by (rule requeue_wf [OF assms])
  have count: "g_task_count ?k = g_task_count k" by (rule requeue_frame(1) [OF assms])
  have pos: "0 < task_total ?k" "task_total ?k \<le> 8" using sched_wfD(2,3) [OF wf] by simp_all
  then have nz: "g_task_count k \<noteq> 0" by (auto simp: count)
  have loop: "schedule_loop [1..<Suc (task_total k)] (g_task_count k) ?k =
    (case select_ready ?k of
       None \<Rightarrow> (None, ?k)
     | Some i \<Rightarrow> (Some (Some (task_at (dispatch i ?k) i)), dispatch i ?k))"
    using sched_loop_ring [OF wf] by (simp only: count)
  have idle: "task_get_by_id 0 ?k = Some (task_at ?k 0)"
    using pos by (simp add: task_get_by_id_eq)
  have valid: "scheduler_is_valid_task (Some (task_at ?k 0)) \<noteq> 0"
    using tasks_wfD(6) [OF sched_wfD(1) [OF wf]] by (auto simp: scheduler_is_valid_task_def)
  have set: "scheduler_set_current_task 0 ?k = (SCHEDULER_OK, dispatch 0 ?k)"
    using pos by (simp add: scheduler_set_current_task_def task_set_state_eq dispatch_def)
  have got: "task_get_by_id 0 (dispatch 0 ?k) = Some (task_at (dispatch 0 ?k) 0)"
    using pos by (simp add: task_get_by_id_eq dispatch_def)
  show ?thesis
    unfolding os_schedule_next_def Let_def task_get_count_def loop chosen_def
    using nz idle valid set got by (cases "select_ready ?k") simp_all
qed

section \<open>Preservation of the invariant\<close>

text \<open>The invariant reads the task table, the task count and the current identifier only.\<close>

lemma tasks_wf_cong:
  "g_task_table k' = g_task_table k \<Longrightarrow> g_task_count k' = g_task_count k \<Longrightarrow>
    tasks_wf k' = tasks_wf k"
  by (simp add: tasks_wf_def table_wf_def)

lemma sched_wf_cong:
  "g_task_table k' = g_task_table k \<Longrightarrow> g_task_count k' = g_task_count k \<Longrightarrow>
    g_current_task_id k' = g_current_task_id k \<Longrightarrow> sched_wf k' = sched_wf k"
  by (simp add: sched_wf_def tasks_wf_cong [of k' k])

lemma sched_wf_irrelevant [simp]:
  "sched_wf (k\<lparr>task_memory := mem\<rparr>) = sched_wf k"
  "sched_wf (k\<lparr>cpu_primask := v\<rparr>) = sched_wf k"
  "sched_wf (k\<lparr>cpu_control := v\<rparr>) = sched_wf k"
  "sched_wf (k\<lparr>cpu_psp := v\<rparr>) = sched_wf k"
  "sched_wf (k\<lparr>cpu_r4_r11 := regs\<rparr>) = sched_wf k"
  "sched_wf (k\<lparr>pendsv_pending := b\<rparr>) = sched_wf k"
  "sched_wf (k\<lparr>g_context_switch_started := v\<rparr>) = sched_wf k"
  "sched_wf (k\<lparr>g_os_ticks := v\<rparr>) = sched_wf k"
  "sched_wf (k\<lparr>g_scheduler_state := st\<rparr>) = sched_wf k"
  "sched_wf (k\<lparr>g_preemption_enabled := v\<rparr>) = sched_wf k"
  "sched_wf (k\<lparr>g_scheduler_tick_count := v\<rparr>) = sched_wf k"
  by (rule sched_wf_cong; simp)+

lemma sched_wf_update:
  assumes "sched_wf k" "i < task_total k" "tcb_wf i (f (task_at k i))"
    and "i = 0 \<Longrightarrow> tcb_state (f (task_at k 0)) = TASK_STATE_READY \<or>
                  tcb_state (f (task_at k 0)) = TASK_STATE_RUNNING"
    and "tcb_state (f (task_at k i)) = TASK_STATE_RUNNING \<Longrightarrow> i = current_index k"
  shows "sched_wf (update_task i f k)"
proof -
  have "tasks_wf (update_task i f k)"
    by (rule tasks_wf_update) (use assms sched_wfD(1) in auto)
  then show ?thesis
    using assms by (auto simp: sched_wf_def nth_update_if)
qed

lemma dispatch_simps [simp]:
  "g_task_count (dispatch i k) = g_task_count k"
  "g_current_task_id (dispatch i k) = of_nat i"
  "task_memory (dispatch i k) = task_memory k"
  "cpu_primask (dispatch i k) = cpu_primask k"
  "cpu_ipsr (dispatch i k) = cpu_ipsr k"
  "pendsv_pending (dispatch i k) = pendsv_pending k"
  "g_context_switch_started (dispatch i k) = g_context_switch_started k"
  "g_os_ticks (dispatch i k) = g_os_ticks k"
  "g_scheduler_state (dispatch i k) = g_scheduler_state k"
  "g_preemption_enabled (dispatch i k) = g_preemption_enabled k"
  "g_scheduler_tick_count (dispatch i k) = g_scheduler_tick_count k"
  by (simp_all add: dispatch_def)

lemma dispatch_table:
  "g_task_table (dispatch i k) =
    (g_task_table k)[i := (task_at k i)\<lparr>tcb_state := TASK_STATE_RUNNING\<rparr>]"
  by (simp add: dispatch_def)

lemma requeue_simps [simp]:
  "task_memory (requeue_current k) = task_memory k"
  "cpu_primask (requeue_current k) = cpu_primask k"
  "cpu_ipsr (requeue_current k) = cpu_ipsr k"
  "pendsv_pending (requeue_current k) = pendsv_pending k"
  "g_context_switch_started (requeue_current k) = g_context_switch_started k"
  "g_os_ticks (requeue_current k) = g_os_ticks k"
  "g_scheduler_state (requeue_current k) = g_scheduler_state k"
  "g_preemption_enabled (requeue_current k) = g_preemption_enabled k"
  "g_scheduler_tick_count (requeue_current k) = g_scheduler_tick_count k"
  by (simp_all add: requeue_current_def task_set_state_eq split: option.split)

text \<open>The search contract, on the scheduler's selection.\<close>

definition selected :: "'a kernel_scheme \<Rightarrow> nat option" where
  "selected k =
     (let i = current_index (snd (os_schedule_next k)) in if i = 0 then None else Some i)"

definition runnable :: "'a kernel_scheme \<Rightarrow> nat \<Rightarrow> bool" where
  "runnable k i \<longleftrightarrow> state_of k i = TASK_STATE_READY \<or> state_of k i = TASK_STATE_RUNNING"

lemma select_requeued:
  assumes "sched_wf k"
  shows "select_ready (requeue_current k) =
    find (\<lambda>i. i \<noteq> 0 \<and> runnable k i) (ring_order (current_index k) (task_total k))"
  unfolding select_ready_def requeue_frame [OF assms]
proof (rule find_cong_set)
  fix i assume "i \<in> set (ring_order (current_index k) (task_total k))"
  then have "i < task_total k" using set_ring_order [OF sched_wfD(2) [OF assms]] by simp
  then show "(i \<noteq> 0 \<and> state_of (requeue_current k) i = TASK_STATE_READY) = (i \<noteq> 0 \<and> runnable k i)"
    using requeue_state [OF assms] by (auto simp: runnable_def)
qed

lemma find_range: "find P (ring_order s n) = Some i \<Longrightarrow> s < n \<Longrightarrow> P i \<and> i < n"
  using set_ring_order [of s n] by (auto simp: find_Some_iff)

lemma chosen_less:
  assumes "sched_wf k"
  shows "chosen k < task_total k"
  using find_range [of _ "current_index k" "task_total k"] sched_wfD(2) [OF assms]
  by (auto simp: chosen_def select_requeued [OF assms] split: option.split)

lemma selected_eq:
  assumes "sched_wf k"
  shows "selected k = find (\<lambda>i. i \<noteq> 0 \<and> runnable k i) (ring_order (current_index k) (task_total k))"
proof -
  have "chosen k < 8" using chosen_less [OF assms] sched_wfD(3) [OF assms] by simp
  then have "current_index (snd (os_schedule_next k)) = chosen k"
    by (simp add: os_schedule_next_eq [OF assms])
  moreover have "select_ready (requeue_current k) \<noteq> Some 0"
    using find_range [of _ "current_index k" "task_total k" 0] sched_wfD(2) [OF assms]
    by (auto simp: select_requeued [OF assms])
  ultimately show ?thesis
    by (auto simp: selected_def chosen_def select_requeued [OF assms] split: option.splits)
qed

interpretation sched_ring: ring_rotation selected current_index task_total runnable sched_wf
  "\<lambda>k k'. g_current_task_id k' = g_current_task_id (snd (os_schedule_next k))"
proof unfold_locales
  fix k :: "'a kernel_scheme"
  assume wf: "sched_wf k"
  show "current_index k < task_total k" by (rule sched_wfD(2) [OF wf])
  show "selected k = find (\<lambda>i. i \<noteq> 0 \<and> runnable k i) (ring_order (current_index k) (task_total k))"
    by (rule selected_eq [OF wf])
next
  fix k k' :: "'a kernel_scheme" and i
  assume "sched_wf k" "selected k = Some i"
    and "g_current_task_id k' = g_current_task_id (snd (os_schedule_next k))"
  then show "current_index k' = i"
    by (auto simp: selected_def Let_def split: if_splits)
qed

section \<open>The effect of rescheduling\<close>

lemma chosen_runnable:
  assumes "sched_wf k"
  shows "runnable k (chosen k)"
proof (cases "select_ready (requeue_current k)")
  case None
  then show ?thesis
    using tasks_wfD(6) [OF sched_wfD(1) [OF assms]] by (simp add: chosen_def runnable_def)
next
  case (Some i)
  then show ?thesis
    using find_range [where P = "\<lambda>i. i \<noteq> 0 \<and> runnable k i" and i = i] sched_wfD(2) [OF assms]
    by (auto simp: chosen_def select_requeued [OF assms])
qed

lemma schedule_next_frame:
  assumes "sched_wf k"
  shows "g_task_count (snd (os_schedule_next k)) = g_task_count k"
    "current_index (snd (os_schedule_next k)) = chosen k"
    "length (g_task_table (snd (os_schedule_next k))) = 8"
proof -
  have "chosen k < 8" using chosen_less [OF assms] sched_wfD(3) [OF assms] by simp
  then show "current_index (snd (os_schedule_next k)) = chosen k"
    by (simp add: os_schedule_next_eq [OF assms])
  show "g_task_count (snd (os_schedule_next k)) = g_task_count k"
    "length (g_task_table (snd (os_schedule_next k))) = 8"
    by (simp_all add: os_schedule_next_eq [OF assms] dispatch_table requeue_frame [OF assms])
qed

lemma schedule_next_state:
  assumes "sched_wf k" "i < task_total k"
  shows "state_of (snd (os_schedule_next k)) i =
    (if i = chosen k then TASK_STATE_RUNNING
     else if state_of k i = TASK_STATE_RUNNING then TASK_STATE_READY else state_of k i)"
proof -
  have "chosen k < 8" using chosen_less [OF assms(1)] sched_wfD(3) [OF assms(1)] by simp
  then show ?thesis
    using requeue_state [OF assms] requeue_frame(3) [OF assms(1)]
    by (simp add: os_schedule_next_eq [OF assms(1)] dispatch_table nth_update_if)
qed

text \<open>Only states change: every other field of every entry is kept.\<close>

lemma schedule_next_fields:
  assumes "sched_wf k"
  shows "task_at (snd (os_schedule_next k)) i =
    (task_at k i)\<lparr>tcb_state := state_of (snd (os_schedule_next k)) i\<rparr>"
  by (simp add: os_schedule_next_eq [OF assms] dispatch_table requeue_eq [OF assms] nth_update_if)

lemma schedule_next_returns:
  assumes "sched_wf k"
  shows "fst (os_schedule_next k) =
    Some (task_at (snd (os_schedule_next k)) (current_index (snd (os_schedule_next k))))"
proof -
  have "chosen k < 8" using chosen_less [OF assms] sched_wfD(3) [OF assms] by simp
  then show ?thesis by (simp add: os_schedule_next_eq [OF assms])
qed

lemma schedule_next_wf:
  assumes "sched_wf k"
  shows "sched_wf (snd (os_schedule_next k))"
proof -
  have wf: "sched_wf (requeue_current k)" by (rule requeue_wf [OF assms])
  let ?k = "requeue_current k" and ?i = "chosen k"
  have i: "?i < task_total ?k" "?i < 8"
    using chosen_less [OF assms] requeue_frame(1) [OF assms] sched_wfD(3) [OF assms] by simp_all
  have ready: "state_of ?k ?i = TASK_STATE_READY"
    using chosen_runnable [OF assms] requeue_state [OF assms chosen_less [OF assms]]
    by (auto simp: runnable_def)
  have "tasks_wf (update_task ?i (\<lambda>t. t\<lparr>tcb_state := TASK_STATE_RUNNING\<rparr>) ?k)"
    by (rule tasks_wf_update [OF sched_wfD(1) [OF wf] i(1)])
      (use tasks_wfD(4) [OF sched_wfD(1) [OF wf] i(1)] ready in \<open>simp_all add: tcb_wf_def\<close>)
  then have "tasks_wf (snd (os_schedule_next k))"
    unfolding os_schedule_next_eq [OF assms] dispatch_def
    by (simp add: tasks_wf_def table_wf_def)
  moreover have "\<forall>i < task_total k. state_of (snd (os_schedule_next k)) i = TASK_STATE_RUNNING \<longrightarrow>
      i = chosen k"
    using schedule_next_state [OF assms] by auto
  ultimately show ?thesis
    using schedule_next_frame [OF assms] chosen_less [OF assms]
    by (simp add: sched_wf_def)
qed

lemma schedule_next_simps:
  assumes "sched_wf k"
  shows "task_memory (snd (os_schedule_next k)) = task_memory k"
    "cpu_primask (snd (os_schedule_next k)) = cpu_primask k"
    "cpu_ipsr (snd (os_schedule_next k)) = cpu_ipsr k"
    "pendsv_pending (snd (os_schedule_next k)) = pendsv_pending k"
    "g_context_switch_started (snd (os_schedule_next k)) = g_context_switch_started k"
    "g_os_ticks (snd (os_schedule_next k)) = g_os_ticks k"
    "g_scheduler_state (snd (os_schedule_next k)) = g_scheduler_state k"
    "g_preemption_enabled (snd (os_schedule_next k)) = g_preemption_enabled k"
    "g_scheduler_tick_count (snd (os_schedule_next k)) = g_scheduler_tick_count k"
  by (simp_all add: os_schedule_next_eq [OF assms])

section \<open>The tick\<close>

lemma wake_expired_sched_wf:
  assumes "sched_wf k"
  shows "sched_wf (snd (task_wake_expired_sleeping_tasks now k))"
proof -
  have "tasks_wf (snd (task_wake_expired_sleeping_tasks now k))"
    by (rule task_wake_expired_wf [OF sched_wfD(1) [OF assms]])
  moreover have "i < task_total k \<Longrightarrow> tcb_state (woken now (task_at k i)) = TASK_STATE_RUNNING \<Longrightarrow>
      i = current_index k" for i
    using sched_wfD(6) [OF assms, of i] by (auto simp: woken_def split: if_splits)
  ultimately show ?thesis
    using assms sched_wfD(3,4) [OF assms]
    by (simp add: sched_wf_def task_wake_expired_eq [OF sched_wfD(1) [OF assms]])
qed

text \<open>The tick has woken somebody exactly if a sleep has expired.\<close>

lemma wake_count_pos:
  assumes "tasks_wf k"
  shows "fst (task_wake_expired_sleeping_tasks now k) > 0 \<longleftrightarrow>
    (\<exists>i < task_total k. wakes_at now (task_at k i))"
proof -
  let ?ys = "filter (wakes_at now) (take (task_total k) (g_task_table k))"
  have le: "task_total k \<le> length (g_task_table k)" "length (g_task_table k) = 8"
    using assms by (simp_all add: tasks_wf_def table_wf_def)
  have "length ?ys \<le> 8"
    using length_filter_le [of "wakes_at now" "take (task_total k) (g_task_table k)"] le by simp
  then have "(of_nat (length ?ys) :: u32) > 0 \<longleftrightarrow> ?ys \<noteq> []"
    by (auto simp: u32_less_unat)
  also have "\<dots> \<longleftrightarrow> (\<exists>i < task_total k. wakes_at now (task_at k i))"
    using nth_image [OF le(1), symmetric] by (auto simp: filter_empty_conv)
  finally show ?thesis by (simp add: task_wake_expired_eq [OF assms])
qed

end
