(* ===== verification/Interrupts.thy ===== *)
theory Interrupts
  imports Scheduler_Lemmas
begin

text \<open>
  The exception handlers: \<open>systick_handler\<close> (\<open>drivers/systick.c\<close>), the part of
  \<open>kernel/context_switch.c\<close> that links the handlers to the scheduler, and \<open>SVC_Handler\<close>
  and \<open>PendSV_Handler\<close> of \<open>kernel/context_switch_asm.asm\<close>. The step relation
  \<open>kernel_step\<close> interleaves them with the scheduler calls of the running task.

  The eight words that the hardware stacks on exception entry are already on the process
  stack when a handler starts; entering PendSV clears its pending bit. Each handler is one
  step, PendSV too, although SysTick has the higher priority and can interrupt it. An endless
  fault loop of a handler is the result \<open>None\<close>.
\<close>

section \<open>Handlers\<close>

definition systick_handler :: "'a kernel_scheme \<Rightarrow> 'a kernel_scheme" where
  "systick_handler k = os_scheduler_tick (systick_tick k)"

definition os_save_current_task_stack_pointer :: "u32 \<Rightarrow> 'a kernel_scheme \<Rightarrow> 'a kernel_scheme" where
  "os_save_current_task_stack_pointer stack_pointer k =
     (let current_task_id = os_get_current_task_id k in
      if current_task_id = SCHEDULER_INVALID_TASK_ID then k
      else snd (task_set_stack_pointer current_task_id stack_pointer k))"

definition os_get_current_task_stack_pointer_internal :: "'a kernel_scheme \<Rightarrow> u32" where
  "os_get_current_task_stack_pointer_internal k =
     (case os_get_current_task k of None \<Rightarrow> 0 | Some current_task \<Rightarrow> tcb_stack_pointer current_task)"

definition os_schedule_next_stack_pointer :: "'a kernel_scheme \<Rightarrow> u32 \<times> 'a kernel_scheme" where
  "os_schedule_next_stack_pointer k =
     (case os_schedule_next k of
        (None, k1) \<Rightarrow> (0, k1)
      | (Some next_task, k1) \<Rightarrow> (tcb_stack_pointer next_task, k1))"

text \<open>\<open>LDMIA R0!, {R4-R11}\<close> and \<open>STMDB R0!, {R4-R11}\<close>: the lowest register at the lowest address.\<close>

definition ldmia_r4_r11 :: "u32 \<Rightarrow> 'a machine_scheme \<Rightarrow> u32 \<times> 'a machine_scheme" where
  "ldmia_r4_r11 r0 m = (r0 + 32, m\<lparr>cpu_r4_r11 := read_words (task_memory m) r0 8\<rparr>)"

definition stmdb_r4_r11 :: "u32 \<Rightarrow> 'a machine_scheme \<Rightarrow> u32 \<times> 'a machine_scheme" where
  "stmdb_r4_r11 r0 m =
     (case foldl push_word (task_memory m, r0) (rev (cpu_r4_r11 m)) of
        (mem, r0') \<Rightarrow> (r0', m\<lparr>task_memory := mem\<rparr>))"

definition SVC_Handler :: "'a kernel_scheme \<Rightarrow> 'a kernel_scheme option" where
  "SVC_Handler k =
     (let r0 = os_get_current_task_stack_pointer_internal k in
      if r0 = 0 then None
      else
        let (r0, k1) = ldmia_r4_r11 r0 k;
            k2 = k1\<lparr>cpu_psp := r0\<rparr>;
            k3 = k2\<lparr>cpu_control := 2\<rparr>
        in Some (os_context_switch_mark_started k3))"

definition PendSV_Handler :: "'a kernel_scheme \<Rightarrow> 'a kernel_scheme option" where
  "PendSV_Handler k =
     (let k0 = k\<lparr>pendsv_pending := False\<rparr>;
          r0 = cpu_psp k0;
          k1 = (if r0 = 0 then k0
                else case stmdb_r4_r11 r0 k0 of
                       (r0, k0') \<Rightarrow> os_save_current_task_stack_pointer r0 k0')
      in case os_schedule_next_stack_pointer k1 of (r0, k2) \<Rightarrow>
           if r0 = 0 then None
           else case ldmia_r4_r11 r0 k2 of (r0, k3) \<Rightarrow> Some (k3\<lparr>cpu_psp := r0\<rparr>))"

section \<open>Interleaving\<close>

text \<open>
  A task executes in thread mode only while no exception is pending that PRIMASK does not
  mask: a pending PendSV is taken before the next thread instruction.
\<close>

definition thread_active :: "'a kernel_scheme \<Rightarrow> bool" where
  "thread_active k \<longleftrightarrow> cpu_primask k = 0 \<and> cpu_ipsr k = 0 \<and> \<not> pendsv_pending k"

text \<open>
  The second argument is the number of timer ticks that pass with the step. The critical
  section of \<open>os_sleep\<close> is a step of its own, with any wakeup tick: the caller has computed it
  at some earlier moment (its id is still the current one, since it executes again).
  \<open>os_scheduler_enable_preemption\<close> and its counterpart write two variables each, taken as one
  step; a tick between the two writes has the effect of one before or after them.
\<close>

inductive kernel_step :: "'a kernel_scheme \<Rightarrow> nat \<Rightarrow> 'a kernel_scheme \<Rightarrow> bool" where
  systick: "cpu_primask k = 0 \<Longrightarrow> kernel_step k 1 (systick_handler k)"
| pendsv: "cpu_primask k = 0 \<Longrightarrow> pendsv_pending k \<Longrightarrow> PendSV_Handler k = Some k' \<Longrightarrow>
    kernel_step k 0 k'"
| yield: "thread_active k \<Longrightarrow> kernel_step k 0 (os_yield k)"
| sleep: "thread_active k \<Longrightarrow>
    kernel_step k 0 (os_sleep_critical (os_get_current_task_id k) wakeup_tick k)"
| enable: "thread_active k \<Longrightarrow> kernel_step k 0 (os_scheduler_enable_preemption k)"
| disable: "thread_active k \<Longrightarrow> kernel_step k 0 (os_scheduler_disable_preemption k)"
| compute: "thread_active k \<Longrightarrow>
    kernel_step k 0 (k\<lparr>cpu_r4_r11 := regs, cpu_psp := sp, task_memory := mem\<rparr>)"

inductive kernel_run :: "'a kernel_scheme \<Rightarrow> nat \<Rightarrow> 'a kernel_scheme \<Rightarrow> bool" for k0 where
  start: "kernel_run k0 0 k0"
| step: "kernel_run k0 n k \<Longrightarrow> kernel_step k t k' \<Longrightarrow> kernel_run k0 (n + t) k'"

text \<open>
  The invariant of the running kernel: the scheduler runs, the first task has been started,
  the time slice counter is below its limit, and the current task is RUNNING unless a
  context switch is already pending.
\<close>

definition kernel_wf :: "'a kernel_scheme \<Rightarrow> bool" where
  "kernel_wf k \<longleftrightarrow> sched_wf k \<and> g_scheduler_state k = SCHEDULER_STATE_RUNNING \<and>
     g_context_switch_started k \<noteq> 0 \<and> g_scheduler_tick_count k < SCHEDULER_TIME_SLICE_TICKS \<and>
     cpu_primask k = 0 \<and> cpu_ipsr k = 0 \<and>
     (state_of k (current_index k) = TASK_STATE_RUNNING \<or> pendsv_pending k)"

lemma kernel_wfD:
  assumes "kernel_wf k"
  shows "sched_wf k" "g_scheduler_state k = SCHEDULER_STATE_RUNNING" "g_context_switch_started k \<noteq> 0"
    "cpu_primask k = 0" "cpu_ipsr k = 0" "g_scheduler_tick_count k < 10"
    "thread_active k \<Longrightarrow> state_of k (current_index k) = TASK_STATE_RUNNING"
  using assms by (auto simp: kernel_wf_def thread_active_def)

section \<open>The tick\<close>

definition ticked :: "'a kernel_scheme \<Rightarrow> 'a kernel_scheme" where
  "ticked k = k\<lparr>g_os_ticks := g_os_ticks k + 1,
     g_task_table := map (woken (g_os_ticks k + 1)) (g_task_table k)\<rparr>"

lemma systick_handler_eq:
  assumes "sched_wf k" "g_scheduler_state k = SCHEDULER_STATE_RUNNING" "g_context_switch_started k \<noteq> 0"
  shows "systick_handler k =
    (if g_current_task_id k = 0 \<and> (\<exists>i < task_total k. wakes_at (g_os_ticks k + 1) (task_at k i))
     then (ticked k)\<lparr>g_scheduler_tick_count := 0, pendsv_pending := True\<rparr>
     else if g_preemption_enabled k = 0 then ticked k
     else if g_scheduler_tick_count k + 1 \<ge> SCHEDULER_TIME_SLICE_TICKS
     then (ticked k)\<lparr>g_scheduler_tick_count := 0, pendsv_pending := True\<rparr>
     else (ticked k)\<lparr>g_scheduler_tick_count := g_scheduler_tick_count k + 1\<rparr>)"
proof -
  let ?k = "systick_tick k"
  have wf: "tasks_wf ?k"
    using sched_wfD(1) [OF assms(1)] by (simp add: systick_tick_def tasks_wf_def table_wf_def)
  define n where "n = fst (task_wake_expired_sleeping_tasks (g_os_ticks k + 1) ?k)"
  have scan: "task_wake_expired_sleeping_tasks (g_os_ticks k + 1) ?k = (n, ticked k)"
    unfolding n_def task_wake_expired_eq [OF wf] by (simp add: ticked_def systick_tick_def)
  define w where "w \<longleftrightarrow> (\<exists>i < task_total k. wakes_at (g_os_ticks k + 1) (task_at k i))"
  have n: "n > 0 \<longleftrightarrow> w"
    unfolding n_def w_def wake_count_pos [OF wf] by (simp add: systick_tick_def)
  have ticks: "os_get_ticks ?k = g_os_ticks k + 1"
    by (simp add: os_get_ticks_def systick_tick_def)
  have state: "g_scheduler_state ?k = SCHEDULER_STATE_RUNNING"
    using assms(2) by (simp add: systick_tick_def)
  show ?thesis
    unfolding systick_handler_def os_scheduler_tick_def ticks scan state w_def [symmetric]
    using assms(3) n by (simp add: machine_ops ticked_def Let_def)
qed

lemma ticked_sched_wf:
  assumes "sched_wf k"
  shows "sched_wf (ticked k)"
proof -
  have "sched_wf (ticked k) =
      sched_wf (snd (task_wake_expired_sleeping_tasks (g_os_ticks k + 1) k))"
    unfolding task_wake_expired_eq [OF sched_wfD(1) [OF assms]]
    by (rule sched_wf_cong) (simp_all add: ticked_def)
  with wake_expired_sched_wf [OF assms] show ?thesis by simp
qed

lemma ticked_current:
  assumes "sched_wf k" "state_of k (current_index k) = TASK_STATE_RUNNING"
  shows "state_of (ticked k) (current_index k) = TASK_STATE_RUNNING"
  using assms sched_wfD(4,5) [OF assms(1)] by (simp add: ticked_def woken_def wakes_at_def)

lemma systick_handler_wf:
  assumes "kernel_wf k"
  shows "kernel_wf (systick_handler k)"
proof -
  note wf = kernel_wfD [OF assms]
  have t: "sched_wf (ticked k)" by (rule ticked_sched_wf [OF wf(1)])
  have len: "current_index k < length (g_task_table k)" using sched_wfD(4,5) [OF wf(1)] by simp
  have cur: "state_of (ticked k) (current_index k) = TASK_STATE_RUNNING \<or> pendsv_pending (ticked k)"
    using assms ticked_current [OF wf(1)] by (auto simp: kernel_wf_def ticked_def)
  have fields: "g_scheduler_state (ticked k) = SCHEDULER_STATE_RUNNING"
      "g_context_switch_started (ticked k) \<noteq> 0" "cpu_primask (ticked k) = 0" "cpu_ipsr (ticked k) = 0"
      "g_scheduler_tick_count (ticked k) = g_scheduler_tick_count k"
      "g_current_task_id (ticked k) = g_current_task_id k"
    using wf by (simp_all add: ticked_def)
  show ?thesis
    unfolding systick_handler_eq [OF wf(1-3)]
    using t cur fields wf(6) by (auto simp: kernel_wf_def)
qed

section \<open>Sleeping\<close>

lemma os_sleep_entry_eq:
  assumes "kernel_wf k"
  shows "os_sleep_entry irq ms k =
    Some (if ms = 0 then (None, k\<lparr>pendsv_pending := True\<rparr>)
     else if g_current_task_id k = 0 then (None, k)
     else (Some (g_current_task_id k, g_os_ticks k + ms), k))"
proof -
  note wf = kernel_wfD [OF assms]
  have valid: "g_current_task_id k \<noteq> 0xFFFFFFFF"
    using sched_wfD(5) [OF wf(1)] by (auto simp: u32_eq_iff_unat)
  then show ?thesis
    using wf(2,3) by (simp add: os_sleep_entry_def os_yield_def machine_ops os_get_current_task_id_def)
qed

lemma os_sleep_critical_eq:
  assumes "kernel_wf k" "thread_active k"
  shows "os_sleep_critical (os_get_current_task_id k) w k =
    (if g_current_task_id k = 0 then k
     else (update_task (current_index k)
            (\<lambda>t. t\<lparr>tcb_wakeup_tick := w, tcb_state := TASK_STATE_SLEEPING\<rparr>) k)
            \<lparr>g_scheduler_tick_count := 0, pendsv_pending := True\<rparr>)"
proof -
  note wf = kernel_wfD [OF assms(1)]
  have "state_of k (current_index k) = TASK_STATE_RUNNING" by (rule wf(7) [OF assms(2)])
  then show ?thesis
    using wf(4) sched_wfD(2) [OF wf(1)]
    by (simp add: os_sleep_critical_def machine_ops os_get_current_task_id_def task_sleep_until_eq
        update_task_def Let_def primask_same)
qed

lemma os_yield_wf: "kernel_wf k \<Longrightarrow> kernel_wf (os_yield k)"
  by (simp add: os_yield_def machine_ops kernel_wf_def)

lemma os_sleep_critical_wf:
  assumes "kernel_wf k" "thread_active k"
  shows "kernel_wf (os_sleep_critical (os_get_current_task_id k) w k)"
proof -
  note wf = kernel_wfD [OF assms(1)]
  let ?f = "\<lambda>t. t\<lparr>tcb_wakeup_tick := w, tcb_state := TASK_STATE_SLEEPING\<rparr>"
  have "sched_wf (update_task (current_index k) ?f k)" if "g_current_task_id k \<noteq> 0"
    by (rule sched_wf_update [OF wf(1) sched_wfD(2) [OF wf(1)]])
      (use that tasks_wfD(4) [OF sched_wfD(1,2) [OF wf(1)]] in \<open>simp_all add: tcb_wf_def unat_eq_0\<close>)
  then show ?thesis
    using assms wf(2-6) by (auto simp: os_sleep_critical_eq [OF assms] kernel_wf_def)
qed

section \<open>PendSV\<close>

lemma save_stack_pointer_eq:
  assumes "sched_wf k"
  shows "os_save_current_task_stack_pointer sp k =
    (if sp \<noteq> 0 \<and> tcb_stack_base (task_at k (current_index k)) \<le> sp \<and>
        sp \<le> tcb_stack_top (task_at k (current_index k))
     then update_task (current_index k) (\<lambda>t. t\<lparr>tcb_stack_pointer := sp\<rparr>) k else k)"
proof -
  have "g_current_task_id k \<noteq> 0xFFFFFFFF"
    using sched_wfD(5) [OF assms] by (auto simp: u32_eq_iff_unat)
  then show ?thesis
    using sched_wfD(2) [OF assms]
    by (simp add: os_save_current_task_stack_pointer_def os_get_current_task_id_def Let_def
        task_set_stack_pointer_eq)
qed

lemma save_stack_pointer_wf:
  assumes "sched_wf k"
  shows "sched_wf (os_save_current_task_stack_pointer sp k)"
  unfolding save_stack_pointer_eq [OF assms] if_split
proof (intro conjI impI)
  assume "sp \<noteq> 0 \<and> tcb_stack_base (task_at k (current_index k)) \<le> sp \<and>
        sp \<le> tcb_stack_top (task_at k (current_index k))"
  then show "sched_wf (update_task (current_index k) (\<lambda>t. t\<lparr>tcb_stack_pointer := sp\<rparr>) k)"
    using tasks_wfD(4,6) [OF sched_wfD(1) [OF assms]] sched_wfD(2) [OF assms]
    by (intro sched_wf_update [OF assms]) (auto simp: tcb_wf_def)
qed (rule assms)

text \<open>The state in which PendSV calls the scheduler.\<close>

definition context_saved :: "'a kernel_scheme \<Rightarrow> 'a kernel_scheme" where
  "context_saved k =
     (let k0 = k\<lparr>pendsv_pending := False\<rparr> in
      if cpu_psp k0 = 0 then k0
      else case stmdb_r4_r11 (cpu_psp k0) k0 of
             (r0, k0') \<Rightarrow> os_save_current_task_stack_pointer r0 k0')"

lemma context_saved_wf:
  assumes "sched_wf k"
  shows "sched_wf (context_saved k)"
proof -
  have "sched_wf (snd (stmdb_r4_r11 sp (k\<lparr>pendsv_pending := False\<rparr>)))" for sp
    using assms by (simp add: stmdb_r4_r11_def split: prod.split)
  then show ?thesis
    using assms by (simp add: context_saved_def Let_def save_stack_pointer_wf split_beta)
qed

lemma schedule_next_stack_pointer_Some:
  "os_schedule_next k = (Some t, k1) \<Longrightarrow>
    os_schedule_next_stack_pointer k = (tcb_stack_pointer t, k1)"
  by (simp add: os_schedule_next_stack_pointer_def)

lemma PendSV_Handler_eq:
  assumes "sched_wf k"
  shows "PendSV_Handler k =
    (let k2 = snd (os_schedule_next (context_saved k));
         sp = tcb_stack_pointer (task_at k2 (current_index k2))
     in Some (k2\<lparr>cpu_r4_r11 := read_words (task_memory k2) sp 8, cpu_psp := sp + 32\<rparr>))"
proof -
  let ?c = "context_saved k"
  have wf: "sched_wf ?c" by (rule context_saved_wf [OF assms])
  let ?n = "snd (os_schedule_next ?c)"
  let ?sp = "tcb_stack_pointer (task_at ?n (current_index ?n))"
  have n: "sched_wf ?n" by (rule schedule_next_wf [OF wf])
  have nz: "?sp \<noteq> 0"
    using tasks_wfD(4) [OF sched_wfD(1,2) [OF n]] by (simp add: tcb_wf_def)
  have "os_schedule_next ?c = (Some (task_at ?n (current_index ?n)), ?n)"
    using schedule_next_returns [OF wf] by (metis prod.collapse)
  then have "os_schedule_next_stack_pointer ?c = (?sp, ?n)"
    by (rule schedule_next_stack_pointer_Some)
  then show ?thesis
    using nz unfolding PendSV_Handler_def context_saved_def [symmetric, unfolded Let_def] Let_def
    by (simp add: ldmia_r4_r11_def)
qed

lemma stmdb_eq:
  "stmdb_r4_r11 r0 m =
    (snd (foldl push_word (task_memory m, r0) (rev (cpu_r4_r11 m))),
     m\<lparr>task_memory := fst (foldl push_word (task_memory m, r0) (rev (cpu_r4_r11 m)))\<rparr>)"
  by (simp add: stmdb_r4_r11_def split_beta)

lemma save_stack_pointer_frame [simp]:
  "g_task_count (os_save_current_task_stack_pointer sp k) = g_task_count k"
  "g_current_task_id (os_save_current_task_stack_pointer sp k) = g_current_task_id k"
  "task_memory (os_save_current_task_stack_pointer sp k) = task_memory k"
  "pendsv_pending (os_save_current_task_stack_pointer sp k) = pendsv_pending k"
  "cpu_primask (os_save_current_task_stack_pointer sp k) = cpu_primask k"
  "cpu_ipsr (os_save_current_task_stack_pointer sp k) = cpu_ipsr k"
  "g_context_switch_started (os_save_current_task_stack_pointer sp k) = g_context_switch_started k"
  "g_os_ticks (os_save_current_task_stack_pointer sp k) = g_os_ticks k"
  "g_scheduler_state (os_save_current_task_stack_pointer sp k) = g_scheduler_state k"
  "g_preemption_enabled (os_save_current_task_stack_pointer sp k) = g_preemption_enabled k"
  "g_scheduler_tick_count (os_save_current_task_stack_pointer sp k) = g_scheduler_tick_count k"
  by (simp_all add: os_save_current_task_stack_pointer_def os_get_current_task_id_def Let_def
      task_set_stack_pointer_eq)

lemma save_stack_pointer_task [simp]:
  "state_of (os_save_current_task_stack_pointer sp k) i = state_of k i"
  "tcb_wakeup_tick (task_at (os_save_current_task_stack_pointer sp k) i) = tcb_wakeup_tick (task_at k i)"
  by (simp_all add: os_save_current_task_stack_pointer_def os_get_current_task_id_def Let_def
      task_set_stack_pointer_eq nth_update_if)

lemma context_saved_simps [simp]:
  "g_task_count (context_saved k) = g_task_count k"
  "g_current_task_id (context_saved k) = g_current_task_id k"
  "pendsv_pending (context_saved k) = False"
  "cpu_primask (context_saved k) = cpu_primask k"
  "cpu_ipsr (context_saved k) = cpu_ipsr k"
  "g_context_switch_started (context_saved k) = g_context_switch_started k"
  "g_os_ticks (context_saved k) = g_os_ticks k"
  "g_scheduler_state (context_saved k) = g_scheduler_state k"
  "g_preemption_enabled (context_saved k) = g_preemption_enabled k"
  "g_scheduler_tick_count (context_saved k) = g_scheduler_tick_count k"
  "state_of (context_saved k) i = state_of k i"
  "tcb_wakeup_tick (task_at (context_saved k) i) = tcb_wakeup_tick (task_at k i)"
  by (simp_all add: context_saved_def Let_def stmdb_eq)

lemma chosen_eq_selected:
  assumes "sched_wf k"
  shows "chosen k =
    (case find (\<lambda>i. i \<noteq> 0 \<and> runnable k i) (ring_order (current_index k) (task_total k)) of
       None \<Rightarrow> 0 | Some i \<Rightarrow> i)"
  by (simp add: chosen_def select_requeued [OF assms])

lemma chosen_context_saved: "sched_wf k \<Longrightarrow> chosen (context_saved k) = chosen k"
  by (simp add: chosen_eq_selected context_saved_wf runnable_def)

lemma PendSV_effect:
  assumes "sched_wf k" "PendSV_Handler k = Some k'"
  shows "sched_wf k'" "current_index k' = chosen k" "\<not> pendsv_pending k'"
    "i < task_total k \<Longrightarrow> state_of k' i =
      (if i = chosen k then TASK_STATE_RUNNING
       else if state_of k i = TASK_STATE_RUNNING then TASK_STATE_READY else state_of k i)"
    "g_task_count k' = g_task_count k" "cpu_primask k' = cpu_primask k" "cpu_ipsr k' = cpu_ipsr k"
    "g_context_switch_started k' = g_context_switch_started k" "g_os_ticks k' = g_os_ticks k"
    "g_scheduler_state k' = g_scheduler_state k"
    "g_preemption_enabled k' = g_preemption_enabled k"
    "g_scheduler_tick_count k' = g_scheduler_tick_count k"
    "tcb_wakeup_tick (task_at k' i) = tcb_wakeup_tick (task_at k i)"
proof -
  have wf: "sched_wf (context_saved k)" by (rule context_saved_wf [OF assms(1)])
  obtain regs sp where k': "k' = (snd (os_schedule_next (context_saved k)))\<lparr>cpu_r4_r11 := regs, cpu_psp := sp\<rparr>"
    using assms by (auto simp: PendSV_Handler_eq Let_def)
  show "sched_wf k'" using schedule_next_wf [OF wf] by (simp add: k')
  show "state_of k' i = (if i = chosen k then TASK_STATE_RUNNING
       else if state_of k i = TASK_STATE_RUNNING then TASK_STATE_READY else state_of k i)"
    if "i < task_total k"
    using schedule_next_state [OF wf, of i] that chosen_context_saved [OF assms(1)] by (simp add: k')
  show "tcb_wakeup_tick (task_at k' i) = tcb_wakeup_tick (task_at k i)"
    using arg_cong [of _ _ tcb_wakeup_tick, OF schedule_next_fields [OF wf, of i]] by (simp add: k')
qed (use schedule_next_frame [OF context_saved_wf [OF assms(1)]]
        schedule_next_simps [OF context_saved_wf [OF assms(1)]]
        chosen_context_saved [OF assms(1)] assms in
      \<open>auto simp: PendSV_Handler_eq Let_def\<close>)

lemma PendSV_Handler_wf:
  assumes "kernel_wf k" "PendSV_Handler k = Some k'"
  shows "kernel_wf k'"
  using PendSV_effect [OF kernel_wfD(1) [OF assms(1)] assms(2)] kernel_wfD [OF assms(1)]
    chosen_less [OF kernel_wfD(1) [OF assms(1)]]
  by (simp add: kernel_wf_def)

section \<open>Every step keeps the kernel well formed\<close>

lemma kernel_step_wf: "kernel_step k t k' \<Longrightarrow> kernel_wf k \<Longrightarrow> kernel_wf k'"
proof (induction rule: kernel_step.induct)
  case (compute k regs sp mem)
  then show ?case by (simp add: kernel_wf_def)
next
  case (enable k)
  then show ?case by (simp add: kernel_wf_def os_scheduler_enable_preemption_def)
next
  case (disable k)
  then show ?case by (simp add: kernel_wf_def os_scheduler_disable_preemption_def)
qed (auto intro: systick_handler_wf PendSV_Handler_wf os_yield_wf os_sleep_critical_wf)

lemma kernel_run_wf: "kernel_run k0 n k \<Longrightarrow> kernel_wf k0 \<Longrightarrow> kernel_wf k"
  by (induction rule: kernel_run.induct) (auto intro: kernel_step_wf)

end
