(* ===== verification/Scheduler_Properties.thy ===== *)
theory Scheduler_Properties
  imports Interrupts Task_Properties
begin

section \<open>A concrete kernel\<close>

text \<open>
  The zeroed static variables, the calls of the boot sequence with two application tasks
  (entries \<open>0x701\<close> and \<open>0x801\<close>), and the first task started: the kernel of the witnesses.
\<close>

definition zero_kernel :: kernel where
  "zero_kernel =
     \<lparr>g_task_table = replicate OS_MAX_TASKS zero_tcb, g_task_count = 0, task_memory = (\<lambda>_. 0),
      cpu_primask = 0, cpu_ipsr = 0, cpu_control = 0, cpu_psp = 0, cpu_r4_r11 = replicate 8 0,
      pendsv_pending = False, scb_shpr3 = 0, systick_ctrl = 0, systick_reload = 0,
      systick_current = 0, g_context_switch_started = 0, g_os_ticks = 0,
      g_current_task_id = SCHEDULER_INVALID_TASK_ID, g_scheduler_state = SCHEDULER_STATE_STOPPED,
      g_preemption_enabled = 0, g_scheduler_tick_count = 0\<rparr>"

definition demo_boot :: kernel where
  "demo_boot =
     (let k1 = task_system_init demo_layout zero_kernel;
          k2 = snd (task_create demo_layout (Some ''a'') 0x701 0 k1);
          k3 = snd (task_create demo_layout (Some ''b'') 0x801 0 k2);
          k4 = os_context_switch_init (os_scheduler_init k3);
          k5 = snd (os_scheduler_start k4)
      in os_scheduler_enable_preemption k5)"

definition demo_kernel :: kernel where
  "demo_kernel = the (SVC_Handler demo_boot)"

text \<open>Everything the witnesses need of this kernel, evaluated once.\<close>

definition demo_tcb :: "nat \<Rightarrow> string option \<Rightarrow> u32 \<Rightarrow> task_state_t \<Rightarrow> task_control_block_t" where
  "demo_tcb i nm entry st =
     \<lparr>tcb_id = of_nat i, tcb_name = nm, tcb_entry = entry, tcb_argument = 0, tcb_state = st,
      tcb_stack_base = 0x20000100 + 0x400 * of_nat i, tcb_stack_top = 0x20000500 + 0x400 * of_nat i,
      tcb_stack_pointer = 0x200004C0 + 0x400 * of_nat i, tcb_stack_size_words = 256, tcb_wakeup_tick = 0\<rparr>"

definition demo_table :: "task_control_block_t list" where
  "demo_table =
     [demo_tcb 0 (Some ''idle'') 0x601 TASK_STATE_READY, demo_tcb 1 (Some ''a'') 0x701 TASK_STATE_RUNNING,
      demo_tcb 2 (Some ''b'') 0x801 TASK_STATE_READY] @ map (\<lambda>i. reset_tcb i zero_tcb) [3..<8]"

definition kernel_summary ::
  "kernel \<Rightarrow> task_control_block_t list \<times> u32 \<times> u32 \<times> u32 \<times> u32 \<times> bool \<times> u32 \<times> u32 \<times> u32 \<times>
     scheduler_state_t \<times> u32 \<times> u32 \<times> nat"
where
  "kernel_summary k = (g_task_table k, g_task_count k, cpu_primask k, cpu_ipsr k, cpu_psp k,
     pendsv_pending k, g_context_switch_started k, g_os_ticks k, g_current_task_id k,
     g_scheduler_state k, g_preemption_enabled k, g_scheduler_tick_count k, length (cpu_r4_r11 k))"

lemma demo_kernel_summary:
  "kernel_summary demo_kernel =
     (demo_table, 3, 0, 0, 0x200008E0, False, 1, 0, 1, SCHEDULER_STATE_RUNNING, 1, 0, 8)"
  by code_simp

lemma demo_kernel_fields:
  "g_task_table demo_kernel = demo_table" "g_task_count demo_kernel = 3"
  "cpu_primask demo_kernel = 0" "cpu_ipsr demo_kernel = 0" "cpu_psp demo_kernel = 0x200008E0"
  "\<not> pendsv_pending demo_kernel" "g_context_switch_started demo_kernel = 1"
  "g_os_ticks demo_kernel = 0" "g_current_task_id demo_kernel = 1"
  "g_scheduler_state demo_kernel = SCHEDULER_STATE_RUNNING" "g_preemption_enabled demo_kernel = 1"
  "g_scheduler_tick_count demo_kernel = 0" "length (cpu_r4_r11 demo_kernel) = 8"
  using demo_kernel_summary by (simp_all add: kernel_summary_def)

lemma demo_table_unfold:
  "demo_table =
     [demo_tcb 0 (Some ''idle'') 0x601 TASK_STATE_READY, demo_tcb 1 (Some ''a'') 0x701 TASK_STATE_RUNNING,
      demo_tcb 2 (Some ''b'') 0x801 TASK_STATE_READY, reset_tcb 3 zero_tcb, reset_tcb 4 zero_tcb,
      reset_tcb 5 zero_tcb, reset_tcb 6 zero_tcb, reset_tcb 7 zero_tcb]"
  by (simp add: demo_table_def upt_rec)

lemma less_eight_cases: "i < 8 \<longleftrightarrow> i \<in> {0, 1, 2, 3, 4, 5, 6, 7}" for i :: nat
  by auto

lemma demo_kernel_wf: "kernel_wf demo_kernel"
proof -
  have three: "i < 3 \<longleftrightarrow> i \<in> {0, 1, 2}" for i :: nat by auto
  have "tasks_wf demo_kernel"
    unfolding tasks_wf_def table_wf_def demo_kernel_fields demo_table_unfold
    by (simp add: three less_eight_cases tcb_wf_def demo_tcb_def reset_tcb_def)
  then show ?thesis
    unfolding kernel_wf_def sched_wf_def demo_kernel_fields demo_table_unfold
    by (simp add: three demo_kernel_fields demo_tcb_def reset_tcb_def)
qed

lemma demo_kernel_tasks:
  "task_total demo_kernel = 3" "g_current_task_id demo_kernel = 1"
  "state_of demo_kernel 1 = TASK_STATE_RUNNING" "state_of demo_kernel 2 = TASK_STATE_READY"
  "thread_active demo_kernel"
  by (simp_all add: demo_kernel_fields thread_active_def demo_table_unfold demo_tcb_def)

lemma demo_ring: "ring_order 1 3 = [2, 0, 1]" "ring_order 2 3 = [0, 1, 2]"
  by code_simp+

lemma demo_kernel_chosen: "chosen demo_kernel = 2"
proof -
  have "current_index demo_kernel = 1" using demo_kernel_tasks(2) by simp
  then show ?thesis
    using demo_kernel_tasks demo_ring(1)
    by (simp add: chosen_eq_selected [OF kernel_wfD(1) [OF demo_kernel_wf]] runnable_def)
qed

section \<open>Selection\<close>

lemma chosen_spec:
  assumes "sched_wf k"
  shows "chosen k \<noteq> 0 \<Longrightarrow> 0 < j \<Longrightarrow> j < task_total k \<Longrightarrow> runnable k j \<Longrightarrow>
      ring_dist (current_index k) (task_total k) (chosen k) \<le>
      ring_dist (current_index k) (task_total k) j"
    and "chosen k = 0 \<Longrightarrow> 0 < j \<Longrightarrow> j < task_total k \<Longrightarrow> \<not> runnable k j"
  using sched_ring.nearest [OF assms] sched_ring.not_found_iff [OF assms]
    schedule_next_frame(2) [OF assms]
  by (auto simp: selected_def Let_def)

text \<open>
  (C10) Round-robin selection: \<open>os_schedule_next\<close> returns the entry it made current. It picks
  the runnable application task that comes first in circular order after the current task
  (the current one itself last), and the idle task exactly if no application task is
  runnable. Afterwards the pick is the only RUNNING task, every other RUNNING task is READY,
  all other states, the number of tasks and the stacks are as before.
\<close>

theorem os_schedule_next_round_robin:
  assumes "sched_wf k" "os_schedule_next k = (result, k')"
  defines "i \<equiv> current_index k'"
  shows "sched_wf k' \<and> result = Some (task_at k' i) \<and> i < task_total k \<and> runnable k i \<and>
    (if i = 0 then (\<forall>j. 0 < j \<and> j < task_total k \<longrightarrow> \<not> runnable k j)
     else (\<forall>j. 0 < j \<and> j < task_total k \<and> runnable k j \<longrightarrow>
       ring_dist (current_index k) (task_total k) i \<le> ring_dist (current_index k) (task_total k) j)) \<and>
    (\<forall>j < task_total k. state_of k' j =
      (if j = i then TASK_STATE_RUNNING
       else if state_of k j = TASK_STATE_RUNNING then TASK_STATE_READY else state_of k j)) \<and>
    g_task_count k' = g_task_count k \<and> task_memory k' = task_memory k"
proof -
  have k': "k' = snd (os_schedule_next k)" "result = fst (os_schedule_next k)"
    using assms(2) by simp_all
  have i: "i = chosen k" unfolding i_def k' by (rule schedule_next_frame(2) [OF assms(1)])
  have ret: "result = Some (task_at k' i)"
    using schedule_next_returns [OF assms(1)] by (simp add: i_def k')
  show ?thesis
    unfolding ret unfolding i k'
    using chosen_spec [OF assms(1)] chosen_less [OF assms(1)] chosen_runnable [OF assms(1)]
      schedule_next_wf [OF assms(1)] schedule_next_state [OF assms(1)]
      schedule_next_frame(1) [OF assms(1)] schedule_next_simps(1) [OF assms(1)]
    by simp
qed

theorem os_schedule_next_round_robin_witness:
  "current_index (snd (os_schedule_next demo_kernel)) = 2 \<and>
   state_of (snd (os_schedule_next demo_kernel)) 1 = TASK_STATE_READY"
proof -
  have "current_index (snd (os_schedule_next demo_kernel)) = 2"
    using schedule_next_frame(2) [OF kernel_wfD(1) [OF demo_kernel_wf]] demo_kernel_chosen by simp
  then show ?thesis
    using os_schedule_next_round_robin [OF kernel_wfD(1) [OF demo_kernel_wf] prod.collapse [symmetric]]
      demo_kernel_tasks by simp
qed

text \<open>
  (C14) Fairness: PendSV is taken in the states \<open>f 0, f 1, \<dots>\<close> and leaves \<open>g 0, g 1, \<dots>\<close>;
  between two switches the current task stays the same. An application task that is runnable
  at each switch until it is picked is picked within as many switches as there are tasks.
\<close>

theorem pendsv_round_robin_fair:
  assumes "\<And>k. k < n \<Longrightarrow> sched_wf (f k) \<and> task_total (f k) = n \<and> PendSV_Handler (f k) = Some (g k)"
    and "\<And>k. Suc k < n \<Longrightarrow> g_current_task_id (f (Suc k)) = g_current_task_id (g k)"
    and "\<And>k. k < n \<Longrightarrow> \<forall>l < k. current_index (g l) \<noteq> j \<Longrightarrow> runnable (f k) j"
    and "0 < j" "j < n"
  shows "\<exists>k < n. current_index (g k) = j"
proof -
  have g: "current_index (g k) = current_index (snd (os_schedule_next (f k)))" if "k < n" for k
    using PendSV_effect(2) [of "f k" "g k"] schedule_next_frame(2) [of "f k"] assms(1) [OF that]
    by simp
  then have sel: "selected (f k) = Some j \<longleftrightarrow> current_index (g k) = j" if "k < n" for k
    using that assms(4) by (auto simp: selected_def Let_def)
  have "\<exists>k < n. selected (f k) = Some j"
  proof (rule sched_ring.bounded_wait)
    show "g_current_task_id (f (Suc k)) = g_current_task_id (snd (os_schedule_next (f k)))"
      if "Suc k < n" for k
      using assms(2) [OF that] g [of k] that by (simp add: u32_eq_iff_unat)
    show "runnable (f k) j" if "k < n" "\<forall>l < k. selected (f l) \<noteq> Some j" for k
      using assms(3) [OF that(1)] that sel by simp
  qed (use assms in auto)
  then show ?thesis using sel by auto
qed

definition demo_switch :: "nat \<Rightarrow> kernel" where
  "demo_switch n = ((\<lambda>k. the (PendSV_Handler k)) ^^ n) demo_kernel"

lemma demo_switch_wf: "sched_wf (demo_switch n) \<and> task_total (demo_switch n) = 3"
proof (induction n)
  case 0
  then show ?case using demo_kernel_tasks kernel_wfD(1) [OF demo_kernel_wf] by (simp add: demo_switch_def)
next
  case (Suc n)
  then obtain k' where "PendSV_Handler (demo_switch n) = Some k'" by (simp add: PendSV_Handler_eq Let_def)
  with Suc show ?case
    using PendSV_effect(1,5) [of "demo_switch n" k'] by (simp add: demo_switch_def)
qed

lemma demo_switch_step: "PendSV_Handler (demo_switch n) = Some (demo_switch (Suc n))"
  using demo_switch_wf [of n] by (simp add: demo_switch_def PendSV_Handler_eq Let_def)

lemma demo_switch_runnable: "runnable (demo_switch n) 2"
proof (induction n)
  case 0
  then show ?case using demo_kernel_tasks by (simp add: demo_switch_def runnable_def)
next
  case (Suc n)
  then show ?case
    using PendSV_effect(4) [OF _ demo_switch_step [of n], of 2] demo_switch_wf [of n]
    by (auto simp: runnable_def)
qed

theorem pendsv_round_robin_fair_witness:
  "\<exists>k < 3. current_index (demo_switch (Suc k)) = 2"
  by (rule pendsv_round_robin_fair [of 3 demo_switch])
    (simp_all add: demo_switch_wf demo_switch_step demo_switch_runnable)

end
