(* ===== verification/Kernel_Run_Properties.thy ===== *)
theory Kernel_Run_Properties
  imports Scheduler_Properties
begin

text \<open>
  Properties of whole executions: any interleaving of timer interrupts, context switches,
  scheduler calls and computation of the tasks (\<open>kernel_run\<close>), the time slice, sleeping, and
  the save and restore of a task's context by two PendSV exceptions.
\<close>

section \<open>Executions\<close>

text \<open>
  (C4) Safety of every execution: from a well-formed kernel, in every reachable state in
  which a task executes, the current task is RUNNING and in use, no other task is RUNNING,
  the idle task is never asleep or blocked, and the time slice is not used up; and a pending
  PendSV never ends in its fault loop.
\<close>

theorem kernel_run_safe:
  assumes "kernel_wf k0" "kernel_run k0 n k"
  shows "(thread_active k \<longrightarrow> current_index k < task_total k \<and>
      (\<forall>i < task_total k. state_of k i = TASK_STATE_RUNNING \<longleftrightarrow> i = current_index k)) \<and>
    (state_of k 0 = TASK_STATE_READY \<or> state_of k 0 = TASK_STATE_RUNNING) \<and>
    g_scheduler_tick_count k < SCHEDULER_TIME_SLICE_TICKS \<and>
    PendSV_Handler k \<noteq> None"
proof -
  have wf: "kernel_wf k" using kernel_run_wf [OF assms(2,1)] .
  note d = kernel_wfD [OF wf]
  have run: "\<forall>i < task_total k. state_of k i = TASK_STATE_RUNNING \<longleftrightarrow> i = current_index k"
    if "thread_active k"
    using d(7) [OF that] sched_wfD(6) [OF d(1)] by blast
  have "PendSV_Handler k \<noteq> None" by (simp add: PendSV_Handler_eq [OF d(1)] Let_def)
  then show ?thesis
    using d(6) run sched_wfD(2) [OF d(1)] tasks_wfD(6) [OF sched_wfD(1) [OF d(1)]] by simp
qed

theorem kernel_run_safe_witness:
  "let k = the (PendSV_Handler (os_yield demo_kernel)) in
   thread_active k \<and> state_of k (current_index k) = TASK_STATE_RUNNING"
proof -
  let ?y = "os_yield demo_kernel"
  let ?k = "the (PendSV_Handler ?y)"
  have y: "kernel_run demo_kernel (0 + 0) ?y"
    by (rule kernel_run.step [OF kernel_run.start kernel_step.yield]) (rule demo_kernel_tasks)
  have ywf: "kernel_wf ?y" by (rule os_yield_wf [OF demo_kernel_wf])
  have pend: "PendSV_Handler ?y = Some ?k"
    by (simp add: PendSV_Handler_eq [OF kernel_wfD(1) [OF ywf]] Let_def)
  have yf: "pendsv_pending ?y" "cpu_primask ?y = 0" "cpu_ipsr ?y = 0"
    using kernel_wfD [OF demo_kernel_wf] by (simp_all add: os_yield_def machine_ops)
  have run: "kernel_run demo_kernel (0 + 0 + 0) ?k"
    by (rule kernel_run.step [OF y kernel_step.pendsv]) (use yf pend in simp_all)
  have active: "thread_active ?k"
    using PendSV_effect [OF kernel_wfD(1) [OF ywf] pend] yf by (simp add: thread_active_def)
  show ?thesis
    unfolding Let_def using active kernel_run_safe [OF demo_kernel_wf run] by auto
qed

section \<open>Time slice\<close>

text \<open>A task that only computes: ticks and computation while no switch is pending.\<close>

inductive cpu_bound :: "'a kernel_scheme \<Rightarrow> nat \<Rightarrow> 'a kernel_scheme \<Rightarrow> bool" for k0 where
  start: "cpu_bound k0 0 k0"
| tick: "cpu_bound k0 n k \<Longrightarrow> thread_active k \<Longrightarrow> cpu_bound k0 (Suc n) (systick_handler k)"
| compute: "cpu_bound k0 n k \<Longrightarrow> thread_active k \<Longrightarrow>
    cpu_bound k0 n (k\<lparr>cpu_r4_r11 := regs, cpu_psp := sp, task_memory := mem\<rparr>)"

lemma cpu_bound_count:
  assumes "cpu_bound k0 n k" "kernel_wf k0" "g_preemption_enabled k0 \<noteq> 0" "thread_active k0"
  shows "kernel_wf k \<and> g_preemption_enabled k \<noteq> 0 \<and>
    (pendsv_pending k \<and> n + unat (g_scheduler_tick_count k0) \<le> 10 \<or>
     \<not> pendsv_pending k \<and> unat (g_scheduler_tick_count k) = unat (g_scheduler_tick_count k0) + n)"
  using assms(1)
proof induction
  case start
  then show ?case using assms by (simp add: thread_active_def)
next
  case (tick n k)
  then have wf: "kernel_wf k" and pre: "g_preemption_enabled k \<noteq> 0" "\<not> pendsv_pending k"
    and count: "unat (g_scheduler_tick_count k) = unat (g_scheduler_tick_count k0) + n"
    by (auto simp: thread_active_def)
  note d = kernel_wfD [OF wf]
  have small: "unat (g_scheduler_tick_count k) < 10" using d(6) by (simp add: u32_less_unat)
  then have suc: "unat (g_scheduler_tick_count k + 1) = Suc (unat (g_scheduler_tick_count k))"
    by (simp add: unat_word_ariths)
  show ?case
    using systick_handler_wf [OF wf] pre small count suc
    by (simp add: systick_handler_eq [OF d(1-3)] ticked_def)
next
  case (compute n k regs sp mem)
  then show ?case by (simp add: kernel_wf_def)
qed

text \<open>
  (C24) Preemption bound: with preemption enabled, a task that never calls the kernel keeps
  the processor for at most \<open>SCHEDULER_TIME_SLICE_TICKS\<close> ticks; if its slice is fresh, the
  tenth tick makes PendSV pending at the latest. Only a task woken while idle runs, or a
  slice inherited partly used, makes it shorter.
\<close>

theorem time_slice_bounds_cpu_use:
  assumes "kernel_wf k0" "g_preemption_enabled k0 \<noteq> 0" "thread_active k0" "cpu_bound k0 n k"
  shows "n + unat (g_scheduler_tick_count k0) \<le> 10 \<and>
    (n + unat (g_scheduler_tick_count k0) = 10 \<longrightarrow> pendsv_pending k) \<and>
    (thread_active k \<longrightarrow> unat (g_scheduler_tick_count k) = unat (g_scheduler_tick_count k0) + n)"
proof -
  note c = cpu_bound_count [OF assms(4,1,2,3)]
  then have "unat (g_scheduler_tick_count k) < 10"
    using kernel_wfD(6) by (fastforce simp: u32_less_unat)
  with c show ?thesis by (auto simp: thread_active_def)
qed

lemma demo_kernel_slice: "g_preemption_enabled demo_kernel \<noteq> 0 \<and> g_scheduler_tick_count demo_kernel = 0"
  by (simp add: demo_kernel_fields)

theorem time_slice_bounds_cpu_use_witness:
  "let k = systick_handler demo_kernel in thread_active k \<longrightarrow> g_scheduler_tick_count k = 1"
proof -
  have run: "cpu_bound demo_kernel (Suc 0) (systick_handler demo_kernel)"
    by (rule cpu_bound.tick [OF cpu_bound.start]) (rule demo_kernel_tasks)
  show ?thesis
    using time_slice_bounds_cpu_use [OF demo_kernel_wf _ demo_kernel_tasks(5) run] demo_kernel_slice
    by (simp add: Let_def u32_eq_iff_unat)
qed

section \<open>Sleeping\<close>

definition asleep :: "nat \<Rightarrow> u32 \<Rightarrow> 'a kernel_scheme \<Rightarrow> bool" where
  "asleep i w k \<longleftrightarrow> kernel_wf k \<and> i < task_total k \<and> state_of k i = TASK_STATE_SLEEPING \<and>
     tcb_wakeup_tick (task_at k i) = w"

lemma asleep_not_current:
  assumes "asleep i w k" "thread_active k"
  shows "current_index k \<noteq> i"
  using assms kernel_wfD(7) [of k] by (auto simp: asleep_def)

lemma systick_handler_task:
  assumes "kernel_wf k" "i < task_total k"
  shows "task_at (systick_handler k) i = woken (g_os_ticks k + 1) (task_at k i)"
    "g_os_ticks (systick_handler k) = g_os_ticks k + 1"
    "g_task_count (systick_handler k) = g_task_count k"
  using assms(2) sched_wfD(3,4) [OF kernel_wfD(1) [OF assms(1)]]
  by (simp_all add: systick_handler_eq [OF kernel_wfD(1-3) [OF assms(1)]] ticked_def)

lemma PendSV_asleep:
  assumes "asleep i w k" "PendSV_Handler k = Some k'"
  shows "asleep i w k'"
proof -
  have wf: "kernel_wf k" and i: "i < task_total k" "state_of k i = TASK_STATE_SLEEPING"
    using assms(1) by (simp_all add: asleep_def)
  have "i \<noteq> chosen k" using chosen_runnable [OF kernel_wfD(1) [OF wf]] i by (auto simp: runnable_def)
  then show ?thesis
    using PendSV_effect(4,5,13) [OF kernel_wfD(1) [OF wf] assms(2)] PendSV_Handler_wf [OF wf assms(2)]
      assms(1) by (simp add: asleep_def)
qed

text \<open>Only a tick that reaches the wakeup tick changes a sleeping task.\<close>

lemma kernel_step_asleep:
  assumes "kernel_step k t k'" "asleep i w k"
    and "t = 1 \<Longrightarrow> \<not> g_os_ticks k + 1 - w < 0x80000000"
  shows "asleep i w k' \<and> g_os_ticks k' = g_os_ticks k + of_nat t"
  using assms
proof (induction rule: kernel_step.induct)
  case (systick k)
  then show ?case
    using systick_handler_task [of k i] systick_handler_wf [of k]
    by (simp add: asleep_def woken_def wakes_at_def)
next
  case (pendsv k k')
  then have "kernel_wf k" by (simp add: asleep_def)
  then show ?case
    using PendSV_asleep [OF pendsv(4,3)] PendSV_effect(9) [OF kernel_wfD(1) pendsv(3)] by simp
next
  case (yield k)
  then show ?case
    using os_yield_wf [of k] by (simp add: asleep_def) (simp add: os_yield_def machine_ops)
next
  case (sleep k u)
  then have wf: "kernel_wf k" by (simp add: asleep_def)
  have "current_index k \<noteq> i" using asleep_not_current sleep by blast
  then show ?case
    using sleep os_sleep_critical_wf [OF wf sleep(1)]
    by (auto simp: asleep_def os_sleep_critical_eq [OF wf sleep(1)])
next
  case (enable k)
  then show ?case by (simp add: asleep_def kernel_wf_def os_scheduler_enable_preemption_def)
next
  case (disable k)
  then show ?case by (simp add: asleep_def kernel_wf_def os_scheduler_disable_preemption_def)
next
  case (compute k regs sp mem)
  then show ?case by (simp add: asleep_def kernel_wf_def)
qed

lemma kernel_run_asleep:
  assumes "kernel_run k1 n k" "asleep i w k1"
    and "\<forall>m. 0 < m \<and> m \<le> n \<longrightarrow> \<not> g_os_ticks k1 + of_nat m - w < 0x80000000"
  shows "asleep i w k \<and> g_os_ticks k = g_os_ticks k1 + of_nat n"
  using assms(1,3)
proof induction
  case start
  then show ?case using assms(2) by simp
next
  case (step n k t k')
  then have IH: "asleep i w k" "g_os_ticks k = g_os_ticks k1 + of_nat n" by simp_all
  have "\<not> g_os_ticks k + 1 - w < 0x80000000" if "t = 1"
    using step.prems [rule_format, of "Suc n"] that by (simp add: IH(2) ac_simps)
  then have "asleep i w k' \<and> g_os_ticks k' = g_os_ticks k + of_nat t"
    by (rule kernel_step_asleep [OF step.hyps(2) IH(1)])
  then show ?case by (simp add: IH(2))
qed

text \<open>Every step counts its ticks.\<close>

lemma kernel_step_ticks:
  "kernel_step k t k' \<Longrightarrow> kernel_wf k \<Longrightarrow> g_os_ticks k' = g_os_ticks k + of_nat t"
proof (induction rule: kernel_step.induct)
  case (systick k)
  then show ?case by (simp add: systick_handler_eq [OF kernel_wfD(1-3)] ticked_def)
next
  case (pendsv k k')
  then show ?case using PendSV_effect(9) [OF kernel_wfD(1)] by simp
next
  case (sleep k w)
  then show ?case by (simp add: os_sleep_critical_eq)
qed (simp_all add: os_yield_def machine_ops os_scheduler_enable_preemption_def os_scheduler_disable_preemption_def)

lemma kernel_run_ticks: "kernel_run k0 n k \<Longrightarrow> kernel_wf k0 \<Longrightarrow> g_os_ticks k = g_os_ticks k0 + of_nat n"
  by (induction rule: kernel_run.induct) (simp_all add: kernel_step_ticks kernel_run_wf)

lemma kernel_run_count: "kernel_run k0 n k \<Longrightarrow> kernel_wf k0 \<Longrightarrow> g_task_count k = g_task_count k0"
proof (induction rule: kernel_run.induct)
  case (step n k t k')
  then have "kernel_wf k" by (blast intro: kernel_run_wf)
  with step.hyps(2) have "g_task_count k' = g_task_count k"
    by (induction rule: kernel_step.induct)
      (simp_all add: systick_handler_eq [OF kernel_wfD(1-3)] ticked_def PendSV_effect(5) [OF kernel_wfD(1)]
        os_sleep_critical_eq os_yield_def machine_ops os_scheduler_enable_preemption_def
        os_scheduler_disable_preemption_def)
  then show ?case using step by simp
qed simp

text \<open>A whole call of \<open>os_sleep\<close> is made of steps of the kernel, with any steps between its parts.\<close>

lemma os_sleep_run:
  assumes "kernel_wf k" "thread_active k" "os_sleep irq gap ms k = Some k'"
    and "kernel_run k d (gap k)" "thread_active (gap k)" "g_current_task_id (gap k) = g_current_task_id k"
  shows "\<exists>n. kernel_run k n k'"
proof -
  have yield: "os_yield k = k\<lparr>pendsv_pending := True\<rparr>"
    using kernel_wfD(2,3) [OF assms(1)] by (simp add: os_yield_def machine_ops)
  have "k' = os_yield k \<or> k' = k \<or> (\<exists>w. k' = os_sleep_critical (os_get_current_task_id (gap k)) w (gap k))"
    using assms(3,6) unfolding yield
    by (auto simp: os_sleep_def os_sleep_entry_eq [OF assms(1)] os_get_current_task_id_def split: if_splits)
  then consider (yield) "k' = os_yield k" | (idle) "k' = k"
    | (asleep) w where "k' = os_sleep_critical (os_get_current_task_id (gap k)) w (gap k)"
    by blast
  then show ?thesis
  proof cases
    case yield
    then show ?thesis using kernel_run.step [OF kernel_run.start kernel_step.yield [OF assms(2)]] by blast
  next
    case idle
    then show ?thesis using kernel_run.start by blast
  next
    case asleep
    then show ?thesis using kernel_run.step [OF assms(4) kernel_step.sleep [OF assms(5)]] by blast
  qed
qed

text \<open>The tick that is \<open>m\<close> ticks after the wakeup tick was computed has reached it exactly if \<open>ms \<le> m\<close>.\<close>

lemma wakeup_reached:
  fixes t0 ms :: u32
  assumes "unat ms < 2 ^ 31" "m < unat ms + 2 ^ 31"
  shows "t0 + of_nat m - (t0 + ms) < 0x80000000 \<longleftrightarrow> unat ms \<le> m"
proof -
  have "unat (of_nat m :: u32) = m" using assms by (intro unat_small_u32) simp
  then have "unat (of_nat m - ms) = (if unat ms \<le> m then m - unat ms else m + 2 ^ 32 - unat ms)"
    using unat_u32_diff [of "of_nat m" ms] by (simp add: not_le)
  moreover have "t0 + of_nat m - (t0 + ms) = of_nat m - ms" by simp
  ultimately show ?thesis using assms by (auto simp: u32_less_unat)
qed

text \<open>
  (C15) Sleeping end to end: an application task calls \<open>os_sleep(ms)\<close> with \<open>0 < ms < 2 ^ 31\<close>.
  Between its reading of the tick counter and its critical section, \<open>d\<close> ticks and any other
  steps of the kernel may come, context switches to other tasks included (the hypothesis on
  \<open>gap\<close>: an execution after which the caller executes again, shorter than \<open>ms + 2 ^ 31 - 1\<close>
  ticks). After the call the caller is SLEEPING and a context switch is pending; whatever the
  other tasks, the timer and PendSV do, it stays SLEEPING, so it is never dispatched, up to the
  tick that comes \<open>ms\<close> ticks after the reading, which makes it READY, across a wrap of the
  counter too. If that tick was over before the critical section, the next tick does.
\<close>

theorem os_sleep_end_to_end:
  assumes "kernel_wf k0" "thread_active k0" "g_current_task_id k0 \<noteq> 0"
    and "0 < unat ms" "unat ms < 2 ^ 31"
    and "kernel_run k0 d (gap k0)" "thread_active (gap k0)" "g_current_task_id (gap k0) = g_current_task_id k0"
      "Suc d < unat ms + 2 ^ 31"
    and "os_sleep irq gap ms k0 = Some k1" "kernel_run k1 n k"
  shows "pendsv_pending k1 \<and>
    (d + n < max (unat ms) (Suc d) \<longrightarrow> state_of k (current_index k0) = TASK_STATE_SLEEPING) \<and>
    (Suc (d + n) = max (unat ms) (Suc d) \<longrightarrow>
      state_of (systick_handler k) (current_index k0) = TASK_STATE_READY)"
proof -
  let ?g = "gap k0" and ?i = "current_index k0" and ?w = "g_os_ticks k0 + ms"
  have g: "kernel_wf ?g" "g_os_ticks ?g = g_os_ticks k0 + of_nat d"
    using kernel_run_wf [OF assms(6,1)] kernel_run_ticks [OF assms(6,1)] by simp_all
  have "ms \<noteq> 0" using assms(4) by auto
  then have k1: "k1 = os_sleep_critical (os_get_current_task_id ?g) ?w ?g"
    using assms(3,8,10) by (auto simp: os_sleep_def os_sleep_entry_eq [OF assms(1)] os_get_current_task_id_def)
  then have eq: "k1 = (update_task ?i (\<lambda>t. t\<lparr>tcb_wakeup_tick := ?w, tcb_state := TASK_STATE_SLEEPING\<rparr>) ?g)
      \<lparr>g_scheduler_tick_count := 0, pendsv_pending := True\<rparr>"
    using assms(3,8) by (simp add: os_sleep_critical_eq [OF g(1) assms(7)])
  have "kernel_wf k1" unfolding k1 by (rule os_sleep_critical_wf [OF g(1) assms(7)])
  moreover have "?i < task_total ?g" "?i < length (g_task_table ?g)"
    using sched_wfD(2,4,5) [OF kernel_wfD(1) [OF g(1)]] assms(8) by simp_all
  ultimately have sl: "asleep ?i ?w k1" "g_os_ticks k1 = g_os_ticks k0 + of_nat d"
    using g(2) by (simp_all add: asleep_def eq)
  have reached: "g_os_ticks k1 + of_nat m - ?w < 0x80000000 \<longleftrightarrow> unat ms \<le> d + m"
    if "d + m < unat ms + 2 ^ 31" for m
    using wakeup_reached [OF assms(5) that, of "g_os_ticks k0"] by (simp add: sl(2) ac_simps)
  have kept: "asleep ?i ?w k \<and> g_os_ticks k = g_os_ticks k1 + of_nat n" if n: "d + n < max (unat ms) (Suc d)"
  proof (rule kernel_run_asleep [OF assms(11) sl(1)], intro allI impI)
    fix m assume "0 < m \<and> m \<le> n"
    then have "d + m < unat ms" using n by auto
    then show "\<not> g_os_ticks k1 + of_nat m - ?w < 0x80000000" using reached [of m] by simp
  qed
  have "state_of (systick_handler k) ?i = TASK_STATE_READY" if n: "Suc (d + n) = max (unat ms) (Suc d)"
  proof -
    have k: "asleep ?i ?w k" "g_os_ticks k = g_os_ticks k1 + of_nat n" using kept n by simp_all
    have "g_os_ticks k + 1 - ?w < 0x80000000"
      using reached [of "Suc n"] n assms(5,9) by (simp add: k(2) ac_simps max_def split: if_splits)
    then show ?thesis
      using k(1) systick_handler_task(1) [of k ?i] by (simp add: asleep_def woken_def wakes_at_def)
  qed
  then show ?thesis using kept by (auto simp: eq asleep_def)
qed

text \<open>A sleep of three ticks with a timer interrupt in the gap, and two after it.\<close>

theorem os_sleep_end_to_end_witness:
  "let k1 = the (os_sleep (\<lambda>_. systick_handler) systick_handler 3 demo_kernel);
       k = systick_handler (the (PendSV_Handler k1))
   in state_of k 1 = TASK_STATE_SLEEPING \<and> state_of (systick_handler k) 1 = TASK_STATE_READY"
proof -
  let ?g = "systick_handler demo_kernel"
  let ?k1 = "the (os_sleep (\<lambda>_. systick_handler) systick_handler 3 demo_kernel)"
  note d = kernel_wfD [OF demo_kernel_wf]
  have cur: "g_current_task_id demo_kernel \<noteq> 0" using demo_kernel_tasks(2) by auto
  have sleep: "os_sleep (\<lambda>_. systick_handler) systick_handler 3 demo_kernel = Some ?k1"
    using cur by (simp add: os_sleep_def os_sleep_entry_eq [OF demo_kernel_wf])
  have gap: "kernel_run demo_kernel (0 + 1) ?g"
    by (rule kernel_run.step [OF kernel_run.start kernel_step.systick [OF d(4)]])
  have active: "thread_active ?g" "g_current_task_id ?g = g_current_task_id demo_kernel"
    using demo_kernel_tasks(5) demo_kernel_slice cur
    by (simp_all add: systick_handler_eq [OF d(1-3)] ticked_def thread_active_def u32_le_unat)
  obtain n where "kernel_run demo_kernel n ?k1"
    using os_sleep_run [OF demo_kernel_wf demo_kernel_tasks(5) sleep gap active] by blast
  then have wf: "kernel_wf ?k1" by (rule kernel_run_wf [OF _ demo_kernel_wf])
  note end_to_end = os_sleep_end_to_end [OF demo_kernel_wf demo_kernel_tasks(5) cur _ _ gap active _ sleep]
  have pend: "PendSV_Handler ?k1 = Some (the (PendSV_Handler ?k1))"
    by (simp add: PendSV_Handler_eq [OF kernel_wfD(1) [OF wf]] Let_def)
  have "pendsv_pending ?k1" using end_to_end [OF _ _ _ kernel_run.start] by simp
  then have s1: "kernel_run ?k1 (0 + 0) (the (PendSV_Handler ?k1))"
    using kernel_wfD(4) [OF wf] pend by (intro kernel_run.step [OF kernel_run.start kernel_step.pendsv])
  have "cpu_primask (the (PendSV_Handler ?k1)) = 0"
    using PendSV_effect(6) [OF kernel_wfD(1) [OF wf] pend] kernel_wfD(4) [OF wf] by simp
  then have "kernel_run ?k1 (0 + 0 + 1) (systick_handler (the (PendSV_Handler ?k1)))"
    by (rule kernel_run.step [OF s1 kernel_step.systick])
  then show ?thesis
    using end_to_end [of 1 "systick_handler (the (PendSV_Handler ?k1))"] demo_kernel_tasks(2)
    by (simp add: Let_def)
qed

section \<open>Context switches\<close>

text \<open>The stack pointer leaves room for the eight saved registers inside the stack of task \<open>i\<close>.\<close>

definition psp_in_stack :: "'a kernel_scheme \<Rightarrow> nat \<Rightarrow> bool" where
  "psp_in_stack k i \<longleftrightarrow> length (cpu_r4_r11 k) = 8 \<and>
     unat (tcb_stack_base (task_at k i)) + 32 \<le> unat (cpu_psp k) \<and>
     unat (cpu_psp k) \<le> unat (tcb_stack_top (task_at k i))"

lemma stacks_wfD:
  assumes "layout_ok L" "stacks_wf L k" "tasks_wf k" "i < task_total k"
  shows "unat (tcb_stack_base (task_at k i)) = unat (g_task_stacks_addr L) + 1024 * i"
    "unat (tcb_stack_top (task_at k i)) = unat (g_task_stacks_addr L) + 1024 * i + 1024"
    "0x20000000 \<le> unat (g_task_stacks_addr L)" "unat (g_task_stacks_addr L) + 8192 \<le> 0x20008000"
    "i < 8"
  using assms tasks_wfD(3) [OF assms(3)]
  by (simp_all add: stacks_wf_def unat_stack_base unat_stack_top layout_ok_def)

lemma context_saved_effect:
  assumes "sched_wf k" "psp_in_stack k (current_index k)"
    and "32 \<le> unat (tcb_stack_base (task_at k (current_index k)))"
  shows "task_at (context_saved k) i = (if i = current_index k
      then (task_at k i)\<lparr>tcb_stack_pointer := cpu_psp k - 32\<rparr> else task_at k i)"
    "read_words (task_memory (context_saved k)) (cpu_psp k - 32) 8 = cpu_r4_r11 k"
    "unat (cpu_psp k - a) = 0 \<or> 32 < unat (cpu_psp k - a) \<Longrightarrow>
      task_memory (context_saved k) a = task_memory k a"
proof -
  let ?c = "current_index k"
  obtain mem sp where push: "foldl push_word (task_memory k, cpu_psp k) (rev (cpu_r4_r11 k)) = (mem, sp)"
    by (metis prod.collapse)
  have len: "length (rev (cpu_r4_r11 k)) = 8" using assms(2) by (simp add: psp_in_stack_def)
  then have sp: "sp = cpu_psp k - 32"
    using foldl_push_word [of "rev (cpu_r4_r11 k)" "task_memory k" "cpu_psp k"] push by simp
  have psp: "32 \<le> unat (cpu_psp k)" "unat sp = unat (cpu_psp k) - 32" "cpu_psp k \<noteq> 0" "sp \<noteq> 0"
    using assms(2,3) by (auto simp: psp_in_stack_def sp unat_u32_diff u32_eq_iff_unat)
  have saved: "context_saved k =
      os_save_current_task_stack_pointer sp (k\<lparr>pendsv_pending := False, task_memory := mem\<rparr>)"
    using psp(3) by (simp add: context_saved_def Let_def stmdb_eq push)
  have bounds: "tcb_stack_base (task_at k ?c) \<le> sp \<and> sp \<le> tcb_stack_top (task_at k ?c)"
    using assms(2) psp by (auto simp: psp_in_stack_def u32_le_unat)
  have wf: "sched_wf (k\<lparr>pendsv_pending := False, task_memory := mem\<rparr>)" using assms(1) by simp
  show "task_at (context_saved k) i = (if i = ?c
      then (task_at k i)\<lparr>tcb_stack_pointer := cpu_psp k - 32\<rparr> else task_at k i)"
    using sched_wfD(4,5) [OF assms(1)] bounds psp(4)
    unfolding saved save_stack_pointer_eq [OF wf] sp [symmetric] by (simp add: nth_update_if)
  have mem: "task_memory (context_saved k) = mem" by (simp add: saved)
  show "read_words (task_memory (context_saved k)) (cpu_psp k - 32) 8 = cpu_r4_r11 k"
    using read_pushed [OF _ push] len by (simp add: mem sp)
  show "task_memory (context_saved k) a = task_memory k a"
    if "unat (cpu_psp k - a) = 0 \<or> 32 < unat (cpu_psp k - a)"
    using pushed_frame [OF _ push, of a] len that by (simp add: mem)
qed

lemma PendSV_registers:
  assumes "sched_wf k" "PendSV_Handler k = Some k'"
  shows "tcb_stack_pointer (task_at k' i) = tcb_stack_pointer (task_at (context_saved k) i)"
    "task_memory k' = task_memory (context_saved k)"
    "cpu_psp k' = tcb_stack_pointer (task_at (context_saved k) (current_index k')) + 32"
    "cpu_r4_r11 k' = read_words (task_memory (context_saved k))
       (tcb_stack_pointer (task_at (context_saved k) (current_index k'))) 8"
proof -
  have wf: "sched_wf (context_saved k)" by (rule context_saved_wf [OF assms(1)])
  note kept = arg_cong [of _ _ tcb_stack_pointer, OF schedule_next_fields [OF wf]]
  let ?n = "snd (os_schedule_next (context_saved k))"
  have k': "k' = ?n\<lparr>cpu_r4_r11 := read_words (task_memory ?n)
      (tcb_stack_pointer (task_at ?n (current_index ?n))) 8,
      cpu_psp := tcb_stack_pointer (task_at ?n (current_index ?n)) + 32\<rparr>"
    using assms by (simp add: PendSV_Handler_eq Let_def)
  show "tcb_stack_pointer (task_at k' i) = tcb_stack_pointer (task_at (context_saved k) i)"
    using kept [of i] by (simp add: k')
  show "task_memory k' = task_memory (context_saved k)"
    by (simp add: k' schedule_next_simps [OF wf])
  show "cpu_psp k' = tcb_stack_pointer (task_at (context_saved k) (current_index k')) + 32"
    using kept [of "current_index ?n"] by (simp add: k')
  show "cpu_r4_r11 k' = read_words (task_memory (context_saved k))
       (tcb_stack_pointer (task_at (context_saved k) (current_index k'))) 8"
    using kept [of "current_index ?n"] by (simp add: k' schedule_next_simps [OF wf])
qed

lemma PendSV_regions:
  assumes "sched_wf k" "PendSV_Handler k = Some k'"
  shows "tcb_stack_base (task_at k' i) = tcb_stack_base (task_at k i)"
    "tcb_stack_top (task_at k' i) = tcb_stack_top (task_at k i)"
proof -
  have wf: "sched_wf (context_saved k)" by (rule context_saved_wf [OF assms(1)])
  have saved: "tcb_stack_base (task_at (context_saved k) i) = tcb_stack_base (task_at k i)"
    "tcb_stack_top (task_at (context_saved k) i) = tcb_stack_top (task_at k i)"
    by (simp_all add: context_saved_def Let_def stmdb_eq os_save_current_task_stack_pointer_def
        os_get_current_task_id_def task_set_stack_pointer_eq nth_update_if)
  obtain regs sp where k': "k' = (snd (os_schedule_next (context_saved k)))\<lparr>cpu_r4_r11 := regs, cpu_psp := sp\<rparr>"
    using assms by (auto simp: PendSV_Handler_eq Let_def)
  show "tcb_stack_base (task_at k' i) = tcb_stack_base (task_at k i)"
    using arg_cong [of _ _ tcb_stack_base, OF schedule_next_fields [OF wf, of i]] saved by (simp add: k')
  show "tcb_stack_top (task_at k' i) = tcb_stack_top (task_at k i)"
    using arg_cong [of _ _ tcb_stack_top, OF schedule_next_fields [OF wf, of i]] saved by (simp add: k')
qed

text \<open>The frame that another task's switch writes lies outside the stack of task \<open>c\<close>.\<close>

lemma other_stack:
  fixes p a :: u32
  assumes "d \<noteq> c" "g + 1024 * d + 32 \<le> unat p" "unat p \<le> g + 1024 * d + 1024"
    and "g + 1024 * c \<le> unat a" "unat a < g + 1024 * c + 1024" "g + 8192 \<le> 2 ^ 31 \<and> c < 8 \<and> d < 8"
  shows "unat (p - a) = 0 \<or> 32 < unat (p - a)"
proof (cases "d < c")
  case True
  then have "unat p \<le> unat a" using assms by simp
  then show ?thesis using assms by (auto simp: unat_u32_diff)
next
  case False
  then have "1024 * Suc c \<le> 1024 * d" using assms(1) by (intro mult_le_mono) auto
  then have "unat a + 32 < unat p" using assms by simp
  then show ?thesis by (simp add: unat_u32_diff)
qed

lemma saved_register_address:
  fixes p :: u32
  assumes "32 \<le> unat p" "unat p < 2 ^ 31" "j < 8"
  shows "unat (p - 32 + 4 * of_nat j) = unat p - 32 + 4 * j"
proof -
  have "unat (p - 32) = unat p - 32" using assms by (simp add: unat_u32_diff)
  moreover have "unat (4 * of_nat j :: u32) = 4 * j" using assms(3) unat_small_u32 [of "4 * j"] by simp
  ultimately show ?thesis using assms by (simp add: unat_word_ariths)
qed

text \<open>
  (C5) Context switch round trip: PendSV interrupts task \<open>c\<close> in \<open>k\<close>; later, while another
  task with its own stack runs, PendSV is taken in \<open>k2\<close> and resumes \<open>c\<close>. If nothing wrote to
  the stack of \<open>c\<close> or to its saved pointer in between, then \<open>c\<close> continues with the
  process stack pointer and the registers R4-R11 it was interrupted with, and its stack above
  that pointer (the frame stacked by the hardware included) is intact.
\<close>

theorem context_switch_round_trip:
  assumes "layout_ok L"
    and k: "sched_wf k" "stacks_wf L k" "psp_in_stack k (current_index k)" "PendSV_Handler k = Some k1"
    and k2: "sched_wf k2" "stacks_wf L k2" "psp_in_stack k2 (current_index k2)"
      "PendSV_Handler k2 = Some k3" "g_task_count k2 = g_task_count k"
    and c: "c = current_index k" "current_index k2 \<noteq> c" "current_index k3 = c"
    and kept: "tcb_stack_pointer (task_at k2 c) = tcb_stack_pointer (task_at k1 c)"
      "\<And>a. tcb_stack_base (task_at k c) \<le> a \<Longrightarrow> a < tcb_stack_top (task_at k c) \<Longrightarrow>
        task_memory k2 a = task_memory k1 a"
  shows "cpu_psp k3 = cpu_psp k \<and> cpu_r4_r11 k3 = cpu_r4_r11 k \<and>
    (\<forall>a. cpu_psp k \<le> a \<and> a < tcb_stack_top (task_at k c) \<longrightarrow> task_memory k3 a = task_memory k a)"
proof -
  let ?d = "current_index k2" and ?g = "unat (g_task_stacks_addr L)" and ?sp = "cpu_psp k - 32"
  have in_use: "c < task_total k" "?d < task_total k2"
    using sched_wfD(2) [OF k(1)] sched_wfD(2) [OF k2(1)] c(1) by simp_all
  note S = stacks_wfD [OF assms(1) k(2) sched_wfD(1) [OF k(1)] in_use(1)]
  note D = stacks_wfD [OF assms(1) k2(2) sched_wfD(1) [OF k2(1)] in_use(2)]
  have base: "32 \<le> unat (tcb_stack_base (task_at k (current_index k)))"
    "32 \<le> unat (tcb_stack_base (task_at k2 (current_index k2)))" using S D c(1) by simp_all
  note save = context_saved_effect [OF k(1) k(3) base(1)]
  note save2 = context_saved_effect [OF k2(1) k2(3) base(2)]
  have sp: "tcb_stack_pointer (task_at (context_saved k2) c) = ?sp"
    using save(1) [of c] save2(1) [of c] c(1,2) kept(1) PendSV_registers(1) [OF k(1,4), of c] by simp
  have psp: "?g + 1024 * c + 32 \<le> unat (cpu_psp k)" "unat (cpu_psp k) \<le> ?g + 1024 * c + 1024"
    using k(3) S c(1) by (simp_all add: psp_in_stack_def)
  have psp2: "?g + 1024 * ?d + 32 \<le> unat (cpu_psp k2)" "unat (cpu_psp k2) \<le> ?g + 1024 * ?d + 1024"
    using k2(3) D by (simp_all add: psp_in_stack_def)
  have mem: "task_memory (context_saved k2) a = task_memory (context_saved k) a"
    if a: "?g + 1024 * c \<le> unat a" "unat a < ?g + 1024 * c + 1024" for a
  proof -
    have "unat (cpu_psp k2 - a) = 0 \<or> 32 < unat (cpu_psp k2 - a)"
      by (rule other_stack [OF c(2) psp2 a]) (use S D in simp)
    then have "task_memory (context_saved k2) a = task_memory k2 a" by (rule save2(3))
    also have "\<dots> = task_memory k1 a"
      using a S by (intro kept(2)) (simp_all add: u32_le_unat u32_less_unat)
    also have "\<dots> = task_memory (context_saved k) a" by (simp add: PendSV_registers(2) [OF k(1,4)])
    finally show ?thesis .
  qed
  have "read_words (task_memory (context_saved k2)) ?sp 8 =
      read_words (task_memory (context_saved k)) ?sp 8"
  proof (rule read_words_cong)
    fix j :: nat assume j: "j < 8"
    then show "task_memory (context_saved k2) (?sp + 4 * of_nat j) =
        task_memory (context_saved k) (?sp + 4 * of_nat j)"
      using saved_register_address [of "cpu_psp k" j] psp S by (intro mem) simp_all
  qed
  then have regs: "cpu_r4_r11 k3 = cpu_r4_r11 k" "cpu_psp k3 = cpu_psp k"
    using PendSV_registers(3,4) [OF k2(1,4)] c(3) sp save(2) by simp_all
  have "task_memory k3 a = task_memory k a"
    if a: "cpu_psp k \<le> a" "a < tcb_stack_top (task_at k c)" for a
  proof -
    have "unat (cpu_psp k) \<le> unat a" "unat a < ?g + 1024 * c + 1024"
      using a S by (simp_all add: u32_le_unat u32_less_unat)
    then have "task_memory (context_saved k2) a = task_memory (context_saved k) a"
      using psp by (intro mem) simp_all
    moreover have "unat (cpu_psp k - a) = 0 \<or> 32 < unat (cpu_psp k - a)"
      using \<open>unat (cpu_psp k) \<le> unat a\<close> \<open>unat a < _\<close> psp S by (auto simp: unat_u32_diff)
    ultimately show ?thesis
      using save(3) [of a] PendSV_registers(2) [OF k2(1,4)] by simp
  qed
  with regs show ?thesis by simp
qed

definition stack_probe :: "'a kernel_scheme \<Rightarrow> nat \<Rightarrow> nat \<times> u32 \<times> u32 \<times> u32" where
  "stack_probe k i = (length (cpu_r4_r11 k), tcb_stack_base (task_at k i), cpu_psp k,
     tcb_stack_top (task_at k i))"

lemma psp_in_stack_probe:
  "stack_probe k i = (8, b, p, t) \<Longrightarrow> unat b + 32 \<le> unat p \<Longrightarrow> unat p \<le> unat t \<Longrightarrow> psp_in_stack k i"
  by (auto simp: stack_probe_def psp_in_stack_def)

lemma demo_probe0: "stack_probe demo_kernel 1 = (8, 0x20000500, 0x200008E0, 0x20000900)"
  by (simp add: stack_probe_def demo_kernel_fields demo_table_unfold demo_tcb_def)

lemma demo_stacks0: "stacks_wf demo_layout demo_kernel"
proof -
  have three: "i < 3 \<longleftrightarrow> i \<in> {0, 1, 2}" for i :: nat by auto
  show ?thesis
    by (simp add: stacks_wf_def demo_kernel_fields three demo_table_unfold demo_tcb_def stack_base_addr_def
        stack_top_addr_def demo_layout_def)
qed

lemma demo_task2:
  "tcb_stack_base (task_at demo_kernel 2) = 0x20000900 \<and> tcb_stack_top (task_at demo_kernel 2) = 0x20000D00 \<and>
   tcb_stack_pointer (task_at demo_kernel 2) = 0x20000CC0"
  by (simp add: stack_probe_def demo_kernel_fields demo_table_unfold demo_tcb_def)

lemma demo_first_switch: "PendSV_Handler demo_kernel = Some (demo_switch 1)"
  using demo_switch_step [of 0] by (simp add: demo_switch_def)

lemma demo_second_switch: "PendSV_Handler (demo_switch 1) = Some (demo_switch 2)"
  using demo_switch_step [of 1] by (simp add: numeral_2_eq_2)

lemma demo_current1: "current_index (demo_switch 1) = 2"
  using PendSV_effect(2) [OF kernel_wfD(1) [OF demo_kernel_wf] demo_first_switch] demo_kernel_chosen
  by simp

lemma demo_current2: "current_index (demo_switch 2) = 1"
proof -
  have wf: "sched_wf (demo_switch 1)" "task_total (demo_switch 1) = 3" using demo_switch_wf [of 1] by simp_all
  have "runnable (demo_switch 1) 1"
    using PendSV_effect(4) [OF kernel_wfD(1) [OF demo_kernel_wf] demo_first_switch, of 1] demo_kernel_tasks
    by (auto simp: runnable_def)
  then have "chosen (demo_switch 1) = 1"
    using wf demo_current1 by (simp add: chosen_eq_selected demo_ring(2) [simplified])
  then show ?thesis using PendSV_effect(2) [OF wf(1) demo_second_switch] by simp
qed

lemma demo_stacks1: "stacks_wf demo_layout (demo_switch 1)"
  using demo_stacks0 PendSV_regions [OF kernel_wfD(1) [OF demo_kernel_wf] demo_first_switch]
    PendSV_effect(5) [OF kernel_wfD(1) [OF demo_kernel_wf] demo_first_switch]
  by (simp add: stacks_wf_def)

lemma demo_psp0: "psp_in_stack demo_kernel 1"
  by (rule psp_in_stack_probe [OF demo_probe0]) simp_all

lemma demo_psp1: "psp_in_stack (demo_switch 1) 2"
proof (rule psp_in_stack_probe)
  note wf = kernel_wfD(1) [OF demo_kernel_wf]
  have cur: "current_index demo_kernel = 1" using demo_kernel_tasks(2) by simp
  have "32 \<le> unat (tcb_stack_base (task_at demo_kernel 1))"
    using demo_probe0 by (simp add: stack_probe_def)
  then have "task_at (context_saved demo_kernel) 2 = task_at demo_kernel 2"
    using context_saved_effect(1) [OF wf, of 2] demo_psp0 cur by simp
  then show "stack_probe (demo_switch 1) 2 = (8, 0x20000900, 0x20000CE0, 0x20000D00)"
    using PendSV_regions [OF wf demo_first_switch, of 2] PendSV_registers(3,4) [OF wf demo_first_switch]
      demo_current1 demo_task2
    by (simp add: stack_probe_def read_words_def)
qed simp_all

lemmas demo_switch_stacks = demo_stacks0 demo_psp0 demo_stacks1 demo_psp1 demo_current1 demo_current2

theorem context_switch_round_trip_witness:
  "cpu_psp (demo_switch 2) = cpu_psp demo_kernel \<and> cpu_r4_r11 (demo_switch 2) = cpu_r4_r11 demo_kernel"
proof -
  have cur: "current_index demo_kernel = 1" using demo_kernel_tasks(2) by simp
  have count: "g_task_count (demo_switch 1) = g_task_count demo_kernel"
    using demo_switch_wf [of 1] demo_kernel_tasks(1) by (simp add: u32_eq_iff_unat)
  show ?thesis
    using context_switch_round_trip [OF demo_layout_ok kernel_wfD(1) [OF demo_kernel_wf]
        demo_switch_stacks(1) _ demo_first_switch
        conjunct1 [OF demo_switch_wf] demo_switch_stacks(3) _ demo_second_switch count
        refl, simplified cur] demo_switch_stacks cur
    by simp
qed

end
