(* ===== verification/Wait_Scan.thy ===== *)
theory Wait_Scan
  imports Interrupts
begin

text \<open>
  What the wait lists of mutexes and semaphores share: waiting tasks are bits of a mask, the
  next one is searched in circular order, a bit without a BLOCKED task is dropped on the way.
  \<open>waiting_scan\<close> is the common loop on masks; the loops of \<open>mutex.c\<close> and \<open>semaphore.c\<close> are
  proved equal to it, so its closed form serves both. The locale \<open>blocking_object\<close> is the
  contract by which the state of such an object depends on the tasks: only on which tasks
  are inside its wait operation and which of them are BLOCKED.
\<close>

section \<open>The scan\<close>

definition task_blocked :: "'a task_system_scheme \<Rightarrow> nat \<Rightarrow> bool" where
  "task_blocked k i \<longleftrightarrow> i < task_total k \<and> state_of k i = TASK_STATE_BLOCKED"

fun waiting_scan :: "nat list \<Rightarrow> u32 \<Rightarrow> 'a task_system_scheme \<Rightarrow> u32 \<Rightarrow> u32 option \<times> u32" where
  "waiting_scan [] start s bits = (None, bits)"
| "waiting_scan (offset # offsets) start s bits =
     (let candidate_id = (start + of_nat offset) mod task_get_count s in
      if candidate_id = 0 then waiting_scan offsets start s bits
      else if bits AND task_bit (unat candidate_id) = 0 then waiting_scan offsets start s bits
      else if task_blocked s (unat candidate_id) then (Some candidate_id, bits)
      else waiting_scan offsets start s (bits AND NOT (task_bit (unat candidate_id))))"

lemma waiting_scan_result:
  assumes "task_total s \<le> 8" "unat start < task_total s"
    and "\<forall>d \<in> set ds. d \<le> task_total s"
  shows "fst (waiting_scan ds start s bits) =
    map_option of_nat (find (\<lambda>i. i \<noteq> 0 \<and> bit bits i \<and> task_blocked s i)
      (map (\<lambda>d. (unat start + d) mod task_total s) ds))"
  using assms(3)
proof (induction ds arbitrary: bits)
  case Nil
  then show ?case by simp
next
  case (Cons d ds)
  let ?w = "(start + of_nat d) mod g_task_count s"
  let ?i = "(unat start + d) mod task_total s" and ?is = "map (\<lambda>d. (unat start + d) mod task_total s) ds"
  have w: "unat ?w = ?i"
    by (rule candidate_valid) (use assms(1,2) Cons.prems in simp_all)
  have "?i < task_total s" using assms(2) by simp
  then have i: "?i < 32" using assms(1) by linarith
  have conv: "of_nat ?i = ?w" unfolding w [symmetric] by simp
  have zero: "?w = 0 \<longleftrightarrow> ?i = 0" unfolding w [symmetric] by (simp add: unat_eq_0)
  have IH: "fst (waiting_scan ds start s bits') =
      map_option of_nat (find (\<lambda>i. i \<noteq> 0 \<and> bit bits' i \<and> task_blocked s i) ?is)" for bits'
    using Cons by simp
  have skip: "find (\<lambda>i. i \<noteq> 0 \<and> bit (bits AND NOT (task_bit ?i)) i \<and> task_blocked s i) ?is =
      find (\<lambda>i. i \<noteq> 0 \<and> bit bits i \<and> task_blocked s i) ?is" if "\<not> task_blocked s ?i"
    using that by (intro find_cong_set) (auto simp: bit_clear_task_bit)
  show ?case
    unfolding waiting_scan.simps Let_def task_get_count_def zero w
    using IH skip conv i by (simp add: and_task_bit)
qed

text \<open>The scan keeps a mask without stale bits.\<close>

lemma waiting_scan_keeps:
  assumes "task_total s \<le> 8" "unat start < task_total s" "\<forall>d \<in> set ds. d \<le> task_total s"
    and "\<And>i. 0 < i \<Longrightarrow> bit bits i \<Longrightarrow> task_blocked s i"
  shows "snd (waiting_scan ds start s bits) = bits"
  using assms(3)
proof (induction ds)
  case Nil
  then show ?case by simp
next
  case (Cons d ds)
  let ?w = "(start + of_nat d) mod g_task_count s"
  have w: "unat ?w = (unat start + d) mod task_total s"
    by (rule candidate_valid) (use assms(1,2) Cons.prems in simp_all)
  have "unat ?w < task_total s" unfolding w using assms(2) by simp
  then have small: "unat ?w < 32" using assms(1) by simp
  show ?case
    using Cons assms(4) [of "unat ?w"] small
    by (auto simp: Let_def task_get_count_def and_task_bit unat_gt_0)
qed

text \<open>The whole scan, as the search contract states it.\<close>

definition wanted :: "'a task_system_scheme \<Rightarrow> u32 \<Rightarrow> nat \<Rightarrow> bool" where
  "wanted s bits i \<longleftrightarrow> bit bits i \<and> task_blocked s i"

lemma waiting_scan_ring:
  assumes "task_total s \<le> 8" "unat start < task_total s"
  shows "fst (waiting_scan [1..<Suc (task_total s)] start s bits) =
    map_option of_nat (find (\<lambda>i. i \<noteq> 0 \<and> wanted s bits i) (ring_order (unat start) (task_total s)))"
  unfolding ring_order_def wanted_def
  by (rule waiting_scan_result [OF assms]) auto

text \<open>\<open>0xFFFFFFFF\<close> stands for "no task" in both services.\<close>

definition found_task :: "u32 \<Rightarrow> nat option" where
  "found_task i = (if i = 0xFFFFFFFF then None else Some (unat i))"

lemma found_task_scan:
  assumes "task_total s \<le> 8" "unat start < task_total s"
  shows "found_task (case fst (waiting_scan [1..<Suc (task_total s)] start s bits) of
      None \<Rightarrow> 0xFFFFFFFF | Some i \<Rightarrow> i) =
    find (\<lambda>i. i \<noteq> 0 \<and> wanted s bits i) (ring_order (unat start) (task_total s))"
proof (cases "find (\<lambda>i. i \<noteq> 0 \<and> wanted s bits i) (ring_order (unat start) (task_total s))")
  case None
  then show ?thesis unfolding waiting_scan_ring [OF assms] by (simp add: found_task_def)
next
  case (Some i)
  then have "i < 8" using find_range [OF Some assms(2)] assms(1) by simp
  then have "(of_nat i :: u32) \<noteq> 0xFFFFFFFF" by (simp add: u32_eq_iff_unat)
  with Some \<open>i < 8\<close> show ?thesis unfolding waiting_scan_ring [OF assms] by (simp add: found_task_def)
qed

section \<open>Which tasks are BLOCKED\<close>

lemma task_blocked_update:
  "i < length (g_task_table s) \<Longrightarrow> task_blocked (update_task i f s) j =
    (if j = i then i < task_total s \<and> tcb_state (f (task_at s i)) = TASK_STATE_BLOCKED else task_blocked s j)"
  by (simp add: task_blocked_def nth_update_if)

lemma task_blocked_irrelevant [simp]:
  "task_blocked (k\<lparr>task_memory := mem\<rparr>) = task_blocked k"
  "task_blocked (k\<lparr>cpu_primask := v\<rparr>) = task_blocked k"
  "task_blocked (k\<lparr>cpu_psp := v\<rparr>) = task_blocked k"
  "task_blocked (k\<lparr>cpu_r4_r11 := regs\<rparr>) = task_blocked k"
  "task_blocked (k\<lparr>pendsv_pending := b\<rparr>) = task_blocked k"
  "task_blocked (k\<lparr>g_scheduler_tick_count := v\<rparr>) = task_blocked k"
  "task_blocked (k\<lparr>g_preemption_enabled := v\<rparr>) = task_blocked k"
  by (simp_all add: task_blocked_def fun_eq_iff)

text \<open>
  Interrupts, the scheduler calls and computation never block or unblock a task: only the
  services do.
\<close>

lemma systick_blocked:
  assumes "kernel_wf k"
  shows "task_blocked (systick_handler k) i = task_blocked k i"
proof (cases "i < task_total k")
  case True
  then have "task_at (systick_handler k) i = woken (g_os_ticks k + 1) (task_at k i)"
    and "g_task_count (systick_handler k) = g_task_count k"
    using sched_wfD(3,4) [OF kernel_wfD(1) [OF assms]]
    by (simp_all add: systick_handler_eq [OF kernel_wfD(1-3) [OF assms]] ticked_def)
  then show ?thesis by (simp add: task_blocked_def woken_def wakes_at_def)
next
  case False
  then show ?thesis
    by (simp add: task_blocked_def systick_handler_eq [OF kernel_wfD(1-3) [OF assms]] ticked_def)
qed

lemma PendSV_blocked:
  assumes "sched_wf k" "PendSV_Handler k = Some k'"
  shows "task_blocked k' i = task_blocked k i"
proof (cases "i < task_total k")
  case True
  have "state_of k (chosen k) \<noteq> TASK_STATE_BLOCKED"
    using chosen_runnable [OF assms(1)] by (auto simp: runnable_def)
  then show ?thesis
    using PendSV_effect(4) [OF assms, of i] PendSV_effect(5) [OF assms] True by (auto simp: task_blocked_def)
next
  case False
  then show ?thesis using PendSV_effect(5) [OF assms] by (simp add: task_blocked_def)
qed

lemma kernel_step_blocked:
  "kernel_step k t k' \<Longrightarrow> kernel_wf k \<Longrightarrow> task_blocked k' = task_blocked k \<and> g_task_count k' = g_task_count k"
proof (induction rule: kernel_step.induct)
  case (systick k)
  then show ?case
    using systick_blocked [of k]
    by (simp add: fun_eq_iff systick_handler_eq [OF kernel_wfD(1-3)] ticked_def)
next
  case (pendsv k k')
  then show ?case
    using PendSV_blocked [OF kernel_wfD(1), of k k'] PendSV_effect(5) [OF kernel_wfD(1), of k k']
    by (simp add: fun_eq_iff)
next
  case (yield k)
  then show ?case by (simp add: os_yield_def machine_ops)
next
  case (sleep k w)
  then have running: "\<not> task_blocked k (current_index k)"
    using kernel_wfD(7) [of k] by (auto simp: task_blocked_def)
  have "current_index k < length (g_task_table k)" using sched_wfD(4,5) [OF kernel_wfD(1), of k] sleep by simp
  with sleep running show ?case
    by (auto simp: os_sleep_critical_eq fun_eq_iff task_blocked_update)
next
  case (enable k)
  then show ?case by (simp add: os_scheduler_enable_preemption_def)
next
  case (disable k)
  then show ?case by (simp add: os_scheduler_disable_preemption_def)
next
  case (compute k regs sp mem)
  then show ?case by simp
qed

section \<open>Callers and waiters\<close>

text \<open>What a pass through the wait loop ends with: a \<open>return\<close>, or the loop goes round.\<close>

datatype loop_outcome = Return int | Again

text \<open>A pass made by a running application task.\<close>

definition running_task :: "'a kernel_scheme \<Rightarrow> nat \<Rightarrow> bool" where
  "running_task k i \<longleftrightarrow> kernel_wf k \<and> thread_active k \<and> i = current_index k \<and> i \<noteq> 0"

lemma running_taskD:
  assumes "running_task k i"
  shows "kernel_wf k" "thread_active k" "g_current_task_id k = of_nat i" "0 < i" "i < task_total k"
    "i < 8" "state_of k i = TASK_STATE_RUNNING" "\<not> task_blocked k i" "cpu_primask k = 0"
    "i < length (g_task_table k)" "unat (g_current_task_id k) = i"
  using assms sched_wfD(2,4,5) [OF kernel_wfD(1), of k] kernel_wfD(4,7) [of k]
  by (auto simp: running_task_def task_blocked_def)

text \<open>What the services do to a caller that has to wait.\<close>

definition blocked_caller :: "nat \<Rightarrow> 'a kernel_scheme \<Rightarrow> 'a kernel_scheme" where
  "blocked_caller i k =
     (update_task i (\<lambda>t. t\<lparr>tcb_wakeup_tick := 0, tcb_state := TASK_STATE_BLOCKED\<rparr>) k)\<lparr>pendsv_pending := True\<rparr>"

lemma blocked_caller_simps [simp]:
  "g_task_count (blocked_caller i k) = g_task_count k"
  "g_current_task_id (blocked_caller i k) = g_current_task_id k"
  by (simp_all add: blocked_caller_def)

lemma block_running_task:
  assumes "running_task k i"
  shows "task_block (of_nat i) (k\<lparr>cpu_primask := 1\<rparr>) =
    (TASK_OK, update_task i (\<lambda>t. t\<lparr>tcb_wakeup_tick := 0, tcb_state := TASK_STATE_BLOCKED\<rparr>)
       (k\<lparr>cpu_primask := 1\<rparr>))"
  using running_taskD [OF assms] by (simp add: task_block_eq u32_eq_iff_unat)

text \<open>A waiter that is made READY.\<close>

definition readied :: "nat \<Rightarrow> 'a kernel_scheme \<Rightarrow> 'a kernel_scheme" where
  "readied j k = update_task j (\<lambda>t. t\<lparr>tcb_wakeup_tick := 0, tcb_state := TASK_STATE_READY\<rparr>) k"

lemma unblock_waiter:
  assumes "task_blocked k j" "0 < j" "j < 8"
  shows "task_unblock (of_nat j) (k\<lparr>cpu_primask := q\<rparr>) = (TASK_OK, (readied j k)\<lparr>cpu_primask := q\<rparr>)"
proof -
  have "(of_nat j :: u32) \<noteq> 0" using assms(2,3) by (simp add: u32_eq_iff_unat)
  then show ?thesis
    using assms by (simp add: task_unblock_eq task_blocked_def readied_def update_task_def)
qed

lemma readied_simps [simp]:
  "g_task_count (readied j k) = g_task_count k"
  "g_current_task_id (readied j k) = g_current_task_id k"
  by (simp_all add: readied_def)

lemma readied_blocked:
  "task_blocked k j \<Longrightarrow> j < length (g_task_table k) \<Longrightarrow> task_blocked (readied j k) = (task_blocked k)(j := False)"
  by (auto simp: readied_def fun_eq_iff task_blocked_update)

lemma blocked_caller_blocked:
  "running_task k i \<Longrightarrow> task_blocked (blocked_caller i k) = (task_blocked k)(i := True)"
  using running_taskD(5,10) [of k i]
  by (auto simp: blocked_caller_def fun_eq_iff task_blocked_update)

lemma waiting_scan_primask [simp]: "waiting_scan ds start (k\<lparr>cpu_primask := v\<rparr>) bits = waiting_scan ds start k bits"
  for k :: "'a kernel_scheme"
  by (induction ds arbitrary: bits) (simp_all add: task_get_count_def Let_def)

section \<open>The contract of a blocking object\<close>

text \<open>
  \<open>ok n B P x\<close>: the object \<open>x\<close> of a system of \<open>n\<close> tasks is consistent when \<open>B\<close> are the
  BLOCKED tasks and \<open>P\<close> the tasks inside its wait operation; \<open>waits\<close> are its registered
  waiters, \<open>available\<close> says that its wait operation would not block.
\<close>

locale blocking_object =
  fixes ok :: "nat \<Rightarrow> (nat \<Rightarrow> bool) \<Rightarrow> nat set \<Rightarrow> 'o \<Rightarrow> bool"
    and waits :: "'o \<Rightarrow> nat \<Rightarrow> bool"
    and available :: "'o \<Rightarrow> bool"
  assumes ok_cong: "ok n B P x \<Longrightarrow> (\<And>i. i \<in> P \<Longrightarrow> B' i = B i) \<Longrightarrow> ok n B' P x"
    and ok_enter: "ok n B P x \<Longrightarrow> i \<notin> P \<Longrightarrow> 0 < i \<Longrightarrow> i < n \<Longrightarrow> \<not> B i \<Longrightarrow> ok n B (insert i P) x"
    and ok_range: "ok n B P x \<Longrightarrow> i \<in> P \<Longrightarrow> 0 < i \<and> i < n"
    and registered: "ok n B P x \<Longrightarrow> i \<in> P \<Longrightarrow> B i \<Longrightarrow> waits x i"
    and waits_inside: "ok n B P x \<Longrightarrow> waits x i \<Longrightarrow> i \<in> P"
    and available_no_waits: "ok n B P x \<Longrightarrow> available x \<Longrightarrow> \<not> waits x i"
begin

text \<open>No lost wakeup: while the object is available nobody is BLOCKED on it.\<close>

lemma no_lost_wakeup: "ok n B P x \<Longrightarrow> available x \<Longrightarrow> i \<in> P \<Longrightarrow> \<not> B i"
  using registered available_no_waits by blast

end

end
