(* ===== verification/Mutex.thy ===== *)
theory Mutex
  imports Wait_Scan
begin

text \<open>
  The mutex service (\<open>kernel/mutex.h\<close>, \<open>kernel/mutex.c\<close>). A mutex pointer is an option
  (\<open>None\<close> is the null pointer). \<open>os_mutex_lock\<close> is its prologue followed by a loop whose
  body is one critical section; the body is \<open>mutex_lock_iteration\<close>, and what the rest of the
  system does while the caller is off the processor between two iterations is the parameter
  \<open>env\<close> of the whole operation.
\<close>

section \<open>Constants and types of mutex.h\<close>

abbreviation (input) OS_MUTEX_OK :: int where "OS_MUTEX_OK \<equiv> 0"
abbreviation (input) OS_MUTEX_ERROR_NULL_POINTER :: int where "OS_MUTEX_ERROR_NULL_POINTER \<equiv> - 1"
abbreviation (input) OS_MUTEX_ERROR_NOT_INITIALIZED :: int where "OS_MUTEX_ERROR_NOT_INITIALIZED \<equiv> - 2"
abbreviation (input) OS_MUTEX_ERROR_INVALID_CONTEXT :: int where "OS_MUTEX_ERROR_INVALID_CONTEXT \<equiv> - 3"
abbreviation (input) OS_MUTEX_ERROR_RECURSIVE_LOCK :: int where "OS_MUTEX_ERROR_RECURSIVE_LOCK \<equiv> - 4"
abbreviation (input) OS_MUTEX_ERROR_NOT_OWNER :: int where "OS_MUTEX_ERROR_NOT_OWNER \<equiv> - 5"
abbreviation (input) OS_MUTEX_ERROR_TASK_OPERATION :: int where "OS_MUTEX_ERROR_TASK_OPERATION \<equiv> - 6"
abbreviation (input) OS_MUTEX_ERROR_INTERRUPTS_DISABLED :: int where "OS_MUTEX_ERROR_INTERRUPTS_DISABLED \<equiv> - 7"

abbreviation (input) OS_MUTEX_INITIALIZED :: u32 where "OS_MUTEX_INITIALIZED \<equiv> 1"
abbreviation (input) OS_MUTEX_UNLOCKED :: u32 where "OS_MUTEX_UNLOCKED \<equiv> 0"
abbreviation (input) OS_MUTEX_LOCKED :: u32 where "OS_MUTEX_LOCKED \<equiv> 1"
abbreviation (input) OS_MUTEX_INVALID_OWNER_ID :: u32 where "OS_MUTEX_INVALID_OWNER_ID \<equiv> 0xFFFFFFFF"

record os_mutex_t =
  mx_is_initialized :: u32
  mx_is_locked :: u32
  mx_owner_task_id :: u32
  mx_waiting_task_mask :: u32

section \<open>Operations of mutex.c\<close>

definition mutex_task_mask :: "u32 \<Rightarrow> u32" where
  "mutex_task_mask task_id = push_bit (unat task_id) 1"

definition mutex_is_valid_task_context :: "u32 \<Rightarrow> 'a kernel_scheme \<Rightarrow> u32" where
  "mutex_is_valid_task_context task_id k =
     (if os_scheduler_get_state k \<noteq> SCHEDULER_STATE_RUNNING then 0
      else if os_context_switch_is_started k = 0 then 0
      else if task_id = SCHEDULER_INVALID_TASK_ID \<or> task_id = TASK_IDLE_TASK_ID \<or>
              task_id \<ge> task_get_count k then 0
      else 1)"

fun mutex_find_loop ::
  "nat list \<Rightarrow> u32 \<Rightarrow> u32 \<Rightarrow> 'a task_system_scheme \<Rightarrow> os_mutex_t \<Rightarrow> u32 \<times> os_mutex_t"
where
  "mutex_find_loop [] owner_task_id task_count s mutex = (OS_MUTEX_INVALID_OWNER_ID, mutex)"
| "mutex_find_loop (offset # offsets) owner_task_id task_count s mutex =
     (let candidate_id = (owner_task_id + of_nat offset) mod task_count in
      if candidate_id = TASK_IDLE_TASK_ID then mutex_find_loop offsets owner_task_id task_count s mutex
      else
        let candidate_mask = mutex_task_mask candidate_id in
        if mx_waiting_task_mask mutex AND candidate_mask = 0
        then mutex_find_loop offsets owner_task_id task_count s mutex
        else if (case task_get_by_id candidate_id s of None \<Rightarrow> False
                 | Some candidate_task \<Rightarrow> tcb_state candidate_task = TASK_STATE_BLOCKED)
        then (candidate_id, mutex)
        else mutex_find_loop offsets owner_task_id task_count s
               (mutex\<lparr>mx_waiting_task_mask := mx_waiting_task_mask mutex AND NOT candidate_mask\<rparr>))"

definition mutex_find_next_waiting_task ::
  "os_mutex_t \<Rightarrow> u32 \<Rightarrow> 'a task_system_scheme \<Rightarrow> u32 \<times> os_mutex_t"
where
  "mutex_find_next_waiting_task mutex owner_task_id s =
     mutex_find_loop [1..<Suc (unat (task_get_count s))] owner_task_id (task_get_count s) s mutex"

definition os_mutex_init :: "os_mutex_t option \<Rightarrow> int \<times> os_mutex_t option" where
  "os_mutex_init mutex =
     (case mutex of
        None \<Rightarrow> (OS_MUTEX_ERROR_NULL_POINTER, None)
      | Some m \<Rightarrow>
          (OS_MUTEX_OK,
           Some (m\<lparr>mx_is_locked := OS_MUTEX_UNLOCKED, mx_owner_task_id := OS_MUTEX_INVALID_OWNER_ID,
                   mx_waiting_task_mask := 0, mx_is_initialized := OS_MUTEX_INITIALIZED\<rparr>)))"

text \<open>One pass through the loop of \<open>os_mutex_lock\<close>.\<close>

definition mutex_lock_iteration ::
  "u32 \<Rightarrow> os_mutex_t \<Rightarrow> 'a kernel_scheme \<Rightarrow> loop_outcome \<times> os_mutex_t \<times> 'a kernel_scheme"
where
  "mutex_lock_iteration current_task_id mutex k =
     (let current_task_mask = mutex_task_mask current_task_id;
          (irq_state, k1) = os_irq_save k
      in
      if mx_is_initialized mutex \<noteq> OS_MUTEX_INITIALIZED then
        (Return OS_MUTEX_ERROR_NOT_INITIALIZED, mutex, os_irq_restore irq_state k1)
      else if mx_is_locked mutex = OS_MUTEX_UNLOCKED then
        (Return OS_MUTEX_OK,
         mutex\<lparr>mx_is_locked := OS_MUTEX_LOCKED, mx_owner_task_id := current_task_id,
               mx_waiting_task_mask := mx_waiting_task_mask mutex AND NOT current_task_mask\<rparr>,
         os_irq_restore irq_state k1)
      else if mx_owner_task_id mutex = current_task_id then
        (if mx_waiting_task_mask mutex AND current_task_mask \<noteq> 0 then
           (Return OS_MUTEX_OK,
            mutex\<lparr>mx_waiting_task_mask := mx_waiting_task_mask mutex AND NOT current_task_mask\<rparr>,
            os_irq_restore irq_state k1)
         else (Return OS_MUTEX_ERROR_RECURSIVE_LOCK, mutex, os_irq_restore irq_state k1))
      else if irq_state \<noteq> 0 then
        (Return OS_MUTEX_ERROR_INTERRUPTS_DISABLED, mutex, os_irq_restore irq_state k1)
      else
        let mutex1 = mutex\<lparr>mx_waiting_task_mask := mx_waiting_task_mask mutex OR current_task_mask\<rparr>;
            (task_status, k2) = task_block current_task_id k1
        in
        if task_status \<noteq> TASK_OK then
          (Return OS_MUTEX_ERROR_TASK_OPERATION,
           mutex1\<lparr>mx_waiting_task_mask := mx_waiting_task_mask mutex1 AND NOT current_task_mask\<rparr>,
           os_irq_restore irq_state k2)
        else (Again, mutex1, os_irq_restore irq_state (os_trigger_context_switch k2)))"

text \<open>The checks before the loop: \<open>Inl\<close> an error, \<open>Inr\<close> the caller's identifier.\<close>

definition mutex_lock_prologue :: "os_mutex_t option \<Rightarrow> 'a kernel_scheme \<Rightarrow> int + u32" where
  "mutex_lock_prologue mutex k =
     (case mutex of
        None \<Rightarrow> Inl OS_MUTEX_ERROR_NULL_POINTER
      | Some m \<Rightarrow>
          if mx_is_initialized m \<noteq> OS_MUTEX_INITIALIZED then Inl OS_MUTEX_ERROR_NOT_INITIALIZED
          else
            let current_task_id = os_get_current_task_id k in
            if mutex_is_valid_task_context current_task_id k = 0
            then Inl OS_MUTEX_ERROR_INVALID_CONTEXT
            else Inr current_task_id)"

partial_function (option) mutex_lock_loop ::
  "(os_mutex_t \<times> 'a kernel_scheme \<Rightarrow> os_mutex_t \<times> 'a kernel_scheme) \<Rightarrow> u32 \<Rightarrow>
   os_mutex_t \<times> 'a kernel_scheme \<Rightarrow> (int \<times> os_mutex_t \<times> 'a kernel_scheme) option"
where
  "mutex_lock_loop env current_task_id mk =
     (case mutex_lock_iteration current_task_id (fst mk) (snd mk) of
        (Return status, mk') \<Rightarrow> Some (status, mk')
      | (Again, mk') \<Rightarrow> mutex_lock_loop env current_task_id (env mk'))"

definition os_mutex_lock ::
  "(os_mutex_t \<times> 'a kernel_scheme \<Rightarrow> os_mutex_t \<times> 'a kernel_scheme) \<Rightarrow>
   os_mutex_t option \<Rightarrow> 'a kernel_scheme \<Rightarrow> (int \<times> os_mutex_t option \<times> 'a kernel_scheme) option"
where
  "os_mutex_lock env mutex k =
     (case mutex_lock_prologue mutex k of
        Inl status \<Rightarrow> Some (status, mutex, k)
      | Inr current_task_id \<Rightarrow>
          (case mutex of
             None \<Rightarrow> None
           | Some m \<Rightarrow>
               map_option (\<lambda>(status, m', k'). (status, Some m', k'))
                 (mutex_lock_loop env current_task_id (m, k))))"

definition os_mutex_unlock ::
  "os_mutex_t option \<Rightarrow> 'a kernel_scheme \<Rightarrow> int \<times> os_mutex_t option \<times> 'a kernel_scheme"
where
  "os_mutex_unlock mutex k =
     (case mutex of
        None \<Rightarrow> (OS_MUTEX_ERROR_NULL_POINTER, None, k)
      | Some m \<Rightarrow>
          if mx_is_initialized m \<noteq> OS_MUTEX_INITIALIZED then
            (OS_MUTEX_ERROR_NOT_INITIALIZED, Some m, k)
          else
            let current_task_id = os_get_current_task_id k in
            if mutex_is_valid_task_context current_task_id k = 0 then
              (OS_MUTEX_ERROR_INVALID_CONTEXT, Some m, k)
            else
              let (irq_state, k1) = os_irq_save k in
              if mx_is_locked m \<noteq> OS_MUTEX_LOCKED \<or> mx_owner_task_id m \<noteq> current_task_id then
                (OS_MUTEX_ERROR_NOT_OWNER, Some m, os_irq_restore irq_state k1)
              else
                let (next_owner_task_id, m1) = mutex_find_next_waiting_task m current_task_id k1 in
                if next_owner_task_id = OS_MUTEX_INVALID_OWNER_ID then
                  (OS_MUTEX_OK,
                   Some (m1\<lparr>mx_is_locked := OS_MUTEX_UNLOCKED,
                            mx_owner_task_id := OS_MUTEX_INVALID_OWNER_ID\<rparr>),
                   os_irq_restore irq_state k1)
                else
                  let (task_status, k2) = task_unblock next_owner_task_id k1 in
                  if task_status \<noteq> TASK_OK then
                    (OS_MUTEX_ERROR_TASK_OPERATION, Some m1, os_irq_restore irq_state k2)
                  else
                    (OS_MUTEX_OK,
                     Some (m1\<lparr>mx_owner_task_id := next_owner_task_id, mx_is_locked := OS_MUTEX_LOCKED\<rparr>),
                     os_irq_restore irq_state k2))"

section \<open>The search for the next owner\<close>

lemma mutex_task_mask_eq [mask_simps]: "mutex_task_mask i = task_bit (unat i)"
  by (simp add: mutex_task_mask_def task_bit_def)

lemma blocked_entry [mask_simps]:
  "(case task_get_by_id i s of None \<Rightarrow> False | Some t \<Rightarrow> tcb_state t = TASK_STATE_BLOCKED) =
    task_blocked s (unat i)"
  by (simp add: task_get_by_id_eq task_blocked_def)

lemma mutex_find_loop_eq:
  "mutex_find_loop ds owner (task_get_count s) s m =
    (case waiting_scan ds owner s (mx_waiting_task_mask m) of
       (r, bits) \<Rightarrow> ((case r of None \<Rightarrow> 0xFFFFFFFF | Some i \<Rightarrow> i), m\<lparr>mx_waiting_task_mask := bits\<rparr>))"
proof (induction ds arbitrary: m)
  case Nil
  then show ?case by simp
next
  case (Cons d ds)
  then show ?case
    unfolding mutex_find_loop.simps waiting_scan.simps Let_def mutex_task_mask_eq blocked_entry
    by simp
qed

lemma mutex_find_eq:
  "mutex_find_next_waiting_task m owner s =
    (case waiting_scan [1..<Suc (task_total s)] owner s (mx_waiting_task_mask m) of
       (r, bits) \<Rightarrow> ((case r of None \<Rightarrow> 0xFFFFFFFF | Some i \<Rightarrow> i), m\<lparr>mx_waiting_task_mask := bits\<rparr>))"
  unfolding mutex_find_next_waiting_task_def mutex_find_loop_eq unfolding task_get_count_def by (rule refl)

definition next_owner :: "os_mutex_t \<times> 'a kernel_scheme \<Rightarrow> nat option" where
  "next_owner mk =
     found_task (fst (mutex_find_next_waiting_task (fst mk) (mx_owner_task_id (fst mk)) (snd mk)))"

text \<open>The owner of a locked mutex is a task in use; then the search meets the contract.\<close>

definition owned :: "os_mutex_t \<times> 'a kernel_scheme \<Rightarrow> bool" where
  "owned mk \<longleftrightarrow> sched_wf (snd mk) \<and> unat (mx_owner_task_id (fst mk)) < task_total (snd mk)"

lemma next_owner_eq:
  assumes "owned mk"
  shows "next_owner mk = find (\<lambda>i. i \<noteq> 0 \<and> wanted (snd mk) (mx_waiting_task_mask (fst mk)) i)
    (ring_order (unat (mx_owner_task_id (fst mk))) (task_total (snd mk)))"
proof -
  have "task_total (snd mk) \<le> 8" "unat (mx_owner_task_id (fst mk)) < task_total (snd mk)"
    using assms sched_wfD(3) by (auto simp: owned_def)
  note scan = found_task_scan [OF this, of "mx_waiting_task_mask (fst mk)"]
  show ?thesis
    unfolding next_owner_def mutex_find_eq scan [symmetric]
    by (simp add: split_beta del: upt_Suc)
qed

interpretation mutex_ring: ring_rotation next_owner "\<lambda>mk. unat (mx_owner_task_id (fst mk))"
  "\<lambda>mk. task_total (snd mk)" "\<lambda>mk. wanted (snd mk) (mx_waiting_task_mask (fst mk))" owned
  "\<lambda>mk mk'. mx_owner_task_id (fst mk') =
     fst (mutex_find_next_waiting_task (fst mk) (mx_owner_task_id (fst mk)) (snd mk))"
proof unfold_locales
  fix mk mk' :: "os_mutex_t \<times> 'a kernel_scheme" and i
  show "next_owner mk = Some i \<Longrightarrow> mx_owner_task_id (fst mk') =
      fst (mutex_find_next_waiting_task (fst mk) (mx_owner_task_id (fst mk)) (snd mk)) \<Longrightarrow>
      unat (mx_owner_task_id (fst mk')) = i"
    by (auto simp: next_owner_def found_task_def split: if_splits)
qed (simp_all add: owned_def next_owner_eq)

lemma mutex_find_keeps:
  assumes "owned (m, k)" "\<And>i. 0 < i \<Longrightarrow> bit (mx_waiting_task_mask m) i \<Longrightarrow> task_blocked k i"
  shows "snd (mutex_find_next_waiting_task m (mx_owner_task_id m) k) = m"
proof -
  have "task_total k \<le> 8" "unat (mx_owner_task_id m) < task_total k"
    using assms sched_wfD(3) by (auto simp: owned_def)
  then have "snd (waiting_scan [1..<Suc (task_total k)] (mx_owner_task_id m) k (mx_waiting_task_mask m)) =
      mx_waiting_task_mask m"
    by (rule waiting_scan_keeps) (use assms(2) in auto)
  then show ?thesis
    unfolding mutex_find_eq
    by (simp add: split_beta del: upt_Suc)
qed

section \<open>One pass through the lock loop\<close>

lemma mutex_lock_iteration_eq:
  assumes "running_task k i"
  shows "mutex_lock_iteration (of_nat i) m k =
    (if mx_is_initialized m \<noteq> 1 then (Return OS_MUTEX_ERROR_NOT_INITIALIZED, m, k)
     else if mx_is_locked m = 0 then
       (Return OS_MUTEX_OK, m\<lparr>mx_is_locked := 1, mx_owner_task_id := of_nat i,
          mx_waiting_task_mask := mx_waiting_task_mask m AND NOT (task_bit i)\<rparr>, k)
     else if mx_owner_task_id m = of_nat i then
       (if bit (mx_waiting_task_mask m) i then
          (Return OS_MUTEX_OK,
           m\<lparr>mx_waiting_task_mask := mx_waiting_task_mask m AND NOT (task_bit i)\<rparr>, k)
        else (Return OS_MUTEX_ERROR_RECURSIVE_LOCK, m, k))
     else (Again, m\<lparr>mx_waiting_task_mask := mx_waiting_task_mask m OR task_bit i\<rparr>, blocked_caller i k))"
proof -
  note r = running_taskD [OF assms]
  have mask: "mutex_task_mask (of_nat i) = task_bit i" using r(6) by (simp add: mutex_task_mask_eq)
  have set: "mx_waiting_task_mask m AND task_bit i = 0 \<longleftrightarrow> \<not> bit (mx_waiting_task_mask m) i"
    using r(6) by (intro and_task_bit) simp
  have restore: "os_irq_restore 0 (k\<lparr>cpu_primask := 1\<rparr>) = k"
    using r(9) by (simp add: machine_ops primask_same)
  have blocked: "os_irq_restore 0 (os_trigger_context_switch
      (update_task i (\<lambda>t. t\<lparr>tcb_wakeup_tick := 0, tcb_state := TASK_STATE_BLOCKED\<rparr>)
         (k\<lparr>cpu_primask := 1\<rparr>))) = blocked_caller i k"
    using r(9) by (simp add: machine_ops blocked_caller_def update_task_def)
  show ?thesis
    unfolding mutex_lock_iteration_def Let_def mask os_irq_save_def r(9) prod.case restore set
      block_running_task [OF assms]
    by (simp add: blocked)
qed

section \<open>The invariant of a mutex\<close>

text \<open>
  \<open>n\<close> tasks, \<open>B\<close> the BLOCKED ones, \<open>P\<close> the tasks inside \<open>os_mutex_lock\<close>. An unlocked mutex
  has no waiters. A locked one has an owner; every other registered waiter is BLOCKED. An
  owner inside \<open>os_mutex_lock\<close> is not BLOCKED: it was handed the mutex and has not run yet,
  or it tries to lock it twice.
\<close>

definition mutex_ok :: "nat \<Rightarrow> (nat \<Rightarrow> bool) \<Rightarrow> nat set \<Rightarrow> os_mutex_t \<Rightarrow> bool" where
  "mutex_ok n B P m \<longleftrightarrow> mx_is_initialized m = OS_MUTEX_INITIALIZED \<and>
     (\<forall>i \<in> P. 0 < i \<and> i < n \<and> (B i \<longrightarrow> bit (mx_waiting_task_mask m) i)) \<and>
     (\<forall>i. bit (mx_waiting_task_mask m) i \<longrightarrow> i \<in> P) \<and>
     (if mx_is_locked m = OS_MUTEX_UNLOCKED then mx_waiting_task_mask m = 0
      else mx_is_locked m = OS_MUTEX_LOCKED \<and>
        0 < unat (mx_owner_task_id m) \<and> unat (mx_owner_task_id m) < n \<and>
        (unat (mx_owner_task_id m) \<in> P \<longrightarrow> \<not> B (unat (mx_owner_task_id m))) \<and>
        (\<forall>i. bit (mx_waiting_task_mask m) i \<longrightarrow> i \<noteq> unat (mx_owner_task_id m) \<longrightarrow> B i))"

abbreviation mutex_waits :: "os_mutex_t \<Rightarrow> nat \<Rightarrow> bool" where
  "mutex_waits m i \<equiv> bit (mx_waiting_task_mask m) i"

text \<open>Who holds the mutex: the owner, unless it has not yet returned from its lock call.\<close>

definition mutex_holder :: "os_mutex_t \<Rightarrow> nat option" where
  "mutex_holder m =
     (if mx_is_locked m = OS_MUTEX_UNLOCKED \<or> mutex_waits m (unat (mx_owner_task_id m)) then None
      else Some (unat (mx_owner_task_id m)))"

interpretation mutex_object: blocking_object mutex_ok mutex_waits "\<lambda>m. mx_is_locked m = OS_MUTEX_UNLOCKED"
proof unfold_locales
  show "mutex_ok n B P x \<Longrightarrow> (\<And>i. i \<in> P \<Longrightarrow> B' i = B i) \<Longrightarrow> mutex_ok n B' P x" for n B B' P x
    by (simp add: mutex_ok_def split: if_splits)
  show "mutex_ok n B P x \<Longrightarrow> i \<notin> P \<Longrightarrow> 0 < i \<Longrightarrow> i < n \<Longrightarrow> \<not> B i \<Longrightarrow> mutex_ok n B (insert i P) x" for n B P x i
    by (simp add: mutex_ok_def split: if_splits)
qed (auto simp: mutex_ok_def split: if_splits)

lemma mutex_okD:
  assumes "mutex_ok n B P m"
  shows "mx_is_initialized m = OS_MUTEX_INITIALIZED" "i \<in> P \<Longrightarrow> 0 < i \<and> i < n"
    "i \<in> P \<Longrightarrow> B i \<Longrightarrow> mutex_waits m i" "mutex_waits m i \<Longrightarrow> i \<in> P"
    "mx_is_locked m = 0 \<Longrightarrow> mx_waiting_task_mask m = 0"
    "mx_is_locked m \<noteq> 0 \<Longrightarrow> mx_is_locked m = 1"
    "mx_is_locked m \<noteq> 0 \<Longrightarrow> 0 < unat (mx_owner_task_id m) \<and> unat (mx_owner_task_id m) < n"
    "mx_is_locked m \<noteq> 0 \<Longrightarrow> unat (mx_owner_task_id m) \<in> P \<Longrightarrow> \<not> B (unat (mx_owner_task_id m))"
    "mx_is_locked m \<noteq> 0 \<Longrightarrow> mutex_waits m i \<Longrightarrow> i \<noteq> unat (mx_owner_task_id m) \<Longrightarrow> B i"
  using assms by (auto simp: mutex_ok_def split: if_splits)

lemma mutex_ok_lockedI:
  assumes "mx_is_initialized m = 1" "mx_is_locked m = 1" "unat (mx_owner_task_id m) = j"
    and "\<And>i. i \<in> P \<Longrightarrow> 0 < i \<and> i < n" "\<And>i. i \<in> P \<Longrightarrow> B i \<Longrightarrow> mutex_waits m i"
    and "\<And>i. mutex_waits m i \<Longrightarrow> i \<in> P" "0 < j" "j < n" "j \<in> P \<Longrightarrow> \<not> B j"
    and "\<And>i. mutex_waits m i \<Longrightarrow> i \<noteq> j \<Longrightarrow> B i"
  shows "mutex_ok n B P m"
  using assms by (simp add: mutex_ok_def)

lemma mutex_init_ok:
  "os_mutex_init (Some m) = (status, Some m') \<Longrightarrow> mutex_ok n B {} m' \<and> mutex_holder m' = None"
  by (auto simp: os_mutex_init_def mutex_ok_def mutex_holder_def)

text \<open>A returning pass: the caller leaves the loop.\<close>

lemma lock_return_ok:
  assumes "running_task k i" "mutex_ok n B P m" "i \<in> P" "\<not> B i"
    and "mutex_lock_iteration (of_nat i) m k = (Return status, m', k')"
  shows "k' = k \<and> mutex_ok n B (P - {i}) m' \<and>
    (status = OS_MUTEX_OK \<and> mutex_holder m = None \<and> mutex_holder m' = Some i \<or>
     status = OS_MUTEX_ERROR_RECURSIVE_LOCK \<and> m' = m \<and> mutex_holder m = Some i)"
proof -
  note d = mutex_okD [OF assms(2)]
  have i: "unat (of_nat i :: u32) = i" using running_taskD(6) [OF assms(1)] by simp
  show ?thesis
  proof (cases "mx_is_locked m = 0")
    case True
    have m': "m' = m\<lparr>mx_is_locked := 1, mx_owner_task_id := of_nat i, mx_waiting_task_mask := 0\<rparr>"
        "k' = k" "status = OS_MUTEX_OK"
      using assms(5) True d(1) d(5) [OF True] by (simp_all add: mutex_lock_iteration_eq [OF assms(1)])
    have "mutex_ok n B (P - {i}) m'"
      by (rule mutex_ok_lockedI [where j = i])
        (use d(1,2,3) d(5) [OF True] assms(3) i in \<open>auto simp: m'\<close>)
    then show ?thesis using True i by (simp add: m' mutex_holder_def)
  next
    case False
    have owner: "mx_owner_task_id m = of_nat i"
      using assms(5) False d(1) by (simp add: mutex_lock_iteration_eq [OF assms(1)] split: if_splits)
    note o = d(7-9) [OF False, unfolded owner i]
    show ?thesis
    proof (cases "mutex_waits m i")
      case True
      have m': "m' = m\<lparr>mx_waiting_task_mask := mx_waiting_task_mask m AND NOT (task_bit i)\<rparr>"
          "k' = k" "status = OS_MUTEX_OK"
        using assms(5) True False owner d(1) by (simp_all add: mutex_lock_iteration_eq [OF assms(1)])
      have "mutex_ok n B (P - {i}) m'"
        by (rule mutex_ok_lockedI [where j = i])
          (use d(1,2,3,4) d(6) [OF False] o owner i in \<open>auto simp: m' bit_clear_task_bit\<close>)
      then show ?thesis using True False owner i by (simp add: m' mutex_holder_def bit_clear_task_bit)
    next
      case False': False
      have m': "m' = m" "k' = k" "status = OS_MUTEX_ERROR_RECURSIVE_LOCK"
        using assms(5) False False' owner d(1) by (simp_all add: mutex_lock_iteration_eq [OF assms(1)])
      have "mutex_ok n B (P - {i}) m'"
        by (rule mutex_ok_lockedI [where j = i])
          (use d(1,2,3,4) d(6) [OF False] o owner i False' in \<open>auto simp: m'\<close>)
      then show ?thesis using False False' owner i by (simp add: m' mutex_holder_def)
    qed
  qed
qed

text \<open>A pass that waits: the caller is registered and BLOCKED.\<close>

lemma lock_again_ok:
  assumes "running_task k i" "mutex_ok n B P m" "i \<in> P"
    and "mutex_lock_iteration (of_nat i) m k = (Again, m', k')"
  shows "k' = blocked_caller i k \<and> mutex_ok n (B(i := True)) P m' \<and> mutex_holder m' = mutex_holder m"
proof -
  note d = mutex_okD [OF assms(2)]
  have i: "i < 32" using running_taskD(6) [OF assms(1)] by simp
  have m': "m' = m\<lparr>mx_waiting_task_mask := mx_waiting_task_mask m OR task_bit i\<rparr>" "k' = blocked_caller i k"
    and locked: "mx_is_locked m \<noteq> 0" and "mx_owner_task_id m \<noteq> of_nat i"
    using assms(4) d(1) by (simp_all add: mutex_lock_iteration_eq [OF assms(1)] split: if_splits)
  then have other: "unat (mx_owner_task_id m) \<noteq> i" by (metis u32_of_unat)
  have "mutex_ok n (B(i := True)) P m'"
  proof (rule mutex_ok_lockedI [OF _ _ refl])
    have bits: "mutex_waits m' j \<longleftrightarrow> mutex_waits m j \<or> j = i" for j
      using i by (simp add: m' bit_or_task_bit)
    show "mutex_waits m' j" if "j \<in> P" "(B(i := True)) j" for j
      using d(3) that unfolding bits by (cases "j = i") auto
    show "j \<in> P" if "mutex_waits m' j" for j
      using d(4) that assms(3) unfolding bits by blast
    show "(B(i := True)) j" if "mutex_waits m' j" "j \<noteq> unat (mx_owner_task_id m')" for j
      using d(9) [OF locked] that unfolding bits by (simp add: m') blast
    show "\<not> (B(i := True)) (unat (mx_owner_task_id m'))" if "unat (mx_owner_task_id m') \<in> P"
      using d(8) [OF locked] that other by (simp add: m')
  qed (use d(1,2) d(6,7) [OF locked] in \<open>simp_all add: m'\<close>)
  then show ?thesis using m'(2) locked other i by (simp add: m'(1) mutex_holder_def bit_or_task_bit)
qed

section \<open>Unlocking\<close>

lemma valid_caller:
  assumes "running_task k i"
  shows "mutex_is_valid_task_context (of_nat i) k = 1"
proof -
  note r = running_taskD [OF assms]
  have "(of_nat i :: u32) \<noteq> 0" "(of_nat i :: u32) \<noteq> 0xFFFFFFFF" "\<not> g_task_count k \<le> of_nat i"
    using r(4,5,6) by (simp_all add: u32_eq_iff_unat u32_le_unat)
  then show ?thesis
    using kernel_wfD(2,3) [OF r(1)]
    by (simp add: mutex_is_valid_task_context_def os_scheduler_get_state_def task_get_count_def machine_ops)
qed

lemma next_owner_primask [simp]: "next_owner (m, k\<lparr>cpu_primask := v\<rparr>) = next_owner (m, k)"
  unfolding next_owner_def mutex_find_eq by simp

lemma mutex_unlock_eq:
  assumes "running_task k i" "mutex_ok (task_total k) (task_blocked k) P m" "i \<notin> P"
  shows "os_mutex_unlock (Some m) k =
    (if mutex_holder m \<noteq> Some i then (OS_MUTEX_ERROR_NOT_OWNER, Some m, k)
     else case next_owner (m, k) of
       None \<Rightarrow> (OS_MUTEX_OK, Some (m\<lparr>mx_is_locked := 0, mx_owner_task_id := 0xFFFFFFFF\<rparr>), k)
     | Some j \<Rightarrow> (OS_MUTEX_OK, Some (m\<lparr>mx_owner_task_id := of_nat j\<rparr>), readied j k))"
proof -
  note r = running_taskD [OF assms(1)] and d = mutex_okD [OF assms(2)]
  have i: "unat (of_nat i :: u32) = i" using r(6) by simp
  have holder: "mutex_holder m = Some i \<longleftrightarrow> mx_is_locked m = 1 \<and> mx_owner_task_id m = of_nat i"
    using d(4) [of i] d(6) assms(3) i by (auto simp: mutex_holder_def)
  let ?k = "k\<lparr>cpu_primask := 1\<rparr>"
  have restore: "os_irq_restore 0 ?k = k" using r(9) by (simp add: machine_ops primask_same)
  have valid: "mutex_is_valid_task_context (of_nat i) k \<noteq> 0" by (simp add: valid_caller [OF assms(1)])
  show ?thesis
  proof (cases "mutex_holder m = Some i")
    case False
    with holder have "mx_is_locked m \<noteq> 1 \<or> mx_owner_task_id m \<noteq> of_nat i" by simp
    with False show ?thesis
      using valid restore d(1)
      by (simp add: os_mutex_unlock_def os_get_current_task_id_def r(3) r(9) os_irq_save_def)
  next
    case True
    then have locked: "mx_is_locked m = 1" and owner: "mx_owner_task_id m = of_nat i"
      using holder by simp_all
    have mine: "owned (m, ?k)" using kernel_wfD(1) [OF r(1)] r(5) i owner by (simp add: owned_def)
    have "j \<noteq> i \<and> task_blocked k j" if "mutex_waits m j" for j
      using d(4) [OF that] d(9) [OF _ that] locked owner i assms(3) by auto
    then have find: "mutex_find_next_waiting_task m (of_nat i) ?k = (x, m)" if
      "fst (mutex_find_next_waiting_task m (of_nat i) ?k) = x" for x
      using mutex_find_keeps [OF mine] that owner by (metis prod.collapse task_blocked_irrelevant(2))
    obtain x where x: "mutex_find_next_waiting_task m (of_nat i) ?k = (x, m)" using find by blast
    then have next_x: "next_owner (m, k) = found_task x"
      using next_owner_primask [of m 1 k] by (simp add: next_owner_def owner)
    note unlock = os_mutex_unlock_def os_get_current_task_id_def r(3) r(9) os_irq_save_def
    show ?thesis
    proof (cases "next_owner (m, k)")
      case None
      then have "x = 0xFFFFFFFF" using next_x by (simp add: found_task_def split: if_splits)
      then show ?thesis
        using True None valid restore d(1) locked owner x by (simp add: unlock)
    next
      case (Some j)
      then have xj: "x \<noteq> 0xFFFFFFFF" "x = of_nat j"
        using next_x by (auto simp: found_task_def split: if_splits)
      have "0 < j \<and> j < task_total k \<and> wanted k (mx_waiting_task_mask m) j"
        using mutex_ring.found [OF mine, of j] Some by (simp add: wanted_def)
      then have j: "0 < j" "j < 8" "task_blocked k j"
        using sched_wfD(3) [OF kernel_wfD(1) [OF r(1)]] by (simp_all add: wanted_def)
      have resume: "os_irq_restore 0 ((readied j k)\<lparr>cpu_primask := 1\<rparr>) = readied j k"
        using r(9) by (simp add: machine_ops readied_def primask_same)
      show ?thesis
        using True Some valid d(1) locked owner x xj resume unblock_waiter [OF j(3,1,2), of 1]
        by (simp add: unlock)
    qed
  qed
qed

lemma next_owner_waits:
  assumes "running_task k i" "mutex_ok (task_total k) (task_blocked k) P m" "mutex_holder m = Some i"
    and "next_owner (m, k) = Some j"
  shows "j \<in> P" "0 < j" "j < task_total k" "task_blocked k j" "mutex_waits m j"
proof -
  note r = running_taskD [OF assms(1)]
  have "unat (mx_owner_task_id m) = i" using assms(3) by (simp add: mutex_holder_def split: if_splits)
  then have "owned (m, k)" using kernel_wfD(1) [OF r(1)] r(5) by (simp add: owned_def)
  from mutex_ring.found [OF this assms(4)]
  show "0 < j" "j < task_total k" "task_blocked k j" "mutex_waits m j" by (simp_all add: wanted_def)
  then show "j \<in> P" using mutex_okD(4) [OF assms(2)] by blast
qed

lemma unlock_ok:
  assumes "running_task k i" "mutex_ok (task_total k) (task_blocked k) P m" "i \<notin> P"
    and "os_mutex_unlock (Some m) k = (status, mo, k')"
  shows "\<exists>m'. mo = Some m' \<and> mutex_ok (task_total k') (task_blocked k') P m' \<and>
    (status = OS_MUTEX_ERROR_NOT_OWNER \<and> m' = m \<and> k' = k \<and> mutex_holder m \<noteq> Some i \<or>
     status = OS_MUTEX_OK \<and> mutex_holder m = Some i \<and> mutex_holder m' = None \<and>
       (k' = k \<or> (\<exists>j \<in> P. task_blocked k j \<and> k' = readied j k)))"
proof (cases "mutex_holder m = Some i")
  case False
  then show ?thesis using assms by (simp add: mutex_unlock_eq [OF assms(1-3)])
next
  case True
  note r = running_taskD [OF assms(1)] and d = mutex_okD [OF assms(2)]
  have locked: "mx_is_locked m \<noteq> 0" and owner: "unat (mx_owner_task_id m) = i"
    using True by (simp_all add: mutex_holder_def split: if_splits)
  have "owned (m, k)" using kernel_wfD(1) [OF r(1)] r(5) owner by (simp add: owned_def)
  show ?thesis
  proof (cases "next_owner (m, k)")
    case None
    have "\<not> mutex_waits m j" for j
      using mutex_ring.not_found_iff [OF \<open>owned (m, k)\<close>] None d(2,4) [of j] d(9) [OF locked, of j] owner
        assms(3) by (auto simp: wanted_def)
    then have "mx_waiting_task_mask m = 0" by (simp add: u32_zero_iff_bits)
    then have "mutex_ok (task_total k) (task_blocked k) P (m\<lparr>mx_is_locked := 0, mx_owner_task_id := 0xFFFFFFFF\<rparr>)"
      using assms(2) by (simp add: mutex_ok_def)
    moreover have "mutex_holder (m\<lparr>mx_is_locked := 0, mx_owner_task_id := 0xFFFFFFFF\<rparr>) = None"
      by (simp add: mutex_holder_def)
    ultimately show ?thesis
      using assms(4) True None by (auto simp: mutex_unlock_eq [OF assms(1-3)])
  next
    case (Some j)
    note w = next_owner_waits [OF assms(1,2) True Some]
    have j8: "j < 8" using w(3) sched_wfD(3) [OF kernel_wfD(1) [OF r(1)]] by simp
    then have j: "unat (of_nat j :: u32) = j" "j < length (g_task_table k)"
      using sched_wfD(4) [OF kernel_wfD(1) [OF r(1)]] by simp_all
    let ?m = "m\<lparr>mx_owner_task_id := of_nat j\<rparr>"
    have "mutex_ok (task_total k) ((task_blocked k)(j := False)) P ?m"
    proof (rule mutex_ok_lockedI [where j = j])
      show "mutex_waits ?m l" if "l \<in> P" "((task_blocked k)(j := False)) l" for l
        using d(3) [OF that(1)] that(2) by (simp split: if_splits)
      show "((task_blocked k)(j := False)) l" if "mutex_waits ?m l" "l \<noteq> j" for l
        using d(4) [of l] d(9) [OF locked, of l] that owner assms(3) by auto
    qed (use d(1,2,4) d(6) [OF locked] w(2,3) j(1) in simp_all)
    moreover have "mutex_holder ?m = None" using w(5) j(1) by (simp add: mutex_holder_def)
    moreover have "status = OS_MUTEX_OK" "mo = Some ?m" "k' = readied j k"
      using assms(4) True Some by (simp_all add: mutex_unlock_eq [OF assms(1-3)])
    ultimately show ?thesis
      using True w(1,4) readied_blocked [OF w(4) j(2)] by auto
  qed
qed

end
