(* ===== verification/Semaphore.thy ===== *)
theory Semaphore
  imports Mutex
begin

text \<open>
  The counting semaphore service (\<open>kernel/semaphore.h\<close>, \<open>kernel/semaphore.c\<close>), in the form of
  theory Mutex: \<open>os_semaphore_wait\<close> is its prologue followed by the loop over
  \<open>semaphore_wait_iteration\<close>.
\<close>

section \<open>Constants and types of semaphore.h\<close>

abbreviation (input) OS_SEMAPHORE_OK :: int where "OS_SEMAPHORE_OK \<equiv> 0"
abbreviation (input) OS_SEMAPHORE_ERROR_NULL_POINTER :: int where "OS_SEMAPHORE_ERROR_NULL_POINTER \<equiv> - 1"
abbreviation (input) OS_SEMAPHORE_ERROR_NOT_INITIALIZED :: int where "OS_SEMAPHORE_ERROR_NOT_INITIALIZED \<equiv> - 2"
abbreviation (input) OS_SEMAPHORE_ERROR_INVALID_COUNT :: int where "OS_SEMAPHORE_ERROR_INVALID_COUNT \<equiv> - 3"
abbreviation (input) OS_SEMAPHORE_ERROR_INVALID_CONTEXT :: int where "OS_SEMAPHORE_ERROR_INVALID_CONTEXT \<equiv> - 4"
abbreviation (input) OS_SEMAPHORE_ERROR_TASK_OPERATION :: int where "OS_SEMAPHORE_ERROR_TASK_OPERATION \<equiv> - 5"
abbreviation (input) OS_SEMAPHORE_ERROR_INTERRUPTS_DISABLED :: int where
  "OS_SEMAPHORE_ERROR_INTERRUPTS_DISABLED \<equiv> - 6"
abbreviation (input) OS_SEMAPHORE_ERROR_OVERFLOW :: int where "OS_SEMAPHORE_ERROR_OVERFLOW \<equiv> - 7"

abbreviation (input) OS_SEMAPHORE_INITIALIZED :: u32 where "OS_SEMAPHORE_INITIALIZED \<equiv> 1"
abbreviation (input) OS_SEMAPHORE_INVALID_TASK_ID :: u32 where "OS_SEMAPHORE_INVALID_TASK_ID \<equiv> 0xFFFFFFFF"

record os_semaphore_t =
  sem_is_initialized :: u32
  sem_count :: u32
  sem_maximum_count :: u32
  sem_waiting_task_mask :: u32
  sem_granted_task_mask :: u32
  sem_last_granted_task_id :: u32

section \<open>Operations of semaphore.c\<close>

definition semaphore_task_mask :: "u32 \<Rightarrow> u32" where
  "semaphore_task_mask task_id = push_bit (unat task_id) 1"

definition semaphore_is_valid_task_context :: "u32 \<Rightarrow> 'a kernel_scheme \<Rightarrow> u32" where
  "semaphore_is_valid_task_context task_id k =
     (if os_get_exception_number k \<noteq> 0 then 0
      else if os_scheduler_get_state k \<noteq> SCHEDULER_STATE_RUNNING then 0
      else if os_context_switch_is_started k = 0 then 0
      else if task_id = SCHEDULER_INVALID_TASK_ID \<or> task_id = TASK_IDLE_TASK_ID \<or>
              task_id \<ge> task_get_count k then 0
      else 1)"

fun semaphore_find_loop ::
  "nat list \<Rightarrow> u32 \<Rightarrow> 'a task_system_scheme \<Rightarrow> os_semaphore_t \<Rightarrow> u32 \<times> os_semaphore_t"
where
  "semaphore_find_loop [] task_count s semaphore = (OS_SEMAPHORE_INVALID_TASK_ID, semaphore)"
| "semaphore_find_loop (offset # offsets) task_count s semaphore =
     (let candidate_id = (sem_last_granted_task_id semaphore + of_nat offset) mod task_count in
      if candidate_id = TASK_IDLE_TASK_ID then semaphore_find_loop offsets task_count s semaphore
      else
        let candidate_mask = semaphore_task_mask candidate_id in
        if sem_waiting_task_mask semaphore AND candidate_mask = 0
        then semaphore_find_loop offsets task_count s semaphore
        else if (case task_get_by_id candidate_id s of None \<Rightarrow> False
                 | Some candidate_task \<Rightarrow> tcb_state candidate_task = TASK_STATE_BLOCKED)
        then (candidate_id, semaphore)
        else semaphore_find_loop offsets task_count s
               (semaphore\<lparr>sem_waiting_task_mask :=
                  sem_waiting_task_mask semaphore AND NOT candidate_mask\<rparr>))"

definition semaphore_find_next_waiting_task ::
  "os_semaphore_t \<Rightarrow> 'a task_system_scheme \<Rightarrow> u32 \<times> os_semaphore_t"
where
  "semaphore_find_next_waiting_task semaphore s =
     semaphore_find_loop [1..<Suc (unat (task_get_count s))] (task_get_count s) s semaphore"

definition os_semaphore_init ::
  "os_semaphore_t option \<Rightarrow> u32 \<Rightarrow> u32 \<Rightarrow> int \<times> os_semaphore_t option"
where
  "os_semaphore_init semaphore initial_count maximum_count =
     (case semaphore of
        None \<Rightarrow> (OS_SEMAPHORE_ERROR_NULL_POINTER, None)
      | Some s \<Rightarrow>
          if maximum_count = 0 \<or> initial_count > maximum_count
          then (OS_SEMAPHORE_ERROR_INVALID_COUNT, Some s)
          else (OS_SEMAPHORE_OK,
            Some (s\<lparr>sem_count := initial_count, sem_maximum_count := maximum_count,
                    sem_waiting_task_mask := 0, sem_granted_task_mask := 0,
                    sem_last_granted_task_id := TASK_IDLE_TASK_ID,
                    sem_is_initialized := OS_SEMAPHORE_INITIALIZED\<rparr>)))"

text \<open>One pass through the loop of \<open>os_semaphore_wait\<close>.\<close>

definition semaphore_wait_iteration ::
  "u32 \<Rightarrow> os_semaphore_t \<Rightarrow> 'a kernel_scheme \<Rightarrow> loop_outcome \<times> os_semaphore_t \<times> 'a kernel_scheme"
where
  "semaphore_wait_iteration current_task_id semaphore k =
     (let current_task_mask = semaphore_task_mask current_task_id;
          (irq_state, k1) = os_irq_save k
      in
      if sem_is_initialized semaphore \<noteq> OS_SEMAPHORE_INITIALIZED then
        (Return OS_SEMAPHORE_ERROR_NOT_INITIALIZED, semaphore, os_irq_restore irq_state k1)
      else if sem_granted_task_mask semaphore AND current_task_mask \<noteq> 0 then
        (Return OS_SEMAPHORE_OK,
         semaphore\<lparr>sem_granted_task_mask := sem_granted_task_mask semaphore AND NOT current_task_mask,
                   sem_waiting_task_mask := sem_waiting_task_mask semaphore AND NOT current_task_mask\<rparr>,
         os_irq_restore irq_state k1)
      else if sem_count semaphore > 0 then
        (Return OS_SEMAPHORE_OK,
         semaphore\<lparr>sem_count := sem_count semaphore - 1,
                   sem_waiting_task_mask := sem_waiting_task_mask semaphore AND NOT current_task_mask\<rparr>,
         os_irq_restore irq_state k1)
      else if irq_state \<noteq> 0 then
        (Return OS_SEMAPHORE_ERROR_INTERRUPTS_DISABLED, semaphore, os_irq_restore irq_state k1)
      else
        let semaphore1 = semaphore\<lparr>sem_waiting_task_mask :=
              sem_waiting_task_mask semaphore OR current_task_mask\<rparr>;
            (task_status, k2) = task_block current_task_id k1
        in
        if task_status \<noteq> TASK_OK then
          (Return OS_SEMAPHORE_ERROR_TASK_OPERATION,
           semaphore1\<lparr>sem_waiting_task_mask := sem_waiting_task_mask semaphore1 AND NOT current_task_mask\<rparr>,
           os_irq_restore irq_state k2)
        else (Again, semaphore1, os_irq_restore irq_state (os_trigger_context_switch k2)))"

definition semaphore_wait_prologue :: "os_semaphore_t option \<Rightarrow> 'a kernel_scheme \<Rightarrow> int + u32" where
  "semaphore_wait_prologue semaphore k =
     (case semaphore of
        None \<Rightarrow> Inl OS_SEMAPHORE_ERROR_NULL_POINTER
      | Some s \<Rightarrow>
          if sem_is_initialized s \<noteq> OS_SEMAPHORE_INITIALIZED then Inl OS_SEMAPHORE_ERROR_NOT_INITIALIZED
          else
            let current_task_id = os_get_current_task_id k in
            if semaphore_is_valid_task_context current_task_id k = 0
            then Inl OS_SEMAPHORE_ERROR_INVALID_CONTEXT
            else Inr current_task_id)"

partial_function (option) semaphore_wait_loop ::
  "(os_semaphore_t \<times> 'a kernel_scheme \<Rightarrow> os_semaphore_t \<times> 'a kernel_scheme) \<Rightarrow> u32 \<Rightarrow>
   os_semaphore_t \<times> 'a kernel_scheme \<Rightarrow> (int \<times> os_semaphore_t \<times> 'a kernel_scheme) option"
where
  "semaphore_wait_loop env current_task_id sk =
     (case semaphore_wait_iteration current_task_id (fst sk) (snd sk) of
        (Return status, sk') \<Rightarrow> Some (status, sk')
      | (Again, sk') \<Rightarrow> semaphore_wait_loop env current_task_id (env sk'))"

definition os_semaphore_wait ::
  "(os_semaphore_t \<times> 'a kernel_scheme \<Rightarrow> os_semaphore_t \<times> 'a kernel_scheme) \<Rightarrow>
   os_semaphore_t option \<Rightarrow> 'a kernel_scheme \<Rightarrow>
   (int \<times> os_semaphore_t option \<times> 'a kernel_scheme) option"
where
  "os_semaphore_wait env semaphore k =
     (case semaphore_wait_prologue semaphore k of
        Inl status \<Rightarrow> Some (status, semaphore, k)
      | Inr current_task_id \<Rightarrow>
          (case semaphore of
             None \<Rightarrow> None
           | Some s \<Rightarrow>
               map_option (\<lambda>(status, s', k'). (status, Some s', k'))
                 (semaphore_wait_loop env current_task_id (s, k))))"

definition os_semaphore_post ::
  "os_semaphore_t option \<Rightarrow> 'a kernel_scheme \<Rightarrow> int \<times> os_semaphore_t option \<times> 'a kernel_scheme"
where
  "os_semaphore_post semaphore k =
     (case semaphore of
        None \<Rightarrow> (OS_SEMAPHORE_ERROR_NULL_POINTER, None, k)
      | Some s \<Rightarrow>
          if sem_is_initialized s \<noteq> OS_SEMAPHORE_INITIALIZED then
            (OS_SEMAPHORE_ERROR_NOT_INITIALIZED, Some s, k)
          else
            let current_task_id = os_get_current_task_id k in
            if semaphore_is_valid_task_context current_task_id k = 0 then
              (OS_SEMAPHORE_ERROR_INVALID_CONTEXT, Some s, k)
            else
              let (irq_state, k1) = os_irq_save k;
                  (granted_task_id, s1) = semaphore_find_next_waiting_task s k1
              in
              if granted_task_id \<noteq> OS_SEMAPHORE_INVALID_TASK_ID then
                let granted_task_mask = semaphore_task_mask granted_task_id;
                    s2 = s1\<lparr>sem_waiting_task_mask := sem_waiting_task_mask s1 AND NOT granted_task_mask,
                            sem_granted_task_mask := sem_granted_task_mask s1 OR granted_task_mask,
                            sem_last_granted_task_id := granted_task_id\<rparr>;
                    (task_status, k2) = task_unblock granted_task_id k1
                in
                if task_status \<noteq> TASK_OK then
                  (OS_SEMAPHORE_ERROR_TASK_OPERATION,
                   Some (s2\<lparr>sem_granted_task_mask := sem_granted_task_mask s2 AND NOT granted_task_mask,
                            sem_waiting_task_mask := sem_waiting_task_mask s2 OR granted_task_mask\<rparr>),
                   os_irq_restore irq_state k2)
                else (OS_SEMAPHORE_OK, Some s2, os_irq_restore irq_state k2)
              else if sem_count s1 \<ge> sem_maximum_count s1 then
                (OS_SEMAPHORE_ERROR_OVERFLOW, Some s1, os_irq_restore irq_state k1)
              else
                (OS_SEMAPHORE_OK, Some (s1\<lparr>sem_count := sem_count s1 + 1\<rparr>),
                 os_irq_restore irq_state k1))"

section \<open>The search for the next waiter\<close>

lemma semaphore_task_mask_eq [mask_simps]: "semaphore_task_mask i = task_bit (unat i)"
  by (simp add: semaphore_task_mask_def task_bit_def)

lemma semaphore_find_loop_eq:
  "semaphore_find_loop ds (task_get_count s) s x =
    (case waiting_scan ds (sem_last_granted_task_id x) s (sem_waiting_task_mask x) of
       (r, bits) \<Rightarrow> ((case r of None \<Rightarrow> 0xFFFFFFFF | Some i \<Rightarrow> i), x\<lparr>sem_waiting_task_mask := bits\<rparr>))"
proof (induction ds arbitrary: x)
  case Nil
  then show ?case by simp
next
  case (Cons d ds)
  then show ?case
    unfolding semaphore_find_loop.simps waiting_scan.simps Let_def semaphore_task_mask_eq blocked_entry
    by simp
qed

lemma semaphore_find_eq:
  "semaphore_find_next_waiting_task x s =
    (case waiting_scan [1..<Suc (task_total s)] (sem_last_granted_task_id x) s (sem_waiting_task_mask x) of
       (r, bits) \<Rightarrow> ((case r of None \<Rightarrow> 0xFFFFFFFF | Some i \<Rightarrow> i), x\<lparr>sem_waiting_task_mask := bits\<rparr>))"
  unfolding semaphore_find_next_waiting_task_def semaphore_find_loop_eq unfolding task_get_count_def
  by (rule refl)

definition next_granted :: "os_semaphore_t \<times> 'a kernel_scheme \<Rightarrow> nat option" where
  "next_granted sk = found_task (fst (semaphore_find_next_waiting_task (fst sk) (snd sk)))"

definition rotating :: "os_semaphore_t \<times> 'a kernel_scheme \<Rightarrow> bool" where
  "rotating sk \<longleftrightarrow> sched_wf (snd sk) \<and> unat (sem_last_granted_task_id (fst sk)) < task_total (snd sk)"

lemma rotatingD:
  "rotating (x, k) \<Longrightarrow> task_total k \<le> 8 \<and> unat (sem_last_granted_task_id x) < task_total k"
  using sched_wfD(3) [of k] by (simp add: rotating_def)

lemma next_granted_eq:
  assumes "rotating sk"
  shows "next_granted sk = find (\<lambda>i. i \<noteq> 0 \<and> wanted (snd sk) (sem_waiting_task_mask (fst sk)) i)
    (ring_order (unat (sem_last_granted_task_id (fst sk))) (task_total (snd sk)))"
proof -
  have r: "task_total (snd sk) \<le> 8" "unat (sem_last_granted_task_id (fst sk)) < task_total (snd sk)"
    using rotatingD [of "fst sk" "snd sk"] assms by simp_all
  note scan = found_task_scan [OF r, of "sem_waiting_task_mask (fst sk)"]
  show ?thesis
    unfolding next_granted_def semaphore_find_eq scan [symmetric] by (simp add: split_beta del: upt_Suc)
qed

interpretation semaphore_ring: ring_rotation next_granted "\<lambda>sk. unat (sem_last_granted_task_id (fst sk))"
  "\<lambda>sk. task_total (snd sk)" "\<lambda>sk. wanted (snd sk) (sem_waiting_task_mask (fst sk))" rotating
  "\<lambda>sk sk'. sem_last_granted_task_id (fst sk') = fst (semaphore_find_next_waiting_task (fst sk) (snd sk))"
proof unfold_locales
  fix sk sk' :: "os_semaphore_t \<times> 'a kernel_scheme" and i
  show "next_granted sk = Some i \<Longrightarrow> sem_last_granted_task_id (fst sk') =
      fst (semaphore_find_next_waiting_task (fst sk) (snd sk)) \<Longrightarrow>
      unat (sem_last_granted_task_id (fst sk')) = i"
    by (auto simp: next_granted_def found_task_def split: if_splits)
qed (simp_all add: rotating_def next_granted_eq)

lemma semaphore_find_keeps:
  assumes "rotating (x, k)" "\<And>i. 0 < i \<Longrightarrow> bit (sem_waiting_task_mask x) i \<Longrightarrow> task_blocked k i"
  shows "snd (semaphore_find_next_waiting_task x k) = x"
proof -
  have "snd (waiting_scan [1..<Suc (task_total k)] (sem_last_granted_task_id x) k (sem_waiting_task_mask x)) =
      sem_waiting_task_mask x"
    by (rule waiting_scan_keeps) (use rotatingD [OF assms(1)] assms(2) in auto)
  then show ?thesis unfolding semaphore_find_eq by (simp add: split_beta del: upt_Suc)
qed

section \<open>One pass through the wait loop\<close>

lemma semaphore_wait_iteration_eq:
  assumes "running_task k i"
  shows "semaphore_wait_iteration (of_nat i) x k =
    (if sem_is_initialized x \<noteq> 1 then (Return OS_SEMAPHORE_ERROR_NOT_INITIALIZED, x, k)
     else if bit (sem_granted_task_mask x) i then
       (Return OS_SEMAPHORE_OK,
        x\<lparr>sem_granted_task_mask := sem_granted_task_mask x AND NOT (task_bit i),
          sem_waiting_task_mask := sem_waiting_task_mask x AND NOT (task_bit i)\<rparr>, k)
     else if sem_count x > 0 then
       (Return OS_SEMAPHORE_OK, x\<lparr>sem_count := sem_count x - 1,
          sem_waiting_task_mask := sem_waiting_task_mask x AND NOT (task_bit i)\<rparr>, k)
     else (Again, x\<lparr>sem_waiting_task_mask := sem_waiting_task_mask x OR task_bit i\<rparr>, blocked_caller i k))"
proof -
  note r = running_taskD [OF assms]
  have bits: "semaphore_task_mask (of_nat i) = task_bit i" using r(6) by (simp add: semaphore_task_mask_eq)
  have set: "sem_granted_task_mask x AND task_bit i = 0 \<longleftrightarrow> \<not> bit (sem_granted_task_mask x) i"
    using r(6) by (intro and_task_bit) simp
  have restore: "os_irq_restore 0 (k\<lparr>cpu_primask := 1\<rparr>) = k"
    using r(9) by (simp add: machine_ops primask_same)
  have blocked: "os_irq_restore 0 (os_trigger_context_switch
      (update_task i (\<lambda>t. t\<lparr>tcb_wakeup_tick := 0, tcb_state := TASK_STATE_BLOCKED\<rparr>)
         (k\<lparr>cpu_primask := 1\<rparr>))) = blocked_caller i k"
    using r(9) by (simp add: machine_ops blocked_caller_def update_task_def)
  show ?thesis
    unfolding semaphore_wait_iteration_def Let_def bits os_irq_save_def r(9) prod.case restore set
      block_running_task [OF assms]
    by (simp add: blocked)
qed

section \<open>The invariant of a semaphore\<close>

text \<open>
  The count is at most the maximum; the registered waiters are exactly the tasks BLOCKED
  inside \<open>os_semaphore_wait\<close>; a task that was granted a unit is inside and no longer BLOCKED; while
  a unit is available there are no waiters.
\<close>

abbreviation semaphore_waits :: "os_semaphore_t \<Rightarrow> nat \<Rightarrow> bool" where
  "semaphore_waits x i \<equiv> bit (sem_waiting_task_mask x) i"

abbreviation semaphore_granted :: "os_semaphore_t \<Rightarrow> nat \<Rightarrow> bool" where
  "semaphore_granted x i \<equiv> bit (sem_granted_task_mask x) i"

definition semaphore_ok :: "nat \<Rightarrow> (nat \<Rightarrow> bool) \<Rightarrow> nat set \<Rightarrow> os_semaphore_t \<Rightarrow> bool" where
  "semaphore_ok n B P x \<longleftrightarrow> sem_is_initialized x = OS_SEMAPHORE_INITIALIZED \<and>
     sem_count x \<le> sem_maximum_count x \<and> unat (sem_last_granted_task_id x) < n \<and>
     (\<forall>i \<in> P. 0 < i \<and> i < n) \<and> (\<forall>i. semaphore_waits x i \<longleftrightarrow> i \<in> P \<and> B i) \<and>
     (\<forall>i. semaphore_granted x i \<longrightarrow> i \<in> P \<and> \<not> B i) \<and>
     (sem_count x > 0 \<longrightarrow> sem_waiting_task_mask x = 0)"

text \<open>The units in the semaphore: those in the count and those granted but not yet consumed.\<close>

definition semaphore_units :: "os_semaphore_t \<Rightarrow> nat" where
  "semaphore_units x = unat (sem_count x) + card {i. semaphore_granted x i}"

interpretation semaphore_object: blocking_object semaphore_ok semaphore_waits "\<lambda>x. sem_count x > 0"
proof unfold_locales
  show "semaphore_ok n B P x \<Longrightarrow> (\<And>i. i \<in> P \<Longrightarrow> B' i = B i) \<Longrightarrow> semaphore_ok n B' P x" for n B B' P x
    unfolding semaphore_ok_def by blast
  show "semaphore_ok n B P x \<Longrightarrow> i \<notin> P \<Longrightarrow> 0 < i \<Longrightarrow> i < n \<Longrightarrow> \<not> B i \<Longrightarrow> semaphore_ok n B (insert i P) x"
    for n B P x i
    unfolding semaphore_ok_def by blast
qed (auto simp: semaphore_ok_def)

lemma semaphore_okD:
  assumes "semaphore_ok n B P x"
  shows "sem_is_initialized x = 1" "sem_count x \<le> sem_maximum_count x"
    "unat (sem_last_granted_task_id x) < n" "i \<in> P \<Longrightarrow> 0 < i \<and> i < n"
    "semaphore_waits x i \<longleftrightarrow> i \<in> P \<and> B i"
    "semaphore_granted x i \<Longrightarrow> i \<in> P \<and> \<not> B i" "sem_count x > 0 \<Longrightarrow> sem_waiting_task_mask x = 0"
  using assms unfolding semaphore_ok_def by blast+

lemma semaphore_okI:
  assumes "sem_is_initialized x = 1" "sem_count x \<le> sem_maximum_count x"
    "unat (sem_last_granted_task_id x) < n" "\<And>i. i \<in> P \<Longrightarrow> 0 < i \<and> i < n"
    "\<And>i. semaphore_waits x i \<longleftrightarrow> i \<in> P \<and> B i"
    "\<And>i. semaphore_granted x i \<Longrightarrow> i \<in> P \<and> \<not> B i" "sem_count x > 0 \<Longrightarrow> sem_waiting_task_mask x = 0"
  shows "semaphore_ok n B P x"
  using assms unfolding semaphore_ok_def by blast

lemma semaphore_init_ok:
  assumes "os_semaphore_init (Some x) initial maximum = (OS_SEMAPHORE_OK, Some x')" "0 < n"
  shows "semaphore_ok n B {} x' \<and> semaphore_units x' = unat initial \<and> sem_maximum_count x' = maximum"
proof -
  have "x' = x\<lparr>sem_count := initial, sem_maximum_count := maximum, sem_waiting_task_mask := 0,
      sem_granted_task_mask := 0, sem_last_granted_task_id := 0, sem_is_initialized := 1\<rparr>" "initial \<le> maximum"
    using assms(1) by (auto simp: os_semaphore_init_def split: if_splits)
  then show ?thesis using assms(2) by (simp add: semaphore_ok_def semaphore_units_def bot_fun_def)
qed

text \<open>Units lost and gained through the granted mask.\<close>

lemma granted_clear:
  "bit w i \<Longrightarrow> Suc (card {j. bit (w AND NOT (task_bit i)) j}) = card {j. bit w j}" for w :: u32
proof -
  assume "bit w i"
  moreover have "{j. bit (w AND NOT (task_bit i)) j} = {j. bit w j} - {i}"
    by (auto simp: bit_clear_task_bit)
  ultimately show ?thesis
    using card_Suc_Diff1 [of "{j. bit w j}" i] by simp
qed

lemma granted_set:
  "\<not> bit w i \<Longrightarrow> i < 32 \<Longrightarrow> card {j. bit (w OR task_bit i) j} = Suc (card {j. bit w j})" for w :: u32
proof -
  assume "\<not> bit w i" "i < 32"
  moreover have "{j. bit (w OR task_bit i) j} = insert i {j. bit w j}"
    using \<open>i < 32\<close> by (auto simp: bit_or_task_bit)
  ultimately show ?thesis by simp
qed

lemma clear_unset: "\<not> bit w i \<Longrightarrow> w AND NOT (task_bit i) = w" for w :: u32
  by (rule bit_word_eqI) (auto simp: bit_clear_task_bit)

text \<open>A returning pass consumes one unit.\<close>

lemma wait_return_ok:
  assumes "running_task k i" "semaphore_ok n B P x" "i \<in> P" "\<not> B i"
    and "semaphore_wait_iteration (of_nat i) x k = (Return status, x', k')"
  shows "k' = k \<and> status = OS_SEMAPHORE_OK \<and> semaphore_ok n B (P - {i}) x' \<and>
    semaphore_units x = Suc (semaphore_units x') \<and> sem_maximum_count x' = sem_maximum_count x"
proof -
  note d = semaphore_okD [OF assms(2)]
  have nw: "sem_waiting_task_mask x AND NOT (task_bit i) = sem_waiting_task_mask x"
    using d(5) [of i] assms(4) by (intro clear_unset) blast
  show ?thesis
  proof (cases "semaphore_granted x i")
    case True
    have x': "x' = x\<lparr>sem_granted_task_mask := sem_granted_task_mask x AND NOT (task_bit i)\<rparr>" "k' = k"
        "status = OS_SEMAPHORE_OK"
      using assms(5) True d(1) nw by (simp_all add: semaphore_wait_iteration_eq [OF assms(1)])
    have "semaphore_ok n B (P - {i}) x'"
      by (rule semaphore_okI)
        (use d(1-4,7) d(5,6) assms(4) in \<open>auto simp: x' bit_clear_task_bit\<close>)
    then show ?thesis
      using granted_clear [OF True] by (simp add: x' semaphore_units_def)
  next
    case False
    have pos: "sem_count x > 0"
      using assms(5) False d(1) by (simp add: semaphore_wait_iteration_eq [OF assms(1)] split: if_splits)
    have x': "x' = x\<lparr>sem_count := sem_count x - 1\<rparr>" "k' = k" "status = OS_SEMAPHORE_OK"
      using assms(5) False d(1) nw pos by (simp_all add: semaphore_wait_iteration_eq [OF assms(1)])
    have count: "unat (sem_count x) = Suc (unat (sem_count x - 1))"
      using pos by (simp add: u32_less_unat unat_u32_diff)
    have "semaphore_ok n B (P - {i}) x'"
      by (rule semaphore_okI)
        (use d(1-6) d(7) [OF pos] assms(4) False count in \<open>auto simp: x' u32_le_unat\<close>)
    then show ?thesis using count by (simp add: x' semaphore_units_def)
  qed
qed

text \<open>A pass that waits.\<close>

lemma wait_again_ok:
  assumes "running_task k i" "semaphore_ok n B P x" "i \<in> P" "\<not> B i"
    and "semaphore_wait_iteration (of_nat i) x k = (Again, x', k')"
  shows "k' = blocked_caller i k \<and> semaphore_ok n (B(i := True)) P x' \<and>
    semaphore_units x' = semaphore_units x \<and> sem_maximum_count x' = sem_maximum_count x"
proof -
  note d = semaphore_okD [OF assms(2)]
  have i: "i < 32" using running_taskD(6) [OF assms(1)] by simp
  have x': "x' = x\<lparr>sem_waiting_task_mask := sem_waiting_task_mask x OR task_bit i\<rparr>" "k' = blocked_caller i k"
    and zero: "sem_count x = 0" and not_granted: "\<not> semaphore_granted x i"
    using assms(5) d(1)
    by (simp_all add: semaphore_wait_iteration_eq [OF assms(1)] word_gt_0 split: if_splits)
  have "semaphore_ok n (B(i := True)) P x'"
  proof (rule semaphore_okI)
    show "semaphore_waits x' j \<longleftrightarrow> j \<in> P \<and> (B(i := True)) j" for j
      using d(5) [of j] i assms(3) by (auto simp: x' bit_or_task_bit)
    show "j \<in> P \<and> \<not> (B(i := True)) j" if "semaphore_granted x' j" for j
      using d(6) [of j] that not_granted by (auto simp: x')
  qed (use d(1-4) zero in \<open>simp_all add: x'\<close>)
  then show ?thesis using x'(2) by (simp add: x'(1) semaphore_units_def)
qed

section \<open>Posting\<close>

lemma valid_waiter:
  assumes "running_task k i"
  shows "semaphore_is_valid_task_context (of_nat i) k = 1"
  using valid_caller [OF assms] kernel_wfD(5) [OF running_taskD(1) [OF assms]]
  by (simp add: semaphore_is_valid_task_context_def mutex_is_valid_task_context_def machine_ops split: if_splits)

lemma next_granted_primask [simp]: "next_granted (x, k\<lparr>cpu_primask := v\<rparr>) = next_granted (x, k)"
  unfolding next_granted_def semaphore_find_eq by simp

lemma semaphore_rotating:
  "semaphore_ok (task_total k) B P x \<Longrightarrow> kernel_wf k \<Longrightarrow> rotating (x, k)"
  using semaphore_okD(3) [of "task_total k" B P x] kernel_wfD(1) [of k] by (simp add: rotating_def)

lemma next_granted_waits:
  assumes "semaphore_ok (task_total k) (task_blocked k) P x" "kernel_wf k" "next_granted (x, k) = Some j"
  shows "j \<in> P" "0 < j" "j < task_total k" "task_blocked k j" "semaphore_waits x j"
  using semaphore_ring.found [OF semaphore_rotating [OF assms(1,2)] assms(3)] semaphore_okD(5) [OF assms(1), of j]
  by (simp_all add: wanted_def)

definition granted_to :: "nat \<Rightarrow> os_semaphore_t \<Rightarrow> os_semaphore_t" where
  "granted_to j x = x\<lparr>sem_waiting_task_mask := sem_waiting_task_mask x AND NOT (task_bit j),
     sem_granted_task_mask := sem_granted_task_mask x OR task_bit j, sem_last_granted_task_id := of_nat j\<rparr>"

lemma semaphore_post_eq:
  assumes "running_task k i" "semaphore_ok (task_total k) (task_blocked k) P x"
  shows "os_semaphore_post (Some x) k =
    (case next_granted (x, k) of
       Some j \<Rightarrow> (OS_SEMAPHORE_OK, Some (granted_to j x), readied j k)
     | None \<Rightarrow> if sem_count x \<ge> sem_maximum_count x then (OS_SEMAPHORE_ERROR_OVERFLOW, Some x, k)
               else (OS_SEMAPHORE_OK, Some (x\<lparr>sem_count := sem_count x + 1\<rparr>), k))"
proof -
  note r = running_taskD [OF assms(1)] and d = semaphore_okD [OF assms(2)]
  let ?k = "k\<lparr>cpu_primask := 1\<rparr>"
  have restore: "os_irq_restore 0 ?k = k" using r(9) by (simp add: machine_ops primask_same)
  have valid: "semaphore_is_valid_task_context (of_nat i) k \<noteq> 0" by (simp add: valid_waiter [OF assms(1)])
  have rot: "rotating (x, ?k)" using semaphore_rotating [OF assms(2) r(1)] by (simp add: rotating_def)
  have "task_blocked ?k j" if "semaphore_waits x j" for j using d(5) [of j] that by simp
  then have "snd (semaphore_find_next_waiting_task x ?k) = x" by (intro semaphore_find_keeps [OF rot])
  then obtain g where g: "semaphore_find_next_waiting_task x ?k = (g, x)" by (metis prod.collapse)
  then have next_g: "next_granted (x, k) = found_task g"
    using next_granted_primask [of x 1 k] by (simp add: next_granted_def)
  note post = os_semaphore_post_def os_get_current_task_id_def r(3) r(9) os_irq_save_def
  show ?thesis
  proof (cases "next_granted (x, k)")
    case None
    then have "g = 0xFFFFFFFF" using next_g by (simp add: found_task_def split: if_splits)
    then show ?thesis using None valid restore d(1) g by (simp add: post)
  next
    case (Some j)
    then have gj: "g \<noteq> 0xFFFFFFFF" "g = of_nat j" using next_g by (auto simp: found_task_def split: if_splits)
    note w = next_granted_waits [OF assms(2) r(1) Some]
    have j: "j < 8" using w(3) sched_wfD(3) [OF kernel_wfD(1) [OF r(1)]] by simp
    have bits: "semaphore_task_mask g = task_bit j" using gj(2) j by (simp add: semaphore_task_mask_eq)
    have resume: "os_irq_restore 0 ((readied j k)\<lparr>cpu_primask := 1\<rparr>) = readied j k"
      using r(9) by (simp add: machine_ops readied_def primask_same)
    have unblock: "task_unblock g ?k = (TASK_OK, (readied j k)\<lparr>cpu_primask := 1\<rparr>)"
      using unblock_waiter [OF w(4,2) j, of 1] gj(2) by simp
    show ?thesis
      using Some valid d(1) g gj(1) resume unblock
      by (simp add: post Let_def bits granted_to_def) (simp add: gj(2))
  qed
qed

text \<open>What a post does: one more unit, or an overflow error that changes nothing.\<close>

lemma post_ok:
  assumes "running_task k i" "semaphore_ok (task_total k) (task_blocked k) P x" "i \<notin> P"
    and "os_semaphore_post (Some x) k = (status, xo, k')"
  shows "\<exists>x'. xo = Some x' \<and> semaphore_ok (task_total k') (task_blocked k') P x' \<and>
    sem_maximum_count x' = sem_maximum_count x \<and>
    (status = OS_SEMAPHORE_ERROR_OVERFLOW \<and> x' = x \<and> k' = k \<and> sem_count x = sem_maximum_count x \<or>
     status = OS_SEMAPHORE_OK \<and> semaphore_units x' = Suc (semaphore_units x) \<and>
       (k' = k \<or> (\<exists>j \<in> P. task_blocked k j \<and> k' = readied j k)))"
proof (cases "next_granted (x, k)")
  case None
  note r = running_taskD [OF assms(1)] and d = semaphore_okD [OF assms(2)]
  have "\<not> semaphore_waits x j" for j
    using semaphore_ring.not_found_iff [OF semaphore_rotating [OF assms(2) r(1)]] None d(4,5) [of j]
    by (auto simp: wanted_def)
  then have empty: "sem_waiting_task_mask x = 0" by (simp add: u32_zero_iff_bits)
  show ?thesis
  proof (cases "sem_count x \<ge> sem_maximum_count x")
    case True
    then show ?thesis using assms(2,4) None d(2) by (auto simp: semaphore_post_eq [OF assms(1,2)])
  next
    case False
    have count: "unat (sem_count x + 1) = Suc (unat (sem_count x))"
      using False unat_u32_less [of "sem_maximum_count x"] by (simp add: u32_le_unat unat_word_ariths)
    let ?x = "x\<lparr>sem_count := sem_count x + 1\<rparr>"
    have "semaphore_ok (task_total k) (task_blocked k) P ?x"
      by (rule semaphore_okI) (use d(1-6) empty False count in \<open>simp_all add: u32_le_unat\<close>)
    moreover have "semaphore_units ?x = Suc (semaphore_units x)" using count by (simp add: semaphore_units_def)
    ultimately show ?thesis
      using assms(4) None False by (auto simp: semaphore_post_eq [OF assms(1,2)])
  qed
next
  case (Some j)
  note r = running_taskD [OF assms(1)] and d = semaphore_okD [OF assms(2)]
  note w = next_granted_waits [OF assms(2) r(1) Some]
  have j: "j < 32" "j < length (g_task_table k)" "unat (of_nat j :: u32) = j"
    using w(3) sched_wfD(3,4) [OF kernel_wfD(1) [OF r(1)]] by simp_all
  have not_granted: "\<not> semaphore_granted x j" using d(6) [of j] w(4) by blast
  have "sem_count x = 0" using d(7) w(5) by (cases "sem_count x = 0") (auto simp: word_gt_0)
  have "semaphore_ok (task_total k) ((task_blocked k)(j := False)) P (granted_to j x)"
  proof (rule semaphore_okI)
    show "semaphore_waits (granted_to j x) l \<longleftrightarrow> l \<in> P \<and> ((task_blocked k)(j := False)) l" for l
      using d(5) [of l] by (auto simp: granted_to_def bit_clear_task_bit)
    show "l \<in> P \<and> \<not> ((task_blocked k)(j := False)) l" if "semaphore_granted (granted_to j x) l" for l
      using d(6) [of l] that w(1) j(1) by (auto simp: granted_to_def bit_or_task_bit)
  qed (use d(1-4) w(3) j(3) \<open>sem_count x = 0\<close> in \<open>simp_all add: granted_to_def\<close>)
  moreover have "semaphore_units (granted_to j x) = Suc (semaphore_units x)"
    using granted_set [OF not_granted j(1)] by (simp add: granted_to_def semaphore_units_def)
  moreover have "status = OS_SEMAPHORE_OK" "xo = Some (granted_to j x)" "k' = readied j k"
    using assms(4) Some by (simp_all add: semaphore_post_eq [OF assms(1,2)])
  moreover have "sem_maximum_count (granted_to j x) = sem_maximum_count x" by (simp add: granted_to_def)
  ultimately show ?thesis
    using w(1,4) readied_blocked [OF w(4) j(2)] by auto
qed

end
