(* ===== verification/Ipc.thy ===== *)
theory Ipc
  imports Semaphore
begin

text \<open>
  A system of tasks that use any number of mutexes and semaphores. The state extends the
  kernel by the objects and by what each task is doing: nothing in the services, or being
  inside \<open>os_mutex_lock\<close> or \<open>os_semaphore_wait\<close> of one object. The step relation interleaves
  the kernel's own steps with the calls; each critical section is one step, since the code
  runs it with interrupts disabled. A step carries the calls that return in it.
\<close>

section \<open>State and steps\<close>

datatype activity = Outside | Locking nat | Waiting nat

record ipc = kernel +
  ipc_mutexes :: "nat \<Rightarrow> os_mutex_t"
  ipc_semaphores :: "nat \<Rightarrow> os_semaphore_t"
  ipc_activity :: "nat \<Rightarrow> activity"

text \<open>A call that returned: the caller, the object and the status.\<close>

datatype event =
    Locked nat nat int
  | Unlocked nat nat int
  | Waited nat nat int
  | Posted nat nat int

fun after_pass :: "loop_outcome \<Rightarrow> activity \<Rightarrow> activity" where
  "after_pass (Return status) a = Outside"
| "after_pass Again a = a"

fun returned :: "(int \<Rightarrow> event) \<Rightarrow> loop_outcome \<Rightarrow> event list" where
  "returned e (Return status) = [e status]"
| "returned e Again = []"

inductive ipc_step :: "'a ipc_scheme \<Rightarrow> event list \<Rightarrow> 'a ipc_scheme \<Rightarrow> bool" where
  kernel: "kernel_step k t k' \<Longrightarrow> ipc_step k [] k'"
| lock_refused: "thread_active k \<Longrightarrow> i = current_index k \<Longrightarrow> ipc_activity k i = Outside \<Longrightarrow>
    mutex_lock_prologue (Some (ipc_mutexes k m)) k = Inl status \<Longrightarrow>
    ipc_step k [Locked i m status] k"
| lock_call: "thread_active k \<Longrightarrow> i = current_index k \<Longrightarrow> ipc_activity k i = Outside \<Longrightarrow>
    mutex_lock_prologue (Some (ipc_mutexes k m)) k = Inr caller \<Longrightarrow>
    ipc_step k [] (k\<lparr>ipc_activity := (ipc_activity k)(i := Locking m)\<rparr>)"
| lock_pass: "thread_active k \<Longrightarrow> i = current_index k \<Longrightarrow> ipc_activity k i = Locking m \<Longrightarrow>
    mutex_lock_iteration (g_current_task_id k) (ipc_mutexes k m) k = (outcome, mutex, k') \<Longrightarrow>
    ipc_step k (returned (Locked i m) outcome)
      (k'\<lparr>ipc_mutexes := (ipc_mutexes k)(m := mutex),
          ipc_activity := (ipc_activity k)(i := after_pass outcome (Locking m))\<rparr>)"
| unlock: "thread_active k \<Longrightarrow> i = current_index k \<Longrightarrow> ipc_activity k i = Outside \<Longrightarrow>
    os_mutex_unlock (Some (ipc_mutexes k m)) k = (status, Some mutex, k') \<Longrightarrow>
    ipc_step k [Unlocked i m status] (k'\<lparr>ipc_mutexes := (ipc_mutexes k)(m := mutex)\<rparr>)"
| wait_refused: "thread_active k \<Longrightarrow> i = current_index k \<Longrightarrow> ipc_activity k i = Outside \<Longrightarrow>
    semaphore_wait_prologue (Some (ipc_semaphores k s)) k = Inl status \<Longrightarrow>
    ipc_step k [Waited i s status] k"
| wait_call: "thread_active k \<Longrightarrow> i = current_index k \<Longrightarrow> ipc_activity k i = Outside \<Longrightarrow>
    semaphore_wait_prologue (Some (ipc_semaphores k s)) k = Inr caller \<Longrightarrow>
    ipc_step k [] (k\<lparr>ipc_activity := (ipc_activity k)(i := Waiting s)\<rparr>)"
| wait_pass: "thread_active k \<Longrightarrow> i = current_index k \<Longrightarrow> ipc_activity k i = Waiting s \<Longrightarrow>
    semaphore_wait_iteration (g_current_task_id k) (ipc_semaphores k s) k = (outcome, semaphore, k') \<Longrightarrow>
    ipc_step k (returned (Waited i s) outcome)
      (k'\<lparr>ipc_semaphores := (ipc_semaphores k)(s := semaphore),
          ipc_activity := (ipc_activity k)(i := after_pass outcome (Waiting s))\<rparr>)"
| post: "thread_active k \<Longrightarrow> i = current_index k \<Longrightarrow> ipc_activity k i = Outside \<Longrightarrow>
    os_semaphore_post (Some (ipc_semaphores k s)) k = (status, Some semaphore, k') \<Longrightarrow>
    ipc_step k [Posted i s status] (k'\<lparr>ipc_semaphores := (ipc_semaphores k)(s := semaphore)\<rparr>)"

text \<open>An execution, with the calls that returned, the latest first.\<close>

inductive ipc_run :: "'a ipc_scheme \<Rightarrow> event list \<Rightarrow> 'a ipc_scheme \<Rightarrow> bool" for k0 where
  start: "ipc_run k0 [] k0"
| step: "ipc_run k0 es k \<Longrightarrow> ipc_step k e k' \<Longrightarrow> ipc_run k0 (e @ es) k'"

section \<open>The invariant\<close>

definition ipc_ok ::
  "nat \<Rightarrow> (nat \<Rightarrow> bool) \<Rightarrow> (nat \<Rightarrow> activity) \<Rightarrow> (nat \<Rightarrow> os_mutex_t) \<Rightarrow> (nat \<Rightarrow> os_semaphore_t) \<Rightarrow> bool"
where
  "ipc_ok n B act mx sx \<longleftrightarrow>
     (\<forall>m. mutex_ok n B {i. act i = Locking m} (mx m)) \<and>
     (\<forall>s. semaphore_ok n B {i. act i = Waiting s} (sx s)) \<and>
     (\<forall>i. B i \<longrightarrow> act i \<noteq> Outside)"

definition ipc_wf :: "'a ipc_scheme \<Rightarrow> bool" where
  "ipc_wf k \<longleftrightarrow> kernel_wf k \<and>
     ipc_ok (task_total k) (task_blocked k) (ipc_activity k) (ipc_mutexes k) (ipc_semaphores k)"

text \<open>Only the tasks of the object change: the other objects stay consistent.\<close>

lemma ipc_ok_mutex:
  assumes "ipc_ok n B act mx sx" "mutex_ok n B' {i. act' i = Locking m} mutex"
    and "\<And>i. act i \<noteq> Locking m \<Longrightarrow> act' i = act i \<and> B' i = B i"
    and "\<And>i. act i = Locking m \<Longrightarrow> act' i = Locking m \<or> act' i = Outside \<and> \<not> B' i"
  shows "ipc_ok n B' act' (mx(m := mutex)) sx"
proof -
  have other: "{i. act' i = Locking m'} = {i. act i = Locking m'}" if "m' \<noteq> m" for m'
    using assms(3,4) that by (metis activity.distinct(1) activity.inject(1))
  have waiting: "{i. act' i = Waiting s} = {i. act i = Waiting s}" for s
    using assms(3,4) by (metis activity.distinct(3,5))
  have "mutex_ok n B' {i. act i = Locking m'} (mx m')" if "m' \<noteq> m" for m'
  proof (rule mutex_object.ok_cong)
    show "mutex_ok n B {i. act i = Locking m'} (mx m')" using assms(1) by (simp add: ipc_ok_def)
    show "B' i = B i" if "i \<in> {i. act i = Locking m'}" for i
      using assms(3) [of i] that \<open>m' \<noteq> m\<close> by simp
  qed
  moreover have "semaphore_ok n B' {i. act i = Waiting s} (sx s)" for s
  proof (rule semaphore_object.ok_cong)
    show "semaphore_ok n B {i. act i = Waiting s} (sx s)" using assms(1) by (simp add: ipc_ok_def)
    show "B' i = B i" if "i \<in> {i. act i = Waiting s}" for i
      using assms(3) [of i] that by simp
  qed
  moreover have "act' i \<noteq> Outside" if "B' i" for i
    using assms(1) assms(3,4) [of i] that by (cases "act i = Locking m") (auto simp: ipc_ok_def)
  ultimately show ?thesis using assms(2) other by (simp add: ipc_ok_def waiting)
qed

lemma ipc_ok_semaphore:
  assumes "ipc_ok n B act mx sx" "semaphore_ok n B' {i. act' i = Waiting s} semaphore"
    and "\<And>i. act i \<noteq> Waiting s \<Longrightarrow> act' i = act i \<and> B' i = B i"
    and "\<And>i. act i = Waiting s \<Longrightarrow> act' i = Waiting s \<or> act' i = Outside \<and> \<not> B' i"
  shows "ipc_ok n B' act' mx (sx(s := semaphore))"
proof -
  have other: "{i. act' i = Waiting s'} = {i. act i = Waiting s'}" if "s' \<noteq> s" for s'
    using assms(3,4) that by (metis activity.distinct(3) activity.inject(2))
  have locking: "{i. act' i = Locking m} = {i. act i = Locking m}" for m
    using assms(3,4) by (metis activity.distinct(1,5))
  have "semaphore_ok n B' {i. act i = Waiting s'} (sx s')" if "s' \<noteq> s" for s'
  proof (rule semaphore_object.ok_cong)
    show "semaphore_ok n B {i. act i = Waiting s'} (sx s')" using assms(1) by (simp add: ipc_ok_def)
    show "B' i = B i" if "i \<in> {i. act i = Waiting s'}" for i
      using assms(3) [of i] that \<open>s' \<noteq> s\<close> by simp
  qed
  moreover have "mutex_ok n B' {i. act i = Locking m} (mx m)" for m
  proof (rule mutex_object.ok_cong)
    show "mutex_ok n B {i. act i = Locking m} (mx m)" using assms(1) by (simp add: ipc_ok_def)
    show "B' i = B i" if "i \<in> {i. act i = Locking m}" for i
      using assms(3) [of i] that by simp
  qed
  moreover have "act' i \<noteq> Outside" if "B' i" for i
    using assms(1) assms(3,4) [of i] that by (cases "act i = Waiting s") (auto simp: ipc_ok_def)
  ultimately show ?thesis using assms(2) other by (simp add: ipc_ok_def locking)
qed

lemma ipc_ok_enter:
  assumes "ipc_ok n B act mx sx" "act i = Outside" "0 < i" "i < n"
  shows "ipc_ok n B (act(i := Locking m)) mx sx" "ipc_ok n B (act(i := Waiting s)) mx sx"
proof -
  have free: "\<not> B i" using assms(1,2) by (auto simp: ipc_ok_def)
  have sets: "{j. (act(i := Locking m)) j = Locking m'} =
      (if m' = m then insert i {j. act j = Locking m'} else {j. act j = Locking m'})"
    "{j. (act(i := Locking m)) j = Waiting s'} = {j. act j = Waiting s'}"
    "{j. (act(i := Waiting s)) j = Waiting s'} =
      (if s' = s then insert i {j. act j = Waiting s'} else {j. act j = Waiting s'})"
    "{j. (act(i := Waiting s)) j = Locking m'} = {j. act j = Locking m'}" for m' s'
    using assms(2) by auto
  show "ipc_ok n B (act(i := Locking m)) mx sx" "ipc_ok n B (act(i := Waiting s)) mx sx"
    using assms free unfolding ipc_ok_def sets
    by (auto intro: mutex_object.ok_enter semaphore_object.ok_enter)
qed

section \<open>The kernel's steps\<close>

text \<open>The kernel does not touch what a record adds to its own state.\<close>

lemma update_task_kernel_more [simp]: "kernel.more (update_task i f k) = kernel.more k"
  by (simp add: update_task_def)

lemma kernel_step_more: "kernel_step k t k' \<Longrightarrow> kernel_wf k \<Longrightarrow> kernel.more k' = kernel.more k"
proof (induction rule: kernel_step.induct)
  case (systick k)
  then show ?case by (simp add: systick_handler_eq [OF kernel_wfD(1-3)] ticked_def)
next
  case (pendsv k k')
  have wf: "sched_wf k" by (rule kernel_wfD(1) [OF pendsv(4)])
  have "kernel.more (context_saved k) = kernel.more k"
    by (simp add: context_saved_def Let_def stmdb_eq os_save_current_task_stack_pointer_def
        os_get_current_task_id_def task_set_stack_pointer_eq)
  moreover have "kernel.more (requeue_current (context_saved k)) = kernel.more (context_saved k)"
    by (simp add: requeue_eq [OF context_saved_wf [OF wf]])
  ultimately have "kernel.more (snd (os_schedule_next (context_saved k))) = kernel.more k"
    by (simp add: os_schedule_next_eq [OF context_saved_wf [OF wf]] dispatch_def)
  then show ?case using pendsv(3) by (auto simp: PendSV_Handler_eq [OF wf] Let_def)
next
  case (yield k)
  then show ?case by (simp add: os_yield_def machine_ops)
next
  case (sleep k w)
  then show ?case by (simp add: os_sleep_critical_eq)
qed (simp_all add: os_scheduler_enable_preemption_def os_scheduler_disable_preemption_def)

lemma ipc_fields_more:
  assumes "kernel.more k' = kernel.more k"
  shows "ipc_mutexes k' = ipc_mutexes k" "ipc_semaphores k' = ipc_semaphores k"
    "ipc_activity k' = ipc_activity k"
  using assms by (cases k; cases k'; simp)+

lemma ipc_kernel_step:
  assumes "kernel_step k t k'" "ipc_wf k"
  shows "ipc_wf k' \<and> ipc_mutexes k' = ipc_mutexes k \<and> ipc_semaphores k' = ipc_semaphores k"
proof -
  have wf: "kernel_wf k" using assms(2) by (simp add: ipc_wf_def)
  have same: "task_blocked k' = task_blocked k" "g_task_count k' = g_task_count k"
    using kernel_step_blocked [OF assms(1) wf] by simp_all
  note fields = ipc_fields_more [OF kernel_step_more [OF assms(1) wf]]
  show ?thesis
    using assms(2) kernel_step_wf [OF assms(1) wf] by (simp add: ipc_wf_def same fields)
qed

section \<open>The steps of the services\<close>

lemma kernel_wf_irrelevant [simp]:
  "kernel_wf (k\<lparr>ipc_mutexes := mx\<rparr>) = kernel_wf k"
  "kernel_wf (k\<lparr>ipc_semaphores := sx\<rparr>) = kernel_wf k"
  "kernel_wf (k\<lparr>ipc_activity := act\<rparr>) = kernel_wf k"
proof -
  have "sched_wf (k\<lparr>ipc_mutexes := mx\<rparr>) = sched_wf k" "sched_wf (k\<lparr>ipc_semaphores := sx\<rparr>) = sched_wf k"
    "sched_wf (k\<lparr>ipc_activity := act\<rparr>) = sched_wf k"
    by (rule sched_wf_cong; simp)+
  then show "kernel_wf (k\<lparr>ipc_mutexes := mx\<rparr>) = kernel_wf k"
    "kernel_wf (k\<lparr>ipc_semaphores := sx\<rparr>) = kernel_wf k"
    "kernel_wf (k\<lparr>ipc_activity := act\<rparr>) = kernel_wf k"
    by (simp_all add: kernel_wf_def)
qed

lemma ipc_blocked_irrelevant [simp]:
  "task_blocked (k\<lparr>ipc_mutexes := mx\<rparr>) = task_blocked k"
  "task_blocked (k\<lparr>ipc_semaphores := sx\<rparr>) = task_blocked k"
  "task_blocked (k\<lparr>ipc_activity := act\<rparr>) = task_blocked k"
  by (simp_all add: task_blocked_def fun_eq_iff)

lemma blocked_caller_wf:
  assumes "running_task k i"
  shows "kernel_wf (blocked_caller i k)"
proof -
  note r = running_taskD [OF assms]
  let ?f = "\<lambda>t. t\<lparr>tcb_wakeup_tick := 0, tcb_state := TASK_STATE_BLOCKED\<rparr>"
  have "sched_wf (update_task i ?f k)"
    by (rule sched_wf_update [OF kernel_wfD(1) [OF r(1)] r(5)])
      (use r(4) tasks_wfD(4) [OF sched_wfD(1) [OF kernel_wfD(1) [OF r(1)]] r(5)] in
        \<open>simp_all add: tcb_wf_def\<close>)
  then show ?thesis using r(1) kernel_wfD [OF r(1)] by (simp add: blocked_caller_def kernel_wf_def)
qed

lemma readied_wf:
  assumes "running_task k i" "task_blocked k j"
  shows "kernel_wf (readied j k)"
proof -
  note r = running_taskD [OF assms(1)]
  have j: "j < task_total k" "j \<noteq> i" using assms(2) r(8) by (auto simp: task_blocked_def)
  let ?f = "\<lambda>t. t\<lparr>tcb_wakeup_tick := 0, tcb_state := TASK_STATE_READY\<rparr>"
  have "sched_wf (update_task j ?f k)"
    by (rule sched_wf_update [OF kernel_wfD(1) [OF r(1)] j(1)])
      (use tasks_wfD(4) [OF sched_wfD(1) [OF kernel_wfD(1) [OF r(1)]] j(1)] in \<open>simp_all add: tcb_wf_def\<close>)
  moreover have "state_of (update_task j ?f k) (current_index k) = TASK_STATE_RUNNING"
    using r(7,11) j(2) by simp
  ultimately show ?thesis using kernel_wfD [OF r(1)] by (simp add: readied_def kernel_wf_def)
qed

lemma update_task_ipc [simp]:
  "ipc_mutexes (update_task i f k) = ipc_mutexes k"
  "ipc_semaphores (update_task i f k) = ipc_semaphores k"
  "ipc_activity (update_task i f k) = ipc_activity k"
  by (simp_all add: update_task_def)

lemma ipc_frames [simp]:
  "ipc_mutexes (blocked_caller i k) = ipc_mutexes k" "ipc_mutexes (readied i k) = ipc_mutexes k"
  "ipc_semaphores (blocked_caller i k) = ipc_semaphores k" "ipc_semaphores (readied i k) = ipc_semaphores k"
  "ipc_activity (blocked_caller i k) = ipc_activity k" "ipc_activity (readied i k) = ipc_activity k"
  by (simp_all add: blocked_caller_def readied_def)

lemma ipc_wfD:
  assumes "ipc_wf k"
  shows "kernel_wf k"
    "mutex_ok (task_total k) (task_blocked k) {j. ipc_activity k j = Locking m} (ipc_mutexes k m)"
    "semaphore_ok (task_total k) (task_blocked k) {j. ipc_activity k j = Waiting s} (ipc_semaphores k s)"
    "task_blocked k i \<Longrightarrow> ipc_activity k i \<noteq> Outside"
    "ipc_ok (task_total k) (task_blocked k) (ipc_activity k) (ipc_mutexes k) (ipc_semaphores k)"
  using assms by (auto simp: ipc_wf_def ipc_ok_def)

lemma inside_running:
  assumes "ipc_wf k" "thread_active k" "i = current_index k" "ipc_activity k i \<noteq> Outside"
  shows "running_task k i"
proof -
  have "0 < i"
  proof (cases "ipc_activity k i")
    case (Locking m)
    then show ?thesis using mutex_okD(2) [OF ipc_wfD(2) [OF assms(1), of m], of i] by simp
  next
    case (Waiting s)
    then show ?thesis using semaphore_okD(4) [OF ipc_wfD(3) [OF assms(1), of s], of i] by simp
  qed (use assms(4) in simp)
  then show ?thesis using assms(2,3) ipc_wfD(1) [OF assms(1)] by (simp add: running_task_def)
qed

text \<open>A pass through the lock loop, and its meaning for the holder.\<close>

lemma lock_pass_ok:
  assumes "ipc_wf k" "thread_active k" "i = current_index k" "ipc_activity k i = Locking m"
    and "mutex_lock_iteration (g_current_task_id k) (ipc_mutexes k m) k = (outcome, mutex, k')"
  shows "ipc_wf (k'\<lparr>ipc_mutexes := (ipc_mutexes k)(m := mutex),
      ipc_activity := (ipc_activity k)(i := after_pass outcome (Locking m))\<rparr>)"
    "outcome = Return OS_MUTEX_OK \<and> mutex_holder (ipc_mutexes k m) = None \<and> mutex_holder mutex = Some i \<or>
     outcome = Return OS_MUTEX_ERROR_RECURSIVE_LOCK \<and> mutex_holder (ipc_mutexes k m) = Some i \<and>
       mutex_holder mutex = Some i \<or>
     outcome = Again \<and> mutex_holder mutex = mutex_holder (ipc_mutexes k m)"
    "ipc_semaphores k' = ipc_semaphores k"
proof -
  have run: "running_task k i" by (rule inside_running [OF assms(1-3)]) (simp add: assms(4))
  note r = running_taskD [OF run] and mx = ipc_wfD(2) [OF assms(1), of m]
  have id: "g_current_task_id k = of_nat i" by (rule r(3))
  have in_P: "i \<in> {j. ipc_activity k j = Locking m}" by (simp add: assms(4))
  have "ipc_wf (k'\<lparr>ipc_mutexes := (ipc_mutexes k)(m := mutex),
      ipc_activity := (ipc_activity k)(i := after_pass outcome (Locking m))\<rparr>) \<and>
    (outcome = Return OS_MUTEX_OK \<and> mutex_holder (ipc_mutexes k m) = None \<and> mutex_holder mutex = Some i \<or>
     outcome = Return OS_MUTEX_ERROR_RECURSIVE_LOCK \<and> mutex_holder (ipc_mutexes k m) = Some i \<and>
       mutex_holder mutex = Some i \<or>
     outcome = Again \<and> mutex_holder mutex = mutex_holder (ipc_mutexes k m)) \<and>
    ipc_semaphores k' = ipc_semaphores k"
  proof (cases outcome)
    case (Return status)
    have pass: "mutex_lock_iteration (of_nat i) (ipc_mutexes k m) k = (Return status, mutex, k')"
      using assms(5) id Return by simp
    note ret = lock_return_ok [OF run mx in_P r(8) pass]
    have left: "{j. ((ipc_activity k)(i := Outside)) j = Locking m} = {j. ipc_activity k j = Locking m} - {i}"
      by auto
    have "ipc_ok (task_total k) (task_blocked k) ((ipc_activity k)(i := Outside))
        ((ipc_mutexes k)(m := mutex)) (ipc_semaphores k)"
      by (rule ipc_ok_mutex [OF ipc_wfD(5) [OF assms(1)]]) (use ret left r(8) assms(4) in auto)
    then show ?thesis using ret Return r(1) by (auto simp: ipc_wf_def)
  next
    case Again
    have pass: "mutex_lock_iteration (of_nat i) (ipc_mutexes k m) k = (Again, mutex, k')"
      using assms(5) id Again by simp
    note ag = lock_again_ok [OF run mx in_P pass]
    have act: "(ipc_activity k)(i := Locking m) = ipc_activity k" using assms(4) by auto
    have "ipc_ok (task_total k) ((task_blocked k)(i := True)) (ipc_activity k)
        ((ipc_mutexes k)(m := mutex)) (ipc_semaphores k)"
      by (rule ipc_ok_mutex [OF ipc_wfD(5) [OF assms(1)]]) (use ag assms(4) in auto)
    then show ?thesis
      using ag Again blocked_caller_wf [OF run] blocked_caller_blocked [OF run] act by (simp add: ipc_wf_def)
  qed
  then show "ipc_wf (k'\<lparr>ipc_mutexes := (ipc_mutexes k)(m := mutex),
      ipc_activity := (ipc_activity k)(i := after_pass outcome (Locking m))\<rparr>)"
    "outcome = Return OS_MUTEX_OK \<and> mutex_holder (ipc_mutexes k m) = None \<and> mutex_holder mutex = Some i \<or>
     outcome = Return OS_MUTEX_ERROR_RECURSIVE_LOCK \<and> mutex_holder (ipc_mutexes k m) = Some i \<and>
       mutex_holder mutex = Some i \<or>
     outcome = Again \<and> mutex_holder mutex = mutex_holder (ipc_mutexes k m)"
    "ipc_semaphores k' = ipc_semaphores k" by blast+
qed

text \<open>A pass through the wait loop, and its meaning for the units.\<close>

lemma wait_pass_ok:
  assumes "ipc_wf k" "thread_active k" "i = current_index k" "ipc_activity k i = Waiting s"
    and "semaphore_wait_iteration (g_current_task_id k) (ipc_semaphores k s) k = (outcome, semaphore, k')"
  shows "ipc_wf (k'\<lparr>ipc_semaphores := (ipc_semaphores k)(s := semaphore),
      ipc_activity := (ipc_activity k)(i := after_pass outcome (Waiting s))\<rparr>)"
    "outcome = Return OS_SEMAPHORE_OK \<and> semaphore_units (ipc_semaphores k s) = Suc (semaphore_units semaphore) \<or>
     outcome = Again \<and> semaphore_units semaphore = semaphore_units (ipc_semaphores k s)"
    "sem_maximum_count semaphore = sem_maximum_count (ipc_semaphores k s)"
    "ipc_mutexes k' = ipc_mutexes k"
proof -
  have run: "running_task k i" by (rule inside_running [OF assms(1-3)]) (simp add: assms(4))
  note r = running_taskD [OF run] and sx = ipc_wfD(3) [OF assms(1), of s]
  have id: "g_current_task_id k = of_nat i" by (rule r(3))
  have in_P: "i \<in> {j. ipc_activity k j = Waiting s}" by (simp add: assms(4))
  have "ipc_wf (k'\<lparr>ipc_semaphores := (ipc_semaphores k)(s := semaphore),
      ipc_activity := (ipc_activity k)(i := after_pass outcome (Waiting s))\<rparr>) \<and>
    (outcome = Return OS_SEMAPHORE_OK \<and> semaphore_units (ipc_semaphores k s) = Suc (semaphore_units semaphore) \<or>
     outcome = Again \<and> semaphore_units semaphore = semaphore_units (ipc_semaphores k s)) \<and>
    sem_maximum_count semaphore = sem_maximum_count (ipc_semaphores k s) \<and>
    ipc_mutexes k' = ipc_mutexes k"
  proof (cases outcome)
    case (Return status)
    have pass: "semaphore_wait_iteration (of_nat i) (ipc_semaphores k s) k = (Return status, semaphore, k')"
      using assms(5) id Return by simp
    note ret = wait_return_ok [OF run sx in_P r(8) pass]
    have left: "{j. ((ipc_activity k)(i := Outside)) j = Waiting s} = {j. ipc_activity k j = Waiting s} - {i}"
      by auto
    have "ipc_ok (task_total k) (task_blocked k) ((ipc_activity k)(i := Outside))
        (ipc_mutexes k) ((ipc_semaphores k)(s := semaphore))"
      by (rule ipc_ok_semaphore [OF ipc_wfD(5) [OF assms(1)]]) (use ret left r(8) assms(4) in auto)
    then show ?thesis using ret Return r(1) by (auto simp: ipc_wf_def)
  next
    case Again
    have pass: "semaphore_wait_iteration (of_nat i) (ipc_semaphores k s) k = (Again, semaphore, k')"
      using assms(5) id Again by simp
    note ag = wait_again_ok [OF run sx in_P r(8) pass]
    have act: "(ipc_activity k)(i := Waiting s) = ipc_activity k" using assms(4) by auto
    have "ipc_ok (task_total k) ((task_blocked k)(i := True)) (ipc_activity k)
        (ipc_mutexes k) ((ipc_semaphores k)(s := semaphore))"
      by (rule ipc_ok_semaphore [OF ipc_wfD(5) [OF assms(1)]]) (use ag assms(4) in auto)
    then show ?thesis
      using ag Again blocked_caller_wf [OF run] blocked_caller_blocked [OF run] act by (simp add: ipc_wf_def)
  qed
  then show "ipc_wf (k'\<lparr>ipc_semaphores := (ipc_semaphores k)(s := semaphore),
      ipc_activity := (ipc_activity k)(i := after_pass outcome (Waiting s))\<rparr>)"
    "outcome = Return OS_SEMAPHORE_OK \<and> semaphore_units (ipc_semaphores k s) = Suc (semaphore_units semaphore) \<or>
     outcome = Again \<and> semaphore_units semaphore = semaphore_units (ipc_semaphores k s)"
    "sem_maximum_count semaphore = sem_maximum_count (ipc_semaphores k s)"
    "ipc_mutexes k' = ipc_mutexes k" by blast+
qed

text \<open>The idle task is refused by every call.\<close>

lemma idle_refused:
  assumes "current_index k = 0"
  shows "mutex_is_valid_task_context (g_current_task_id k) k = 0"
    "semaphore_is_valid_task_context (g_current_task_id k) k = 0"
  using assms by (simp_all add: mutex_is_valid_task_context_def semaphore_is_valid_task_context_def unat_eq_0)

lemma readied_step:
  assumes "ipc_wf k" "running_task k i" "task_blocked k j"
  shows "kernel_wf (readied j k)" "task_blocked (readied j k) = (task_blocked k)(j := False)"
proof -
  have "j < length (g_task_table k)"
    using assms(3) sched_wfD(3,4) [OF kernel_wfD(1) [OF ipc_wfD(1) [OF assms(1)]]]
    by (simp add: task_blocked_def)
  then show "task_blocked (readied j k) = (task_blocked k)(j := False)"
    by (rule readied_blocked [OF assms(3)])
qed (rule readied_wf [OF assms(2,3)])

lemma ipc_unlock_ok:
  assumes "ipc_wf k" "thread_active k" "i = current_index k" "ipc_activity k i = Outside"
    and "os_mutex_unlock (Some (ipc_mutexes k m)) k = (status, Some mutex, k')"
  shows "ipc_wf (k'\<lparr>ipc_mutexes := (ipc_mutexes k)(m := mutex)\<rparr>) \<and>
    (status = OS_MUTEX_OK \<and> mutex_holder (ipc_mutexes k m) = Some i \<and> mutex_holder mutex = None \<or>
     status = OS_MUTEX_ERROR_NOT_OWNER \<and> mutex_holder (ipc_mutexes k m) \<noteq> Some i \<and> mutex = ipc_mutexes k m \<or>
     status = OS_MUTEX_ERROR_INVALID_CONTEXT \<and> i = 0 \<and> mutex = ipc_mutexes k m) \<and>
    ipc_semaphores k' = ipc_semaphores k \<and> ipc_activity k' = ipc_activity k"
proof (cases "i = 0")
  case True
  have "mx_is_initialized (ipc_mutexes k m) = 1" by (rule mutex_okD(1) [OF ipc_wfD(2) [OF assms(1)]])
  then have "status = OS_MUTEX_ERROR_INVALID_CONTEXT" "mutex = ipc_mutexes k m" "k' = k"
    using assms(5) idle_refused(1) [of k] True assms(3)
    by (auto simp: os_mutex_unlock_def os_get_current_task_id_def)
  then show ?thesis using assms(1) True by (simp add: ipc_wf_def)
next
  case False
  then have run: "running_task k i"
    using assms(2,3) ipc_wfD(1) [OF assms(1)] by (simp add: running_task_def)
  have out: "i \<notin> {j. ipc_activity k j = Locking m}" by (simp add: assms(4))
  note un = unlock_ok [OF run ipc_wfD(2) [OF assms(1), of m] out assms(5)]
  show ?thesis
  proof (cases "k' = k")
    case True
    have "ipc_ok (task_total k) (task_blocked k) (ipc_activity k) ((ipc_mutexes k)(m := mutex)) (ipc_semaphores k)"
      by (rule ipc_ok_mutex [OF ipc_wfD(5) [OF assms(1)]]) (use un True in auto)
    then show ?thesis using un True ipc_wfD(1) [OF assms(1)] by (auto simp: ipc_wf_def)
  next
    case False
    then obtain j where j: "ipc_activity k j = Locking m" "task_blocked k j" "k' = readied j k"
      and st: "status = OS_MUTEX_OK" "mutex_holder (ipc_mutexes k m) = Some i" "mutex_holder mutex = None"
      and ok: "mutex_ok (task_total k') (task_blocked k') {j. ipc_activity k j = Locking m} mutex"
      using un by auto
    note rd = readied_step [OF assms(1) run j(2)]
    have "ipc_ok (task_total k) ((task_blocked k)(j := False)) (ipc_activity k)
        ((ipc_mutexes k)(m := mutex)) (ipc_semaphores k)"
      by (rule ipc_ok_mutex [OF ipc_wfD(5) [OF assms(1)]]) (use ok j rd in auto)
    then show ?thesis using st j rd by (simp add: ipc_wf_def)
  qed
qed

lemma ipc_post_ok:
  assumes "ipc_wf k" "thread_active k" "i = current_index k" "ipc_activity k i = Outside"
    and "os_semaphore_post (Some (ipc_semaphores k s)) k = (status, Some semaphore, k')"
  shows "ipc_wf (k'\<lparr>ipc_semaphores := (ipc_semaphores k)(s := semaphore)\<rparr>) \<and>
    (status = OS_SEMAPHORE_OK \<and> semaphore_units semaphore = Suc (semaphore_units (ipc_semaphores k s)) \<or>
     status = OS_SEMAPHORE_ERROR_OVERFLOW \<and> semaphore = ipc_semaphores k s \<and>
       sem_count semaphore = sem_maximum_count semaphore \<or>
     status = OS_SEMAPHORE_ERROR_INVALID_CONTEXT \<and> i = 0 \<and> semaphore = ipc_semaphores k s) \<and>
    sem_maximum_count semaphore = sem_maximum_count (ipc_semaphores k s) \<and>
    ipc_mutexes k' = ipc_mutexes k \<and> ipc_activity k' = ipc_activity k"
proof (cases "i = 0")
  case True
  have "sem_is_initialized (ipc_semaphores k s) = 1" by (rule semaphore_okD(1) [OF ipc_wfD(3) [OF assms(1)]])
  then have "status = OS_SEMAPHORE_ERROR_INVALID_CONTEXT" "semaphore = ipc_semaphores k s" "k' = k"
    using assms(5) idle_refused(2) [of k] True assms(3)
    by (auto simp: os_semaphore_post_def os_get_current_task_id_def)
  then show ?thesis using assms(1) True by (simp add: ipc_wf_def)
next
  case False
  then have run: "running_task k i"
    using assms(2,3) ipc_wfD(1) [OF assms(1)] by (simp add: running_task_def)
  have out: "i \<notin> {j. ipc_activity k j = Waiting s}" by (simp add: assms(4))
  note po = post_ok [OF run ipc_wfD(3) [OF assms(1), of s] out assms(5)]
  show ?thesis
  proof (cases "k' = k")
    case True
    have "ipc_ok (task_total k) (task_blocked k) (ipc_activity k) (ipc_mutexes k) ((ipc_semaphores k)(s := semaphore))"
      by (rule ipc_ok_semaphore [OF ipc_wfD(5) [OF assms(1)]]) (use po True in auto)
    then show ?thesis using po True ipc_wfD(1) [OF assms(1)] by (auto simp: ipc_wf_def)
  next
    case False
    then obtain j where j: "ipc_activity k j = Waiting s" "task_blocked k j" "k' = readied j k"
      and st: "status = OS_SEMAPHORE_OK" "semaphore_units semaphore = Suc (semaphore_units (ipc_semaphores k s))"
        "sem_maximum_count semaphore = sem_maximum_count (ipc_semaphores k s)"
      and ok: "semaphore_ok (task_total k') (task_blocked k') {j. ipc_activity k j = Waiting s} semaphore"
      using po by auto
    note rd = readied_step [OF assms(1) run j(2)]
    have "ipc_ok (task_total k) ((task_blocked k)(j := False)) (ipc_activity k)
        (ipc_mutexes k) ((ipc_semaphores k)(s := semaphore))"
      by (rule ipc_ok_semaphore [OF ipc_wfD(5) [OF assms(1)]]) (use ok j rd in auto)
    then show ?thesis using st j rd by (simp add: ipc_wf_def)
  qed
qed

text \<open>The checks before the loops.\<close>

lemma prologue_ok:
  assumes "ipc_wf k" "i = current_index k"
  shows "mutex_lock_prologue (Some (ipc_mutexes k m)) k =
      (if i = 0 then Inl OS_MUTEX_ERROR_INVALID_CONTEXT else Inr (g_current_task_id k))"
    "semaphore_wait_prologue (Some (ipc_semaphores k s)) k =
      (if i = 0 then Inl OS_SEMAPHORE_ERROR_INVALID_CONTEXT else Inr (g_current_task_id k))"
proof -
  note d = kernel_wfD [OF ipc_wfD(1) [OF assms(1)]]
  have init: "mx_is_initialized (ipc_mutexes k m) = 1" "sem_is_initialized (ipc_semaphores k s) = 1"
    using mutex_okD(1) [OF ipc_wfD(2) [OF assms(1)]] semaphore_okD(1) [OF ipc_wfD(3) [OF assms(1)]] by blast+
  have "g_current_task_id k \<noteq> 0xFFFFFFFF" "\<not> g_task_count k \<le> g_current_task_id k"
    using sched_wfD(2,5) [OF d(1)] by (auto simp: u32_eq_iff_unat u32_le_unat)
  then show "mutex_lock_prologue (Some (ipc_mutexes k m)) k =
      (if i = 0 then Inl OS_MUTEX_ERROR_INVALID_CONTEXT else Inr (g_current_task_id k))"
    "semaphore_wait_prologue (Some (ipc_semaphores k s)) k =
      (if i = 0 then Inl OS_SEMAPHORE_ERROR_INVALID_CONTEXT else Inr (g_current_task_id k))"
    using init d(2,3,5) assms(2)
    by (simp_all add: mutex_lock_prologue_def semaphore_wait_prologue_def os_get_current_task_id_def
        mutex_is_valid_task_context_def semaphore_is_valid_task_context_def os_scheduler_get_state_def
        task_get_count_def machine_ops unat_eq_0)
qed

lemma ipc_enter_ok:
  assumes "ipc_wf k" "i = current_index k" "i \<noteq> 0" "ipc_activity k i = Outside"
  shows "ipc_wf (k\<lparr>ipc_activity := (ipc_activity k)(i := Locking m)\<rparr>)"
    "ipc_wf (k\<lparr>ipc_activity := (ipc_activity k)(i := Waiting s)\<rparr>)"
  using ipc_ok_enter [OF ipc_wfD(5) [OF assms(1)] assms(4)] assms(2,3) ipc_wfD(1) [OF assms(1)]
    sched_wfD(2) [OF kernel_wfD(1) [OF ipc_wfD(1) [OF assms(1)]]]
  by (simp_all add: ipc_wf_def)

section \<open>Executions\<close>

text \<open>What a step returns, as the abstract services see it.\<close>

text \<open>The holder of mutex \<open>m\<close>, computed from the calls that returned (the latest first).\<close>

fun holder :: "nat \<Rightarrow> event list \<Rightarrow> nat option" where
  "holder m [] = None"
| "holder m (Locked i m' status # es) = (if m' = m \<and> status = OS_MUTEX_OK then Some i else holder m es)"
| "holder m (Unlocked i m' status # es) = (if m' = m \<and> status = OS_MUTEX_OK then None else holder m es)"
| "holder m (Waited i s status # es) = holder m es"
| "holder m (Posted i s status # es) = holder m es"

text \<open>The abstract mutex: which status each call may return.\<close>

fun lock_spec :: "nat \<Rightarrow> event list \<Rightarrow> bool" where
  "lock_spec m [] = True"
| "lock_spec m (Locked i m' status # es) = (lock_spec m es \<and>
     (m' = m \<longrightarrow> status = OS_MUTEX_OK \<and> holder m es = None \<or>
                 status = OS_MUTEX_ERROR_RECURSIVE_LOCK \<and> holder m es = Some i \<or>
                 status = OS_MUTEX_ERROR_INVALID_CONTEXT \<and> i = 0))"
| "lock_spec m (Unlocked i m' status # es) = (lock_spec m es \<and>
     (m' = m \<longrightarrow> status = OS_MUTEX_OK \<and> holder m es = Some i \<or>
                 status = OS_MUTEX_ERROR_NOT_OWNER \<and> holder m es \<noteq> Some i \<or>
                 status = OS_MUTEX_ERROR_INVALID_CONTEXT \<and> i = 0))"
| "lock_spec m (Waited i s status # es) = lock_spec m es"
| "lock_spec m (Posted i s status # es) = lock_spec m es"

text \<open>Units taken from and put into semaphore \<open>s\<close> by the calls that returned.\<close>

fun taken :: "nat \<Rightarrow> event list \<Rightarrow> nat" where
  "taken s [] = 0"
| "taken s (Waited i s' status # es) = (if s' = s \<and> status = OS_SEMAPHORE_OK then 1 else 0) + taken s es"
| "taken s (Locked i m status # es) = taken s es"
| "taken s (Unlocked i m status # es) = taken s es"
| "taken s (Posted i s' status # es) = taken s es"

fun posted :: "nat \<Rightarrow> event list \<Rightarrow> nat" where
  "posted s [] = 0"
| "posted s (Posted i s' status # es) = (if s' = s \<and> status = OS_SEMAPHORE_OK then 1 else 0) + posted s es"
| "posted s (Locked i m status # es) = posted s es"
| "posted s (Unlocked i m status # es) = posted s es"
| "posted s (Waited i s' status # es) = posted s es"

lemma ipc_step_wf:
  assumes "ipc_step k e k'" "ipc_wf k"
  shows "ipc_wf k'"
  using assms
proof (induction rule: ipc_step.induct)
  case (kernel k t k')
  then show ?case using ipc_kernel_step by blast
next
  case (lock_call k i m caller)
  then have "i \<noteq> 0" using prologue_ok(1) [of k i m] by (cases "i = 0") auto
  then show ?case using ipc_enter_ok(1) lock_call by blast
next
  case (lock_pass k i m outcome mutex k')
  then show ?case using lock_pass_ok(1) by blast
next
  case (unlock k i m status mutex k')
  then show ?case using ipc_unlock_ok by blast
next
  case (wait_call k i s caller)
  then have "i \<noteq> 0" using prologue_ok(2) [of k i s] by (cases "i = 0") auto
  then show ?case using ipc_enter_ok(2) wait_call by blast
next
  case (wait_pass k i s outcome semaphore k')
  then show ?case using wait_pass_ok(1) by blast
next
  case (post k i s status semaphore k')
  then show ?case using ipc_post_ok by blast
qed

lemma ipc_run_wf: "ipc_run k0 es k \<Longrightarrow> ipc_wf k0 \<Longrightarrow> ipc_wf k"
  by (induction rule: ipc_run.induct) (auto intro: ipc_step_wf)

text \<open>One step refines the abstract mutex and the abstract counter.\<close>

lemma ipc_step_mutex:
  assumes "ipc_step k e k'" "ipc_wf k" "mutex_holder (ipc_mutexes k m) = holder m es" "lock_spec m es"
  shows "mutex_holder (ipc_mutexes k' m) = holder m (e @ es) \<and> lock_spec m (e @ es)"
  using assms
proof (induction rule: ipc_step.induct)
  case (kernel k t k')
  then show ?case using ipc_kernel_step [of k t k'] by simp
next
  case (lock_refused k i m' status)
  then show ?case using prologue_ok(1) [of k i m'] by (simp split: if_splits)
next
  case (lock_pass k i m' outcome mutex k')
  then show ?case
    using lock_pass_ok(2) [of k i m' outcome mutex k'] by (cases "m' = m") (auto split: loop_outcome.splits)
next
  case (unlock k i m' status mutex k')
  then show ?case using ipc_unlock_ok [of k i m' status mutex k'] by (cases "m' = m") auto
next
  case (wait_pass k i s outcome semaphore k')
  then show ?case using wait_pass_ok(4) [of k i s outcome semaphore k'] by (cases outcome) auto
next
  case (post k i s status semaphore k')
  then show ?case using ipc_post_ok [of k i s status semaphore k'] by simp
qed simp_all

lemma ipc_step_semaphore:
  assumes "ipc_step k e k'" "ipc_wf k"
    and "semaphore_units (ipc_semaphores k s) + taken s es = n + posted s es"
  shows "semaphore_units (ipc_semaphores k' s) + taken s (e @ es) = n + posted s (e @ es) \<and>
    sem_maximum_count (ipc_semaphores k' s) = sem_maximum_count (ipc_semaphores k s)"
  using assms
proof (induction rule: ipc_step.induct)
  case (kernel k t k')
  then show ?case using ipc_kernel_step [of k t k'] by simp
next
  case (lock_pass k i m outcome mutex k')
  then show ?case using lock_pass_ok(3) [of k i m outcome mutex k'] by (cases outcome) auto
next
  case (unlock k i m status mutex k')
  then show ?case using ipc_unlock_ok [of k i m status mutex k'] by simp
next
  case (wait_refused k i s' status)
  then show ?case using prologue_ok(2) [of k i s'] by (simp split: if_splits)
next
  case (wait_pass k i s' outcome semaphore k')
  then show ?case
    using wait_pass_ok(2,3) [of k i s' outcome semaphore k'] by (cases "s' = s") (cases outcome; auto)+
next
  case (post k i s' status semaphore k')
  then show ?case using ipc_post_ok [of k i s' status semaphore k'] by (cases "s' = s") auto
qed simp_all

end
