(* ===== verification/Ipc_Fairness.thy ===== *)
theory Ipc_Fairness
  imports Ipc
begin

text \<open>
  Fairness of the direct handoff: a task that waits for a mutex is overtaken by at most as
  many other tasks as lie between the owner and it in the circular order, and likewise for a
  semaphore and its posts. Both rest on the rotation contract of theory Ring_Search.
\<close>

section \<open>Mutex\<close>

text \<open>Successful unlocks of mutex \<open>m\<close>.\<close>

fun unlocks :: "nat \<Rightarrow> event list \<Rightarrow> nat" where
  "unlocks m [] = 0"
| "unlocks m (Unlocked i m' status # es) = (if m' = m \<and> status = OS_MUTEX_OK then 1 else 0) + unlocks m es"
| "unlocks m (Locked i m' status # es) = unlocks m es"
| "unlocks m (Waited i s status # es) = unlocks m es"
| "unlocks m (Posted i s status # es) = unlocks m es"

lemma unlocks_append [simp]: "unlocks m (e @ es) = unlocks m e + unlocks m es"
  by (induction m e rule: unlocks.induct) simp_all

text \<open>Registered and not the owner; registered and the owner, which only has to run.\<close>

definition mutex_queued :: "nat \<Rightarrow> os_mutex_t \<Rightarrow> bool" where
  "mutex_queued j m \<longleftrightarrow> mx_is_locked m \<noteq> 0 \<and> mutex_waits m j \<and> unat (mx_owner_task_id m) \<noteq> j"

definition mutex_handed :: "nat \<Rightarrow> os_mutex_t \<Rightarrow> bool" where
  "mutex_handed j m \<longleftrightarrow> mx_is_locked m \<noteq> 0 \<and> mutex_waits m j \<and> unat (mx_owner_task_id m) = j"

definition owner_dist :: "nat \<Rightarrow> nat \<Rightarrow> os_mutex_t \<Rightarrow> nat" where
  "owner_dist n j m = ring_dist (unat (mx_owner_task_id m)) n j"

lemma lock_pass_queued:
  assumes "running_task k i" "mx_is_initialized m = 1" "mutex_queued j m" "i \<noteq> j"
    and "mutex_lock_iteration (of_nat i) m k = (outcome, m', k')"
  shows "mutex_queued j m' \<and> owner_dist n j m' = owner_dist n j m"
  using assms running_taskD(6) [OF assms(1)]
  by (auto simp: mutex_lock_iteration_eq [OF assms(1)] mutex_queued_def owner_dist_def bit_clear_task_bit
      bit_or_task_bit split: if_splits)

lemma lock_pass_handed:
  assumes "running_task k i" "mx_is_initialized m = 1" "mutex_handed j m"
    and "mutex_lock_iteration (of_nat i) m k = (outcome, m', k')"
  shows "mutex_handed j m' \<and> i \<noteq> j \<or> i = j \<and> outcome = Return OS_MUTEX_OK"
proof (cases "i = j")
  case True
  then have "mx_owner_task_id m = of_nat i" using assms(3) by (auto simp: mutex_handed_def)
  then show ?thesis
    using assms(2-4) by (simp add: mutex_lock_iteration_eq [OF assms(1), unfolded True] mutex_handed_def True)
next
  case False
  then have "mx_owner_task_id m \<noteq> of_nat i"
    using assms(3) running_taskD(6) [OF assms(1)] by (auto simp: mutex_handed_def)
  then show ?thesis
    using False assms running_taskD(6) [OF assms(1)]
    by (auto simp: mutex_lock_iteration_eq [OF assms(1)] mutex_handed_def bit_or_task_bit)
qed

lemma unlock_queued:
  assumes "running_task k i" "mutex_ok (task_total k) (task_blocked k) P m" "i \<notin> P" "mutex_queued j m"
    and "os_mutex_unlock (Some m) k = (status, Some m', k')"
  shows "status = OS_MUTEX_OK \<and> mutex_handed j m' \<or>
    status = OS_MUTEX_OK \<and> mutex_queued j m' \<and> owner_dist (task_total k) j m' < owner_dist (task_total k) j m \<or>
    status \<noteq> OS_MUTEX_OK \<and> m' = m"
proof (cases "mutex_holder m = Some i")
  case False
  then show ?thesis using assms(5) by (simp add: mutex_unlock_eq [OF assms(1-3)])
next
  case True
  note r = running_taskD [OF assms(1)] and d = mutex_okD [OF assms(2)]
  have owner: "unat (mx_owner_task_id m) = i" using True by (simp add: mutex_holder_def split: if_splits)
  then have owned: "owned (m, k)" using kernel_wfD(1) [OF r(1)] r(5) by (simp add: owned_def)
  have q: "mx_is_locked m \<noteq> 0" "mutex_waits m j" "i \<noteq> j"
    using assms(4) owner by (simp_all add: mutex_queued_def)
  have j: "wanted k (mx_waiting_task_mask m) j" "0 < j" "j < task_total k"
    using d(9) [OF q(1,2)] d(4) [OF q(2)] d(2) [of j] q(2,3) owner by (simp_all add: wanted_def)
  obtain l where l: "next_owner (m, k) = Some l"
    using mutex_ring.found_if_eligible [OF owned, of j] j by auto
  have l8: "l < 8" using mutex_ring.found [OF owned l] sched_wfD(3) [OF kernel_wfD(1) [OF r(1)]] by simp
  have m': "status = OS_MUTEX_OK" "m' = m\<lparr>mx_owner_task_id := of_nat l\<rparr>"
    using assms(5) True l by (simp_all add: mutex_unlock_eq [OF assms(1-3)])
  show ?thesis
  proof (cases "l = j")
    case True
    then show ?thesis using m' q l8 by (simp add: mutex_handed_def)
  next
    case False
    have "fst (mutex_find_next_waiting_task m (mx_owner_task_id m) k) = of_nat l"
      using l by (auto simp: next_owner_def found_task_def split: if_splits)
    then have "owner_dist (task_total k) j m' < owner_dist (task_total k) j m"
      using mutex_ring.closer [OF owned l, of j "(m', k)"] j False m'(2) by (simp add: owner_dist_def)
    then show ?thesis using m' q False l8 by (simp add: mutex_queued_def)
  qed
qed

text \<open>The progress of a waiting task over one step of the system.\<close>

lemma ipc_step_queued:
  assumes "ipc_step k e k'" "ipc_wf k" "mutex_queued j (ipc_mutexes k m)"
  shows "mutex_handed j (ipc_mutexes k' m) \<or>
    mutex_queued j (ipc_mutexes k' m) \<and>
      owner_dist (task_total k) j (ipc_mutexes k' m) + unlocks m e \<le> owner_dist (task_total k) j (ipc_mutexes k m)"
  using assms
proof (induction rule: ipc_step.induct)
  case (kernel k t k')
  then show ?case using ipc_kernel_step [of k t k'] by simp
next
  case (lock_pass k i m1 outcome mutex k')
  have none: "unlocks m (returned (Locked i m1) outcome) = 0" by (cases outcome) simp_all
  show ?case
  proof (cases "m1 = m")
    case False
    then show ?thesis using lock_pass none by simp
  next
    case True
    have run: "running_task k i"
      using inside_running [OF lock_pass(5) lock_pass(1,2)] lock_pass(3) by simp
    note mx = ipc_wfD(2) [OF lock_pass(5), of m]
    have "task_blocked k j"
      using mutex_okD(9) [OF mx, of j] lock_pass(6) by (simp add: mutex_queued_def)
    then have "i \<noteq> j" using running_taskD(8) [OF run] by blast
    then show ?thesis
      using lock_pass_queued [OF run mutex_okD(1) [OF mx] lock_pass(6) _, of outcome mutex k' "task_total k"]
        lock_pass(4) running_taskD(3) [OF run] True none by simp
  qed
next
  case (unlock k i m1 status mutex k')
  show ?case
  proof (cases "m1 = m \<and> i \<noteq> 0")
    case False
    then have "mutex = ipc_mutexes k m \<and> status \<noteq> OS_MUTEX_OK" if "m1 = m"
      using that ipc_unlock_ok [OF unlock(5,1,2,3), of m status mutex k'] unlock(4)
        mutex_okD(7) [OF ipc_wfD(2) [OF unlock(5), of m]] unlock(6)
      by (auto simp: mutex_holder_def mutex_queued_def split: if_splits)
    then show ?thesis using unlock(6) by (cases "m1 = m") auto
  next
    case True
    then have run: "running_task k i"
      using unlock(1,2) ipc_wfD(1) [OF unlock(5)] by (simp add: running_task_def)
    have "i \<notin> {l. ipc_activity k l = Locking m}" using unlock(3) by simp
    then show ?thesis
      using unlock_queued [OF run ipc_wfD(2) [OF unlock(5), of m] _ unlock(6), of status mutex k'] unlock(4) unlock(6) True
      by auto
  qed
next
  case (wait_pass k i s outcome semaphore k')
  then show ?case using wait_pass_ok(4) [of k i s outcome semaphore k'] by (cases outcome) auto
next
  case (post k i s status semaphore k')
  then show ?case using ipc_post_ok [of k i s status semaphore k'] by simp
qed simp_all

lemma ipc_step_handed:
  assumes "ipc_step k e k'" "ipc_wf k" "mutex_handed j (ipc_mutexes k m)"
  shows "mutex_handed j (ipc_mutexes k' m) \<or> Locked j m OS_MUTEX_OK \<in> set e"
  using assms
proof (induction rule: ipc_step.induct)
  case (kernel k t k')
  then show ?case using ipc_kernel_step [of k t k'] by simp
next
  case (lock_pass k i m1 outcome mutex k')
  have run: "running_task k i"
    using inside_running [OF lock_pass(5) lock_pass(1,2)] lock_pass(3) by simp
  show ?case
    using lock_pass_handed [OF run mutex_okD(1) [OF ipc_wfD(2) [OF lock_pass(5), of m]] lock_pass(6), of outcome mutex k']
      lock_pass(4,6) running_taskD(3) [OF run]
    by (cases "m1 = m") auto
next
  case (unlock k i m1 status mutex k')
  have "mutex_holder (ipc_mutexes k m) = None" using unlock(6) by (simp add: mutex_handed_def mutex_holder_def)
  then show ?case
    using ipc_unlock_ok [OF unlock(5,1,2,3), of m1 status mutex k'] unlock(4,6) by (cases "m1 = m") auto
next
  case (wait_pass k i s outcome semaphore k')
  then show ?case using wait_pass_ok(4) [of k i s outcome semaphore k'] by simp
next
  case (post k i s status semaphore k')
  then show ?case using ipc_post_ok [of k i s status semaphore k'] by simp
qed simp_all

text \<open>The number of tasks never changes.\<close>

lemma lock_pass_count:
  "mutex_lock_iteration c m k = (outcome, m', k') \<Longrightarrow> g_task_count k' = g_task_count k"
  by (auto simp: mutex_lock_iteration_def Let_def machine_ops task_block_eq split: if_splits)

lemma wait_pass_count:
  "semaphore_wait_iteration c x k = (outcome, x', k') \<Longrightarrow> g_task_count k' = g_task_count k"
  by (auto simp: semaphore_wait_iteration_def Let_def machine_ops task_block_eq split: if_splits)

lemma unlock_count:
  "os_mutex_unlock m k = (status, m', k') \<Longrightarrow> g_task_count k' = g_task_count k"
  by (auto simp: os_mutex_unlock_def Let_def machine_ops task_unblock_eq split: if_splits option.splits prod.splits)

lemma post_count:
  "os_semaphore_post x k = (status, x', k') \<Longrightarrow> g_task_count k' = g_task_count k"
  by (auto simp: os_semaphore_post_def Let_def machine_ops task_unblock_eq split: if_splits option.splits prod.splits)

lemma ipc_step_count: "ipc_step k e k' \<Longrightarrow> ipc_wf k \<Longrightarrow> g_task_count k' = g_task_count k"
proof (induction rule: ipc_step.induct)
  case (kernel k t k')
  then show ?case using kernel_step_blocked ipc_wfD(1) by blast
qed (auto dest: lock_pass_count wait_pass_count unlock_count post_count)

text \<open>What has become of a task that waited for mutex \<open>m\<close> in \<open>k0\<close>.\<close>

definition mutex_progress :: "nat \<Rightarrow> nat \<Rightarrow> nat \<Rightarrow> event list \<Rightarrow> 'a ipc_scheme \<Rightarrow> bool" where
  "mutex_progress m j d es k \<longleftrightarrow>
     Locked j m OS_MUTEX_OK \<in> set es \<or> mutex_handed j (ipc_mutexes k m) \<or>
     mutex_queued j (ipc_mutexes k m) \<and> owner_dist (task_total k) j (ipc_mutexes k m) + unlocks m es \<le> d"

lemma ipc_run_progress:
  assumes "ipc_run k0 es k" "ipc_wf k0" "mutex_queued j (ipc_mutexes k0 m)"
  shows "mutex_progress m j (owner_dist (task_total k0) j (ipc_mutexes k0 m)) es k"
  using assms(1)
proof induction
  case start
  then show ?case using assms(3) by (simp add: mutex_progress_def)
next
  case (step es k e k')
  have wf: "ipc_wf k" by (rule ipc_run_wf [OF step(1) assms(2)])
  consider "Locked j m OS_MUTEX_OK \<in> set es" | "mutex_handed j (ipc_mutexes k m)"
    | "mutex_queued j (ipc_mutexes k m)" "owner_dist (task_total k) j (ipc_mutexes k m) + unlocks m es \<le>
        owner_dist (task_total k0) j (ipc_mutexes k0 m)"
    using step(3) by (auto simp: mutex_progress_def)
  then show ?case
  proof cases
    case 1
    then show ?thesis by (simp add: mutex_progress_def)
  next
    case 2
    then show ?thesis using ipc_step_handed [OF step(2) wf] by (auto simp: mutex_progress_def)
  next
    case 3
    then show ?thesis
      using ipc_step_queued [OF step(2) wf 3(1)] ipc_step_count [OF step(2) wf] by (auto simp: mutex_progress_def)
  qed
qed

section \<open>Semaphore\<close>

definition granted_dist :: "nat \<Rightarrow> nat \<Rightarrow> os_semaphore_t \<Rightarrow> nat" where
  "granted_dist n j x = ring_dist (unat (sem_last_granted_task_id x)) n j"

lemma posted_append [simp]: "posted s (e @ es) = posted s e + posted s es"
  by (induction s e rule: posted.induct) simp_all

lemma wait_pass_waits:
  assumes "running_task k i" "sem_is_initialized x = 1" "semaphore_waits x j" "i \<noteq> j"
    and "semaphore_wait_iteration (of_nat i) x k = (outcome, x', k')"
  shows "semaphore_waits x' j \<and> granted_dist n j x' = granted_dist n j x"
  using assms running_taskD(6) [OF assms(1)]
  by (auto simp: semaphore_wait_iteration_eq [OF assms(1)] granted_dist_def bit_clear_task_bit
      bit_or_task_bit split: if_splits)

lemma wait_pass_granted:
  assumes "running_task k i" "sem_is_initialized x = 1" "semaphore_granted x j"
    and "semaphore_wait_iteration (of_nat i) x k = (outcome, x', k')"
  shows "semaphore_granted x' j \<and> i \<noteq> j \<or> i = j \<and> outcome = Return OS_SEMAPHORE_OK"
proof (cases "i = j")
  case True
  then show ?thesis
    using assms(2-4) by (simp add: semaphore_wait_iteration_eq [OF assms(1), unfolded True])
next
  case False
  then show ?thesis
    using assms running_taskD(6) [OF assms(1)]
    by (auto simp: semaphore_wait_iteration_eq [OF assms(1)] bit_clear_task_bit split: if_splits)
qed

lemma post_waits:
  assumes "running_task k i" "semaphore_ok (task_total k) (task_blocked k) P x" "semaphore_waits x j"
    and "os_semaphore_post (Some x) k = (status, Some x', k')"
  shows "status = OS_SEMAPHORE_OK \<and> (semaphore_granted x' j \<or>
    semaphore_waits x' j \<and> granted_dist (task_total k) j x' < granted_dist (task_total k) j x)"
proof -
  note r = running_taskD [OF assms(1)] and d = semaphore_okD [OF assms(2)]
  have rot: "rotating (x, k)" by (rule semaphore_rotating [OF assms(2) r(1)])
  have j: "wanted k (sem_waiting_task_mask x) j" "0 < j" "j < task_total k"
    using d(4,5) [of j] assms(3) by (simp_all add: wanted_def)
  obtain l where l: "next_granted (x, k) = Some l"
    using semaphore_ring.found_if_eligible [OF rot, of j] j by auto
  have x': "status = OS_SEMAPHORE_OK" "x' = granted_to l x"
    using assms(4) l by (simp_all add: semaphore_post_eq [OF assms(1,2)])
  show ?thesis
  proof (cases "l = j")
    case True
    have "j < 32" using j(3) sched_wfD(3) [OF kernel_wfD(1) [OF r(1)]] by simp
    then show ?thesis using x' True by (simp add: granted_to_def bit_or_task_bit)
  next
    case False
    have "fst (semaphore_find_next_waiting_task x k) = of_nat l"
      using l by (auto simp: next_granted_def found_task_def split: if_splits)
    then have "granted_dist (task_total k) j x' < granted_dist (task_total k) j x"
      using semaphore_ring.closer [OF rot l, of j "(x', k)"] j False x'(2)
      by (simp add: granted_dist_def granted_to_def)
    then show ?thesis using x' False assms(3) by (simp add: granted_to_def bit_clear_task_bit)
  qed
qed

lemma post_granted:
  assumes "running_task k i" "semaphore_ok (task_total k) (task_blocked k) P x" "semaphore_granted x j"
    and "os_semaphore_post (Some x) k = (status, Some x', k')"
  shows "semaphore_granted x' j"
proof (cases "next_granted (x, k)")
  case (Some l)
  have "l < 32"
    using next_granted_waits(3) [OF assms(2) running_taskD(1) [OF assms(1)] Some]
      sched_wfD(3) [OF kernel_wfD(1) [OF running_taskD(1) [OF assms(1)]]] by simp
  then show ?thesis
    using assms(3,4) Some by (auto simp: semaphore_post_eq [OF assms(1,2)] granted_to_def bit_or_task_bit)
qed (use assms(3,4) in \<open>auto simp: semaphore_post_eq [OF assms(1,2)] split: if_splits\<close>)

definition semaphore_progress :: "nat \<Rightarrow> nat \<Rightarrow> nat \<Rightarrow> event list \<Rightarrow> 'a ipc_scheme \<Rightarrow> bool" where
  "semaphore_progress s j d es k \<longleftrightarrow>
     Waited j s OS_SEMAPHORE_OK \<in> set es \<or> semaphore_granted (ipc_semaphores k s) j \<or>
     semaphore_waits (ipc_semaphores k s) j \<and>
       granted_dist (task_total k) j (ipc_semaphores k s) + posted s es \<le> d"

lemma ipc_step_waits:
  assumes "ipc_step k e k'" "ipc_wf k" "semaphore_waits (ipc_semaphores k s) j"
  shows "semaphore_granted (ipc_semaphores k' s) j \<or>
    semaphore_waits (ipc_semaphores k' s) j \<and>
      granted_dist (task_total k) j (ipc_semaphores k' s) + posted s e \<le>
        granted_dist (task_total k) j (ipc_semaphores k s)"
  using assms
proof (induction rule: ipc_step.induct)
  case (kernel k t k')
  then show ?case using ipc_kernel_step [of k t k'] by simp
next
  case (lock_pass k i m outcome mutex k')
  then show ?case using lock_pass_ok(3) [of k i m outcome mutex k'] by (cases outcome) auto
next
  case (unlock k i m status mutex k')
  then show ?case using ipc_unlock_ok [of k i m status mutex k'] by simp
next
  case (wait_pass k i s1 outcome semaphore k')
  have none: "posted s (returned (Waited i s1) outcome) = 0" by (cases outcome) simp_all
  have run: "running_task k i"
    using inside_running [OF wait_pass(5) wait_pass(1,2)] wait_pass(3) by simp
  note sx = ipc_wfD(3) [OF wait_pass(5), of s]
  have "task_blocked k j" using semaphore_okD(5) [OF sx, of j] wait_pass(6) by simp
  then have "i \<noteq> j" using running_taskD(8) [OF run] by blast
  then show ?case
    using wait_pass_waits [OF run semaphore_okD(1) [OF sx] wait_pass(6) _, of outcome semaphore k' "task_total k"]
      wait_pass(4,6) running_taskD(3) [OF run] none by (cases "s1 = s") simp_all
next
  case (post k i s1 status semaphore k')
  show ?case
  proof (cases "s1 = s \<and> i \<noteq> 0")
    case True
    then have run: "running_task k i"
      using post(1,2) ipc_wfD(1) [OF post(5)] by (simp add: running_task_def)
    show ?thesis
      using post_waits [OF run ipc_wfD(3) [OF post(5), of s] post(6), of status semaphore k'] post(4) True by auto
  next
    case False
    then have "semaphore = ipc_semaphores k s \<and> status \<noteq> OS_SEMAPHORE_OK" if "s1 = s"
    proof -
      have "current_index k = 0" using False that post(2) by simp
      then show ?thesis
        using post(4) idle_refused(2) [of k] that semaphore_okD(1) [OF ipc_wfD(3) [OF post(5), of s]]
        by (auto simp: os_semaphore_post_def os_get_current_task_id_def)
    qed
    then show ?thesis using post(6) by (cases "s1 = s") auto
  qed
qed simp_all

lemma ipc_step_granted:
  assumes "ipc_step k e k'" "ipc_wf k" "semaphore_granted (ipc_semaphores k s) j"
  shows "semaphore_granted (ipc_semaphores k' s) j \<or> Waited j s OS_SEMAPHORE_OK \<in> set e"
  using assms
proof (induction rule: ipc_step.induct)
  case (kernel k t k')
  then show ?case using ipc_kernel_step [of k t k'] by simp
next
  case (lock_pass k i m outcome mutex k')
  then show ?case using lock_pass_ok(3) [of k i m outcome mutex k'] by simp
next
  case (unlock k i m status mutex k')
  then show ?case using ipc_unlock_ok [of k i m status mutex k'] by simp
next
  case (wait_pass k i s1 outcome semaphore k')
  have run: "running_task k i"
    using inside_running [OF wait_pass(5) wait_pass(1,2)] wait_pass(3) by simp
  show ?case
    using wait_pass_granted [OF run semaphore_okD(1) [OF ipc_wfD(3) [OF wait_pass(5), of s]] wait_pass(6),
        of outcome semaphore k'] wait_pass(4,6) running_taskD(3) [OF run]
    by (cases "s1 = s") auto
next
  case (post k i s1 status semaphore k')
  show ?case
  proof (cases "s1 = s \<and> i \<noteq> 0")
    case True
    then have run: "running_task k i"
      using post(1,2) ipc_wfD(1) [OF post(5)] by (simp add: running_task_def)
    show ?thesis
      using post_granted [OF run ipc_wfD(3) [OF post(5), of s] post(6), of status semaphore k'] post(4) True by simp
  next
    case False
    then show ?thesis
      using ipc_post_ok [OF post(5,1,2,3), of s1 status semaphore k'] post(4,6) idle_refused(2) [of k] post(2)
        semaphore_okD(1) [OF ipc_wfD(3) [OF post(5), of s]]
      by (auto simp: os_semaphore_post_def os_get_current_task_id_def)
  qed
qed simp_all

lemma ipc_run_semaphore_progress:
  assumes "ipc_run k0 es k" "ipc_wf k0" "semaphore_waits (ipc_semaphores k0 s) j"
  shows "semaphore_progress s j (granted_dist (task_total k0) j (ipc_semaphores k0 s)) es k"
  using assms(1)
proof induction
  case start
  then show ?case using assms(3) by (simp add: semaphore_progress_def)
next
  case (step es k e k')
  have wf: "ipc_wf k" by (rule ipc_run_wf [OF step(1) assms(2)])
  consider "Waited j s OS_SEMAPHORE_OK \<in> set es" | "semaphore_granted (ipc_semaphores k s) j"
    | "semaphore_waits (ipc_semaphores k s) j" "granted_dist (task_total k) j (ipc_semaphores k s) + posted s es \<le>
        granted_dist (task_total k0) j (ipc_semaphores k0 s)"
    using step(3) by (auto simp: semaphore_progress_def)
  then show ?case
  proof cases
    case 1
    then show ?thesis by (simp add: semaphore_progress_def)
  next
    case 2
    then show ?thesis using ipc_step_granted [OF step(2) wf] by (auto simp: semaphore_progress_def)
  next
    case 3
    then show ?thesis
      using ipc_step_waits [OF step(2) wf 3(1)] ipc_step_count [OF step(2) wf] by (auto simp: semaphore_progress_def)
  qed
qed

end
