(* ===== verification/Ipc_Properties.thy ===== *)
theory Ipc_Properties
  imports Ipc_Fairness Kernel_Run_Properties
begin

text \<open>
  Properties of the mutex and semaphore services: refinement of the abstract lock and of the
  abstract counter by every execution, absence of lost wakeups, direct handoff, fairness of
  the handoff, and the outcome of complete calls.
\<close>

section \<open>A concrete system\<close>

definition demo_mutex :: os_mutex_t where
  "demo_mutex = \<lparr>mx_is_initialized = 1, mx_is_locked = 0, mx_owner_task_id = 0xFFFFFFFF,
     mx_waiting_task_mask = 0\<rparr>"

definition demo_semaphore :: os_semaphore_t where
  "demo_semaphore = \<lparr>sem_is_initialized = 1, sem_count = 1, sem_maximum_count = 2,
     sem_waiting_task_mask = 0, sem_granted_task_mask = 0, sem_last_granted_task_id = 0\<rparr>"

definition demo_ipc :: ipc where
  "demo_ipc = kernel.extend demo_kernel
     (ipc.fields (\<lambda>_. demo_mutex) (\<lambda>_. demo_semaphore) (\<lambda>_. Outside))"

lemma demo_ipc_fields [simp]:
  "g_task_table demo_ipc = g_task_table demo_kernel" "g_task_count demo_ipc = g_task_count demo_kernel"
  "g_current_task_id demo_ipc = g_current_task_id demo_kernel"
  "g_scheduler_state demo_ipc = g_scheduler_state demo_kernel"
  "g_context_switch_started demo_ipc = g_context_switch_started demo_kernel"
  "g_scheduler_tick_count demo_ipc = g_scheduler_tick_count demo_kernel"
  "cpu_primask demo_ipc = cpu_primask demo_kernel" "cpu_ipsr demo_ipc = cpu_ipsr demo_kernel"
  "pendsv_pending demo_ipc = pendsv_pending demo_kernel"
  "ipc_mutexes demo_ipc = (\<lambda>_. demo_mutex)" "ipc_semaphores demo_ipc = (\<lambda>_. demo_semaphore)"
  "ipc_activity demo_ipc = (\<lambda>_. Outside)"
  by (simp_all add: demo_ipc_def kernel.defs ipc.defs)

text \<open>The same system with empty semaphores.\<close>

definition demo_empty :: ipc where
  "demo_empty = demo_ipc\<lparr>ipc_semaphores := \<lambda>_. demo_semaphore\<lparr>sem_count := 0\<rparr>\<rparr>"

lemma demo_ipc_wf: "ipc_wf demo_ipc" "ipc_wf demo_empty"
proof -
  have "kernel_wf demo_ipc = kernel_wf demo_kernel"
    by (simp add: kernel_wf_def sched_wf_def tasks_wf_def table_wf_def)
  moreover have "\<not> task_blocked demo_ipc i" for i
  proof
    assume "task_blocked demo_ipc i"
    then have "i < 3" "state_of demo_kernel i = TASK_STATE_BLOCKED"
      using demo_kernel_tasks(1) by (simp_all add: task_blocked_def)
    moreover have "i = 0 \<or> i = 1 \<or> i = 2" using \<open>i < 3\<close> by auto
    ultimately show False
      by (auto simp: demo_kernel_fields demo_table_unfold demo_tcb_def)
  qed
  moreover have "0 < task_total demo_kernel" using demo_kernel_tasks(1) by simp
  ultimately show "ipc_wf demo_ipc" "ipc_wf demo_empty"
    using demo_kernel_wf
    by (simp_all add: demo_empty_def ipc_wf_def ipc_ok_def mutex_ok_def semaphore_ok_def demo_mutex_def
        demo_semaphore_def)
qed

lemma demo_ipc_running: "running_task demo_ipc 1"
  using ipc_wfD(1) [OF demo_ipc_wf(1)] demo_kernel_tasks(2,5) by (simp add: running_task_def thread_active_def)

text \<open>Task 1 locks mutex 0 and takes a unit of semaphore 0.\<close>

definition demo_locked :: ipc where
  "demo_locked = demo_ipc\<lparr>ipc_mutexes := (\<lambda>_. demo_mutex)(0 := demo_mutex\<lparr>mx_is_locked := 1, mx_owner_task_id := 1\<rparr>)\<rparr>"

lemma demo_current [simp]: "current_index demo_ipc = 1" "g_current_task_id demo_kernel = 1"
  using demo_kernel_tasks(2) by simp_all

lemma demo_locking: "ipc_run demo_ipc [Locked 1 0 OS_MUTEX_OK] demo_locked"
proof -
  let ?l = "demo_ipc\<lparr>ipc_activity := (\<lambda>_. Outside)(1 := Locking 0)\<rparr>"
  have active: "thread_active demo_ipc" using running_taskD(2) [OF demo_ipc_running] .
  have call: "ipc_step demo_ipc [] ?l"
    using ipc_step.lock_call [OF active _ _ , of 1 0 1] prologue_ok(1) [OF demo_ipc_wf(1), of 1 0] by simp
  have wf: "ipc_wf ?l" by (rule ipc_step_wf [OF call demo_ipc_wf(1)])
  have run: "running_task ?l 1"
    using ipc_wfD(1) [OF wf] active by (simp add: running_task_def thread_active_def)
  have pass: "mutex_lock_iteration (g_current_task_id ?l) (ipc_mutexes ?l 0) ?l =
      (Return OS_MUTEX_OK, demo_mutex\<lparr>mx_is_locked := 1, mx_owner_task_id := 1\<rparr>, ?l)"
    using mutex_lock_iteration_eq [OF run, of demo_mutex] by (simp add: demo_mutex_def)
  have "thread_active ?l" using active by (simp add: thread_active_def)
  from ipc_step.lock_pass [OF this _ _ pass, of 1]
  moreover have "demo_ipc\<lparr>ipc_mutexes := f, ipc_activity := (\<lambda>_. Outside)(Suc 0 := Outside)\<rparr> =
      demo_ipc\<lparr>ipc_mutexes := f\<rparr>" for f
    by (simp add: demo_ipc_def kernel.defs ipc.defs fun_upd_idem)
  ultimately have "ipc_step ?l [Locked 1 0 OS_MUTEX_OK] demo_locked"
    by (simp add: demo_locked_def)
  then show ?thesis using ipc_run.step [OF ipc_run.step [OF ipc_run.start call]] by simp
qed

section \<open>Refinement of the abstract services\<close>

text \<open>
  (C2) The mutex is a mutex: in every execution, every return of \<open>os_mutex_lock\<close> and
  \<open>os_mutex_unlock\<close> is one that the abstract lock allows. \<open>OS_MUTEX_OK\<close> from lock means that
  nobody held the mutex, and the caller now holds it; a second lock by the holder is the
  recursion error; unlock succeeds exactly for the holder. Two tasks never hold the mutex at
  once, whatever the interleaving and the handoffs, and the mutex's fields always name the
  abstract holder.
\<close>

theorem mutex_refines_abstract_lock:
  assumes "ipc_wf k0" "mutex_holder (ipc_mutexes k0 m) = None" "ipc_run k0 es k"
  shows "lock_spec m es \<and> mutex_holder (ipc_mutexes k m) = holder m es"
  using assms(3)
proof induction
  case start
  then show ?case using assms(2) by simp
next
  case (step es k e k')
  have "ipc_wf k" by (rule ipc_run_wf [OF step(1) assms(1)])
  then show ?case using ipc_step_mutex [OF step(2)] step(3) by simp
qed

theorem mutex_refines_abstract_lock_witness:
  "mutex_holder (ipc_mutexes demo_locked 0) = Some 1"
  using mutex_refines_abstract_lock [OF demo_ipc_wf(1) _ demo_locking, of 0]
  by (simp add: mutex_holder_def demo_mutex_def)

text \<open>
  (C3) Conservation of units: in every execution the units in a semaphore (its count and the
  units granted to waiters that have not run yet) plus the successful waits are the initial
  units plus the successful posts; so there are never more successful waits than units, and
  the count never exceeds the maximum.
\<close>

theorem semaphore_conserves_units:
  assumes "ipc_wf k0" "ipc_run k0 es k"
  shows "semaphore_units (ipc_semaphores k s) + taken s es =
      semaphore_units (ipc_semaphores k0 s) + posted s es \<and>
    taken s es \<le> semaphore_units (ipc_semaphores k0 s) + posted s es \<and>
    sem_count (ipc_semaphores k s) \<le> sem_maximum_count (ipc_semaphores k0 s)"
proof -
  have "semaphore_units (ipc_semaphores k s) + taken s es =
      semaphore_units (ipc_semaphores k0 s) + posted s es \<and>
      sem_maximum_count (ipc_semaphores k s) = sem_maximum_count (ipc_semaphores k0 s)"
    using assms(2)
  proof induction
    case (step es k e k')
    have "ipc_wf k" by (rule ipc_run_wf [OF step(1) assms(1)])
    then show ?case using ipc_step_semaphore [OF step(2)] step(3) by fastforce
  qed simp
  moreover have "ipc_wf k" by (rule ipc_run_wf [OF assms(2,1)])
  ultimately show ?thesis
    using semaphore_okD(2) [OF ipc_wfD(3) [of k s]] by simp
qed

theorem semaphore_conserves_units_witness:
  "semaphore_units (ipc_semaphores demo_locked 0) = 1"
proof -
  have "semaphore_units (ipc_semaphores demo_ipc 0) = 1"
    by (simp add: semaphore_units_def demo_semaphore_def bot_fun_def)
  then show ?thesis
    using semaphore_conserves_units [OF demo_ipc_wf(1) demo_locking, of 0] by simp
qed

text \<open>
  (C25) No lost wakeup: in every reachable state, a BLOCKED task is inside the wait operation
  of exactly one object, is registered in its mask, and that object is not available: the
  mutex is locked by another task, or the semaphore's count is zero. So an available mutex
  or semaphore never has a task BLOCKED on it.
\<close>

theorem blocked_tasks_are_registered:
  assumes "ipc_wf k0" "ipc_run k0 es k" "i < task_total k" "state_of k i = TASK_STATE_BLOCKED"
  shows "(\<exists>m. ipc_activity k i = Locking m \<and> mx_is_locked (ipc_mutexes k m) = OS_MUTEX_LOCKED \<and>
      mutex_waits (ipc_mutexes k m) i \<and> mx_owner_task_id (ipc_mutexes k m) \<noteq> of_nat i) \<or>
    (\<exists>s. ipc_activity k i = Waiting s \<and> sem_count (ipc_semaphores k s) = 0 \<and>
      semaphore_waits (ipc_semaphores k s) i)"
proof -
  have wf: "ipc_wf k" by (rule ipc_run_wf [OF assms(2,1)])
  have b: "task_blocked k i" using assms(3,4) by (simp add: task_blocked_def)
  have i8: "i < 8" using assms(3) sched_wfD(3) [OF kernel_wfD(1) [OF ipc_wfD(1) [OF wf]]] by simp
  show ?thesis
  proof (cases "ipc_activity k i")
    case Outside
    then show ?thesis using ipc_wfD(4) [OF wf b] by simp
  next
    case (Locking m)
    note mx = ipc_wfD(2) [OF wf, of m]
    have locked: "mx_is_locked (ipc_mutexes k m) \<noteq> 0"
      using mutex_object.no_lost_wakeup [OF mx, of i] Locking b by auto
    moreover have "unat (mx_owner_task_id (ipc_mutexes k m)) \<noteq> i"
      using mutex_okD(8) [OF mx locked] Locking b by auto
    ultimately show ?thesis
      using mutex_okD(3) [OF mx, of i] mutex_okD(6) [OF mx] Locking b i8 by auto
  next
    case (Waiting s)
    note sx = ipc_wfD(3) [OF wf, of s]
    have "\<not> sem_count (ipc_semaphores k s) > 0"
      using semaphore_object.no_lost_wakeup [OF sx, of i] Waiting b by auto
    then show ?thesis using semaphore_okD(5) [OF sx, of i] Waiting b by (simp add: word_gt_0)
  qed
qed

text \<open>Task 1 waits for a unit that is not there.\<close>

definition demo_waiting :: ipc where
  "demo_waiting = (blocked_caller 1 (demo_empty\<lparr>ipc_activity := (\<lambda>_. Outside)(1 := Waiting 0)\<rparr>))
     \<lparr>ipc_semaphores := (\<lambda>_. demo_semaphore\<lparr>sem_count := 0\<rparr>)
        (0 := demo_semaphore\<lparr>sem_count := 0, sem_waiting_task_mask := task_bit 1\<rparr>),
      ipc_activity := (\<lambda>_. Outside)(1 := Waiting 0)\<rparr>"

lemma demo_waits: "ipc_run demo_empty [] demo_waiting"
proof -
  let ?w = "demo_empty\<lparr>ipc_activity := (\<lambda>_. Outside)(1 := Waiting 0)\<rparr>"
  have active: "thread_active demo_empty" "current_index demo_empty = 1"
    using running_taskD(2) [OF demo_ipc_running] by (simp_all add: demo_empty_def thread_active_def)
  have call: "ipc_step demo_empty [] ?w"
    using ipc_step.wait_call [OF active(1), of 1 0] prologue_ok(2) [OF demo_ipc_wf(2), of 1 0] active(2)
    by (simp add: demo_empty_def)
  have wf: "ipc_wf ?w" by (rule ipc_step_wf [OF call demo_ipc_wf(2)])
  have run: "running_task ?w 1"
    using ipc_wfD(1) [OF wf] active by (simp add: running_task_def thread_active_def)
  have pass: "semaphore_wait_iteration (g_current_task_id ?w) (ipc_semaphores ?w 0) ?w =
      (Again, demo_semaphore\<lparr>sem_count := 0, sem_waiting_task_mask := task_bit 1\<rparr>, blocked_caller 1 ?w)"
    using semaphore_wait_iteration_eq [OF run, of "demo_semaphore\<lparr>sem_count := 0\<rparr>"]
    by (simp add: demo_empty_def demo_semaphore_def)
  have "thread_active ?w" using active by (simp add: thread_active_def)
  from ipc_step.wait_pass [OF this _ _ pass, of 1]
  have "ipc_step ?w [] demo_waiting"
    using active(2) by (simp add: demo_waiting_def demo_empty_def)
  then show ?thesis using ipc_run.step [OF ipc_run.step [OF ipc_run.start call]] by simp
qed

theorem blocked_tasks_are_registered_witness:
  "state_of demo_waiting 1 = TASK_STATE_BLOCKED \<and> semaphore_waits (ipc_semaphores demo_waiting 0) 1"
proof -
  have "1 < length (g_task_table demo_ipc)" "task_total demo_ipc = 3"
    using running_taskD(10) [OF demo_ipc_running] demo_kernel_tasks(1) by simp_all
  then have b: "state_of demo_waiting 1 = TASK_STATE_BLOCKED" "1 < task_total demo_waiting"
    by (simp_all add: demo_waiting_def blocked_caller_def demo_empty_def)
  have act: "ipc_activity demo_waiting 1 = Waiting 0" by (simp add: demo_waiting_def)
  show ?thesis
    using blocked_tasks_are_registered [OF demo_ipc_wf(2) demo_waits b(2,1)] b(1) act by auto
qed

section \<open>Handoff and fairness\<close>

text \<open>
  (C26) Direct handoff: when the holder unlocks, the mutex becomes free exactly if no task
  waits. Otherwise it stays locked and the new owner is the waiting task that comes first in
  circular order after the old owner; that task becomes READY, and no other task, no other
  state and no registration changes.
\<close>

theorem os_mutex_unlock_hands_over:
  assumes "ipc_wf k" "running_task k i" "ipc_activity k i = Outside"
    and "mutex_holder (ipc_mutexes k m) = Some i"
    and "os_mutex_unlock (Some (ipc_mutexes k m)) k = (status, mo, k')"
  shows "status = OS_MUTEX_OK \<and>
    (if \<forall>j. \<not> mutex_waits (ipc_mutexes k m) j
     then mo = Some ((ipc_mutexes k m)\<lparr>mx_is_locked := OS_MUTEX_UNLOCKED,
            mx_owner_task_id := OS_MUTEX_INVALID_OWNER_ID\<rparr>) \<and> k' = k
     else \<exists>j. 0 < j \<and> j < task_total k \<and> mutex_waits (ipc_mutexes k m) j \<and>
       (\<forall>l. mutex_waits (ipc_mutexes k m) l \<longrightarrow> ring_dist i (task_total k) j \<le> ring_dist i (task_total k) l) \<and>
       mo = Some ((ipc_mutexes k m)\<lparr>mx_owner_task_id := of_nat j\<rparr>) \<and> k' = readied j k)"
proof -
  let ?m = "ipc_mutexes k m"
  note mx = ipc_wfD(2) [OF assms(1), of m] and r = running_taskD [OF assms(2)]
  note d = mutex_okD [OF mx]
  have out: "i \<notin> {j. ipc_activity k j = Locking m}" using assms(3) by simp
  have owner: "unat (mx_owner_task_id ?m) = i" and locked: "mx_is_locked ?m \<noteq> 0"
    using assms(4) by (simp_all add: mutex_holder_def split: if_splits)
  have owned: "owned (?m, k)" using kernel_wfD(1) [OF r(1)] r(5) owner by (simp add: owned_def)
  have wants: "mutex_waits ?m j \<Longrightarrow> wanted k (mx_waiting_task_mask ?m) j \<and> 0 < j \<and> j < task_total k" for j
    using d(9) [OF locked, of j] d(4) [of j] d(2) [of j] owner out by (auto simp: wanted_def)
  note eq = mutex_unlock_eq [OF assms(2) mx out] assms(4,5)
  show ?thesis
  proof (cases "next_owner (?m, k)")
    case None
    then have "\<forall>j. \<not> mutex_waits ?m j"
      using mutex_ring.not_found_iff [OF owned] wants by auto
    then show ?thesis using None eq by simp
  next
    case (Some j)
    have j: "0 < j" "j < task_total k" "mutex_waits ?m j"
      using mutex_ring.found [OF owned Some] by (simp_all add: wanted_def)
    have "ring_dist i (task_total k) j \<le> ring_dist i (task_total k) l" if "mutex_waits ?m l" for l
      using mutex_ring.nearest [OF owned Some, of l] wants [OF that] owner by simp
    moreover have "status = OS_MUTEX_OK" "mo = Some (?m\<lparr>mx_owner_task_id := of_nat j\<rparr>)" "k' = readied j k"
      using Some eq by simp_all
    ultimately show ?thesis using j by auto
  qed
qed

lemma demo_locked_facts:
  "ipc_wf demo_locked" "running_task demo_locked 1" "ipc_activity demo_locked 1 = Outside"
  "mutex_holder (ipc_mutexes demo_locked 0) = Some 1"
proof -
  show wf: "ipc_wf demo_locked" by (rule ipc_run_wf [OF demo_locking demo_ipc_wf(1)])
  show "running_task demo_locked 1"
    using ipc_wfD(1) [OF wf] running_taskD(2) [OF demo_ipc_running]
    by (simp add: running_task_def thread_active_def demo_locked_def)
  show "ipc_activity demo_locked 1 = Outside" "mutex_holder (ipc_mutexes demo_locked 0) = Some 1"
    by (simp_all add: demo_locked_def mutex_holder_def demo_mutex_def)
qed

theorem os_mutex_unlock_hands_over_witness:
  "fst (os_mutex_unlock (Some (ipc_mutexes demo_locked 0)) demo_locked) = OS_MUTEX_OK"
  using os_mutex_unlock_hands_over [OF demo_locked_facts, of
      "fst (os_mutex_unlock (Some (ipc_mutexes demo_locked 0)) demo_locked)"
      "fst (snd (os_mutex_unlock (Some (ipc_mutexes demo_locked 0)) demo_locked))"
      "snd (snd (os_mutex_unlock (Some (ipc_mutexes demo_locked 0)) demo_locked))"]
  by simp

text \<open>
  Bounded bypass of a mutex: while a task waits for a mutex, at most as many unlocks can
  succeed as there are tasks between the owner and it in circular order. After one more it
  has been handed the mutex: it is the owner and no longer BLOCKED, or its lock call has
  already returned \<open>OS_MUTEX_OK\<close>.
\<close>

lemma mutex_bounded_bypass:
  assumes "ipc_wf k0" "ipc_activity k0 j = Locking m" "j < task_total k0" "state_of k0 j = TASK_STATE_BLOCKED"
    and "ipc_run k0 es k"
    and "ring_dist (unat (mx_owner_task_id (ipc_mutexes k0 m))) (task_total k0) j < unlocks m es"
  shows "Locked j m OS_MUTEX_OK \<in> set es \<or>
    unat (mx_owner_task_id (ipc_mutexes k m)) = j \<and> state_of k j \<noteq> TASK_STATE_BLOCKED"
proof -
  note mx = ipc_wfD(2) [OF assms(1), of m]
  have b: "task_blocked k0 j" "j \<in> {i. ipc_activity k0 i = Locking m}"
    using assms(2-4) by (simp_all add: task_blocked_def)
  have "mx_is_locked (ipc_mutexes k0 m) \<noteq> 0" using mutex_object.no_lost_wakeup [OF mx _ b(2)] b(1) by auto
  then have q: "mutex_queued j (ipc_mutexes k0 m)"
    using mutex_okD(3) [OF mx b(2,1)] mutex_okD(8) [OF mx] b by (auto simp: mutex_queued_def)
  have "Locked j m OS_MUTEX_OK \<in> set es \<or> mutex_handed j (ipc_mutexes k m)"
    using ipc_run_progress [OF assms(5,1) q] assms(6) by (auto simp: mutex_progress_def owner_dist_def)
  moreover have "state_of k j \<noteq> TASK_STATE_BLOCKED" if h: "mutex_handed j (ipc_mutexes k m)"
  proof -
    have "ipc_wf k" by (rule ipc_run_wf [OF assms(5,1)])
    note mk = ipc_wfD(2) [OF this, of m]
    have "\<not> task_blocked k j"
      using mutex_okD(8) [OF mk] mutex_okD(4) [OF mk, of j] h by (auto simp: mutex_handed_def)
    moreover have "j < task_total k"
      using mutex_okD(7) [OF mk] h by (auto simp: mutex_handed_def)
    ultimately show ?thesis by (simp add: task_blocked_def)
  qed
  ultimately show ?thesis by (auto simp: mutex_handed_def)
qed

text \<open>
  Bounded bypass of a semaphore: while a task waits for a unit, at most as many posts can
  succeed as there are tasks between the last granted task and it in circular order; after
  one more it has been granted a unit and is no longer BLOCKED, or its wait has returned.
\<close>

lemma semaphore_bounded_bypass:
  assumes "ipc_wf k0" "ipc_activity k0 j = Waiting s" "j < task_total k0" "state_of k0 j = TASK_STATE_BLOCKED"
    and "ipc_run k0 es k"
    and "ring_dist (unat (sem_last_granted_task_id (ipc_semaphores k0 s))) (task_total k0) j < posted s es"
  shows "Waited j s OS_SEMAPHORE_OK \<in> set es \<or>
    semaphore_granted (ipc_semaphores k s) j \<and> state_of k j \<noteq> TASK_STATE_BLOCKED"
proof -
  have q: "semaphore_waits (ipc_semaphores k0 s) j"
    using semaphore_okD(5) [OF ipc_wfD(3) [OF assms(1), of s], of j] assms(2-4) by (simp add: task_blocked_def)
  have "Waited j s OS_SEMAPHORE_OK \<in> set es \<or> semaphore_granted (ipc_semaphores k s) j"
    using ipc_run_semaphore_progress [OF assms(5,1) q] assms(6)
    by (auto simp: semaphore_progress_def granted_dist_def)
  moreover have "state_of k j \<noteq> TASK_STATE_BLOCKED" if "semaphore_granted (ipc_semaphores k s) j"
  proof -
    have "ipc_wf k" by (rule ipc_run_wf [OF assms(5,1)])
    note sk = ipc_wfD(3) [OF this, of s]
    show ?thesis
      using semaphore_okD(6) [OF sk that] semaphore_okD(4) [OF sk, of j] by (auto simp: task_blocked_def)
  qed
  ultimately show ?thesis by auto
qed

text \<open>
  (C27) Bounded bypass: a BLOCKED task is overtaken a bounded number of times. While it waits for a
  mutex (for a unit of a semaphore), at most as many unlocks (posts) can succeed as there are
  tasks before it in circular order from the owner (from the last granted task); after one more
  it owns the mutex (has been granted a unit) and is no longer BLOCKED, or its call has returned
  successfully. This holds for every object and under every interleaving.
\<close>

theorem bounded_bypass:
  assumes "ipc_wf k0" "j < task_total k0" "state_of k0 j = TASK_STATE_BLOCKED" "ipc_run k0 es k"
  shows "(\<forall>m. ipc_activity k0 j = Locking m \<and>
        ring_dist (unat (mx_owner_task_id (ipc_mutexes k0 m))) (task_total k0) j < unlocks m es \<longrightarrow>
      Locked j m OS_MUTEX_OK \<in> set es \<or>
      unat (mx_owner_task_id (ipc_mutexes k m)) = j \<and> state_of k j \<noteq> TASK_STATE_BLOCKED) \<and>
    (\<forall>s. ipc_activity k0 j = Waiting s \<and>
        ring_dist (unat (sem_last_granted_task_id (ipc_semaphores k0 s))) (task_total k0) j < posted s es \<longrightarrow>
      Waited j s OS_SEMAPHORE_OK \<in> set es \<or>
      semaphore_granted (ipc_semaphores k s) j \<and> state_of k j \<noteq> TASK_STATE_BLOCKED)"
  using mutex_bounded_bypass [OF assms(1) _ assms(2-4)] semaphore_bounded_bypass [OF assms(1) _ assms(2-4)] by blast

text \<open>Task 1 runs, task 2 is BLOCKED: on mutex 0, held by task 1, or on semaphore 0.\<close>

definition demo_blocked :: "activity \<Rightarrow> os_mutex_t \<Rightarrow> os_semaphore_t \<Rightarrow> ipc" where
  "demo_blocked a m x =
     (update_task 2 (\<lambda>t. t\<lparr>tcb_state := TASK_STATE_BLOCKED\<rparr>) demo_ipc)
       \<lparr>ipc_mutexes := (\<lambda>_. demo_mutex)(0 := m), ipc_semaphores := (\<lambda>_. demo_semaphore)(0 := x),
        ipc_activity := (\<lambda>_. Outside)(2 := a)\<rparr>"

definition demo_held :: os_mutex_t where
  "demo_held = demo_mutex\<lparr>mx_is_locked := 1, mx_owner_task_id := 1, mx_waiting_task_mask := task_bit 2\<rparr>"

definition demo_drained :: os_semaphore_t where
  "demo_drained = demo_semaphore\<lparr>sem_count := 0, sem_waiting_task_mask := task_bit 2,
     sem_last_granted_task_id := 1\<rparr>"

lemma demo_blocked_kernel:
  "kernel_wf (demo_blocked a m x)" "running_task (demo_blocked a m x) 1"
  "task_blocked (demo_blocked a m x) = (\<lambda>i. i = 2)" "task_total (demo_blocked a m x) = 3"
proof -
  note r = running_taskD [OF demo_ipc_running]
  let ?u = "update_task 2 (\<lambda>t. t\<lparr>tcb_state := TASK_STATE_BLOCKED\<rparr>) demo_ipc"
  have total: "task_total demo_ipc = 3" using demo_kernel_tasks(1) by simp
  have "sched_wf ?u"
    by (rule sched_wf_update [OF kernel_wfD(1) [OF r(1)]])
      (use tasks_wfD(4) [OF sched_wfD(1) [OF kernel_wfD(1) [OF r(1)]], of 2] total demo_kernel_tasks(4) in
        \<open>simp_all add: tcb_wf_def\<close>)
  then have wf: "kernel_wf ?u"
    using kernel_wfD(2-6) [OF r(1)] demo_kernel_tasks(3) by (simp add: kernel_wf_def)
  then show k: "kernel_wf (demo_blocked a m x)" by (simp add: demo_blocked_def)
  show "running_task (demo_blocked a m x) 1"
    using k r(2) by (simp add: running_task_def thread_active_def demo_blocked_def)
  show "task_total (demo_blocked a m x) = 3" using total by (simp add: demo_blocked_def)
  have "\<not> task_blocked demo_ipc i" for i
    using ipc_wfD(4) [OF demo_ipc_wf(1), of i] by auto
  moreover have "2 < length (g_task_table demo_ipc)"
    using sched_wfD(4) [OF kernel_wfD(1) [OF r(1)]] by simp
  ultimately show "task_blocked (demo_blocked a m x) = (\<lambda>i. i = 2)"
    using total by (auto simp: demo_blocked_def task_blocked_update fun_eq_iff)
qed

lemma demo_blocked_wf:
  "ipc_wf (demo_blocked (Locking 0) demo_held demo_semaphore)"
  "ipc_wf (demo_blocked (Waiting 0) demo_mutex demo_drained)"
proof -
  have "ipc_ok 3 (\<lambda>i. i = 2) ((\<lambda>_. Outside)(2 := Locking 0)) ((\<lambda>_. demo_mutex)(0 := demo_held))
      ((\<lambda>_. demo_semaphore)(0 := demo_semaphore))"
    by (auto simp: ipc_ok_def mutex_ok_def semaphore_ok_def demo_mutex_def demo_held_def demo_semaphore_def bit_task_bit)
  then show "ipc_wf (demo_blocked (Locking 0) demo_held demo_semaphore)"
    using demo_blocked_kernel [of "Locking 0" demo_held demo_semaphore]
    by (simp add: ipc_wf_def) (simp add: demo_blocked_def)
  have "ipc_ok 3 (\<lambda>i. i = 2) ((\<lambda>_. Outside)(2 := Waiting 0)) ((\<lambda>_. demo_mutex)(0 := demo_mutex))
      ((\<lambda>_. demo_semaphore)(0 := demo_drained))"
    by (auto simp: ipc_ok_def mutex_ok_def semaphore_ok_def demo_mutex_def demo_drained_def demo_semaphore_def bit_task_bit)
  then show "ipc_wf (demo_blocked (Waiting 0) demo_mutex demo_drained)"
    using demo_blocked_kernel [of "Waiting 0" demo_mutex demo_drained]
    by (simp add: ipc_wf_def) (simp add: demo_blocked_def)
qed

lemma demo_unlocked:
  defines "k0 \<equiv> demo_blocked (Locking 0) demo_held demo_semaphore"
  shows "\<exists>k. ipc_run k0 [Unlocked 1 0 OS_MUTEX_OK] k" "state_of k0 2 = TASK_STATE_BLOCKED" "2 < task_total k0"
    "ring_dist (unat (mx_owner_task_id (ipc_mutexes k0 0))) (task_total k0) 2 = 0" "ipc_activity k0 2 = Locking 0"
proof -
  let ?k = "demo_blocked (Locking 0) demo_held demo_semaphore"
  note wf = demo_blocked_wf(1) and run = demo_blocked_kernel(2) [of "Locking 0" demo_held demo_semaphore]
  have act: "ipc_activity ?k 1 = Outside" "ipc_activity ?k 2 = Locking 0" "ipc_mutexes ?k 0 = demo_held"
    by (simp_all add: demo_blocked_def)
  have holder: "mutex_holder (ipc_mutexes ?k 0) = Some 1"
    unfolding act by (simp add: mutex_holder_def demo_held_def bit_task_bit)
  obtain status mo k' where u: "os_mutex_unlock (Some (ipc_mutexes ?k 0)) ?k = (status, mo, k')"
    by (metis prod_cases3)
  have ok: "status = OS_MUTEX_OK" and "\<exists>m'. mo = Some m'"
    using mutex_unlock_eq [OF run ipc_wfD(2) [OF wf, of 0]] act(1) holder u by (auto split: option.splits)
  then obtain m' where m': "mo = Some m'" by blast
  have cur: "1 = current_index ?k" using run by (simp add: running_task_def)
  have "ipc_run ?k ([Unlocked 1 0 status] @ []) (k'\<lparr>ipc_mutexes := (ipc_mutexes ?k)(0 := m')\<rparr>)"
    by (rule ipc_run.step [OF ipc_run.start ipc_step.unlock [OF running_taskD(2) [OF run] cur act(1)]])
      (use u m' in simp)
  then show "\<exists>k. ipc_run k0 [Unlocked 1 0 OS_MUTEX_OK] k" using ok unfolding k0_def by auto
  show "state_of k0 2 = TASK_STATE_BLOCKED" unfolding k0_def
    using demo_blocked_kernel(3) [of "Locking 0" demo_held demo_semaphore] by (auto simp: task_blocked_def fun_eq_iff)
  show "ring_dist (unat (mx_owner_task_id (ipc_mutexes k0 0))) (task_total k0) 2 = 0"
    unfolding k0_def act by (simp add: demo_held_def ring_dist_def)
  show "2 < task_total k0" "ipc_activity k0 2 = Locking 0"
    unfolding k0_def act by (simp_all add: demo_blocked_kernel(4))
qed

lemma demo_posted:
  defines "k0 \<equiv> demo_blocked (Waiting 0) demo_mutex demo_drained"
  shows "\<exists>k. ipc_run k0 [Posted 1 0 OS_SEMAPHORE_OK] k" "state_of k0 2 = TASK_STATE_BLOCKED" "2 < task_total k0"
    "ring_dist (unat (sem_last_granted_task_id (ipc_semaphores k0 0))) (task_total k0) 2 = 0"
    "ipc_activity k0 2 = Waiting 0"
proof -
  let ?k = "demo_blocked (Waiting 0) demo_mutex demo_drained"
  note wf = demo_blocked_wf(2) and run = demo_blocked_kernel(2) [of "Waiting 0" demo_mutex demo_drained]
  have act: "ipc_activity ?k 1 = Outside" "ipc_activity ?k 2 = Waiting 0" "ipc_semaphores ?k 0 = demo_drained"
    by (simp_all add: demo_blocked_def)
  obtain status xo k' where u: "os_semaphore_post (Some (ipc_semaphores ?k 0)) ?k = (status, xo, k')"
    by (metis prod_cases3)
  have out: "1 \<notin> {j. ipc_activity ?k j = Waiting 0}" using act(1) by simp
  obtain x' where x': "xo = Some x'" using post_ok [OF run ipc_wfD(3) [OF wf] out u] by auto
  have ok: "status = OS_SEMAPHORE_OK"
    using post_waits [OF run ipc_wfD(3) [OF wf, of 0] _ u [unfolded x'], of 2]
    unfolding act by (simp add: demo_drained_def bit_task_bit)
  have cur: "1 = current_index ?k" using run by (simp add: running_task_def)
  have "ipc_run ?k ([Posted 1 0 status] @ []) (k'\<lparr>ipc_semaphores := (ipc_semaphores ?k)(0 := x')\<rparr>)"
    by (rule ipc_run.step [OF ipc_run.start ipc_step.post [OF running_taskD(2) [OF run] cur act(1)]])
      (use u x' in simp)
  then show "\<exists>k. ipc_run k0 [Posted 1 0 OS_SEMAPHORE_OK] k" using ok unfolding k0_def by auto
  show "state_of k0 2 = TASK_STATE_BLOCKED" unfolding k0_def
    using demo_blocked_kernel(3) [of "Waiting 0" demo_mutex demo_drained] by (auto simp: task_blocked_def fun_eq_iff)
  show "ring_dist (unat (sem_last_granted_task_id (ipc_semaphores k0 0))) (task_total k0) 2 = 0"
    unfolding k0_def act by (simp add: demo_drained_def ring_dist_def)
  show "2 < task_total k0" "ipc_activity k0 2 = Waiting 0"
    unfolding k0_def act by (simp_all add: demo_blocked_kernel(4))
qed

theorem bounded_bypass_witness:
  "(\<exists>k. ipc_run (demo_blocked (Locking 0) demo_held demo_semaphore) [Unlocked 1 0 OS_MUTEX_OK] k \<and>
     state_of k 2 \<noteq> TASK_STATE_BLOCKED) \<and>
   (\<exists>k. ipc_run (demo_blocked (Waiting 0) demo_mutex demo_drained) [Posted 1 0 OS_SEMAPHORE_OK] k \<and>
     state_of k 2 \<noteq> TASK_STATE_BLOCKED)"
proof -
  obtain k1 where "ipc_run (demo_blocked (Locking 0) demo_held demo_semaphore) [Unlocked 1 0 OS_MUTEX_OK] k1"
    using demo_unlocked(1) by blast
  note first = this bounded_bypass [OF demo_blocked_wf(1) demo_unlocked(3,2) this]
  obtain k2 where "ipc_run (demo_blocked (Waiting 0) demo_mutex demo_drained) [Posted 1 0 OS_SEMAPHORE_OK] k2"
    using demo_posted(1) by blast
  note second = this bounded_bypass [OF demo_blocked_wf(2) demo_posted(3,2) this]
  have "unlocks 0 [Unlocked 1 0 OS_MUTEX_OK] = 1" "posted 0 [Posted 1 0 OS_SEMAPHORE_OK] = 1" by simp_all
  then have "state_of k1 2 \<noteq> TASK_STATE_BLOCKED" "state_of k2 2 \<noteq> TASK_STATE_BLOCKED"
    using conjunct1 [OF first(2)] demo_unlocked(4,5) conjunct2 [OF second(2)] demo_posted(4,5) by fastforce+
  then show ?thesis using first(1) second(1) by blast
qed

end
