(* ===== verification/Ipc_Calls.thy ===== *)
theory Ipc_Calls
  imports Ipc_Properties
begin

text \<open>
  Complete calls of \<open>os_mutex_lock\<close> and \<open>os_semaphore_wait\<close>: the wait loop included, for any
  behaviour \<open>env\<close> of the rest of the system while the caller is off the processor, and the
  refusals of all four operations.
\<close>

section \<open>The loops\<close>

lemma mutex_lock_loop_return:
  "mutex_lock_iteration c m k = (Return status, m', k') \<Longrightarrow>
    mutex_lock_loop env c (m, k) = Some (status, m', k')"
  by (subst mutex_lock_loop.simps) simp

lemma mutex_lock_loop_again:
  "mutex_lock_iteration c m k = (Again, m', k') \<Longrightarrow>
    mutex_lock_loop env c (m, k) = mutex_lock_loop env c (env (m', k'))"
  by (subst mutex_lock_loop.simps) simp

lemma semaphore_wait_loop_return:
  "semaphore_wait_iteration c x k = (Return status, x', k') \<Longrightarrow>
    semaphore_wait_loop env c (x, k) = Some (status, x', k')"
  by (subst semaphore_wait_loop.simps) simp

lemma semaphore_wait_loop_again:
  "semaphore_wait_iteration c x k = (Again, x', k') \<Longrightarrow>
    semaphore_wait_loop env c (x, k) = semaphore_wait_loop env c (env (x', k'))"
  by (subst semaphore_wait_loop.simps) simp

lemma running_prologues:
  assumes "running_task k i"
  shows "mx_is_initialized m = 1 \<Longrightarrow> mutex_lock_prologue (Some m) k = Inr (of_nat i)"
    "sem_is_initialized x = 1 \<Longrightarrow> semaphore_wait_prologue (Some x) k = Inr (of_nat i)"
  using valid_caller [OF assms] valid_waiter [OF assms] running_taskD(3) [OF assms]
  by (simp_all add: mutex_lock_prologue_def semaphore_wait_prologue_def os_get_current_task_id_def)

section \<open>Properties\<close>

text \<open>
  (C28) Outcome of \<open>os_mutex_lock\<close>, called by a running application task on an initialised
  mutex it is not registered for. A free mutex is taken at once; the owner gets the recursion
  error and changes nothing; otherwise the caller registers, blocks and requests a context
  switch, and if it resumes after the mutex was handed to it, the call returns
  \<open>OS_MUTEX_OK\<close> with the registration consumed. In each case the call returns.
\<close>

theorem os_mutex_lock_outcome:
  assumes "running_task k i" "mx_is_initialized m = OS_MUTEX_INITIALIZED" "\<not> mutex_waits m i"
    and "env (m\<lparr>mx_waiting_task_mask := mx_waiting_task_mask m OR task_bit i\<rparr>, blocked_caller i k) = (m2, k2)"
    and "running_task k2 i" "mx_is_initialized m2 = OS_MUTEX_INITIALIZED" "mutex_handed i m2"
  shows "os_mutex_lock env (Some m) k =
    (if mx_is_locked m = OS_MUTEX_UNLOCKED then
       Some (OS_MUTEX_OK, Some (m\<lparr>mx_is_locked := OS_MUTEX_LOCKED, mx_owner_task_id := of_nat i\<rparr>), k)
     else if mx_owner_task_id m = of_nat i then Some (OS_MUTEX_ERROR_RECURSIVE_LOCK, Some m, k)
     else Some (OS_MUTEX_OK, Some (m2\<lparr>mx_waiting_task_mask := mx_waiting_task_mask m2 AND NOT (task_bit i)\<rparr>), k2))"
proof -
  have clear: "mx_waiting_task_mask m AND NOT (task_bit i) = mx_waiting_task_mask m"
    by (rule clear_unset [OF assms(3)])
  note first = mutex_lock_iteration_eq [OF assms(1), of m]
  have "mx_owner_task_id m2 = of_nat i" using assms(7) by (auto simp: mutex_handed_def)
  then have second: "mutex_lock_iteration (of_nat i) m2 k2 =
      (Return OS_MUTEX_OK, m2\<lparr>mx_waiting_task_mask := mx_waiting_task_mask m2 AND NOT (task_bit i)\<rparr>, k2)"
    using assms(6,7) by (simp add: mutex_lock_iteration_eq [OF assms(5)] mutex_handed_def)
  consider "mx_is_locked m = 0" | "mx_is_locked m \<noteq> 0" "mx_owner_task_id m = of_nat i"
    | "mx_is_locked m \<noteq> 0" "mx_owner_task_id m \<noteq> of_nat i" by blast
  then show ?thesis
  proof cases
    case 1
    have same: "m\<lparr>mx_is_locked := 1, mx_owner_task_id := of_nat i, mx_waiting_task_mask := mx_waiting_task_mask m\<rparr> =
        m\<lparr>mx_is_locked := 1, mx_owner_task_id := of_nat i\<rparr>" by simp
    have "mutex_lock_iteration (of_nat i) m k =
        (Return OS_MUTEX_OK, m\<lparr>mx_is_locked := 1, mx_owner_task_id := of_nat i\<rparr>, k)"
      using first 1 assms(2) clear same by simp
    from mutex_lock_loop_return [OF this] 1 show ?thesis
      using running_prologues(1) [OF assms(1,2)] by (simp add: os_mutex_lock_def)
  next
    case 2
    then have "mutex_lock_iteration (of_nat i) m k = (Return OS_MUTEX_ERROR_RECURSIVE_LOCK, m, k)"
      using first assms(2,3) by simp
    from mutex_lock_loop_return [OF this] 2 show ?thesis
      using running_prologues(1) [OF assms(1,2)] by (simp add: os_mutex_lock_def)
  next
    case 3
    then have "mutex_lock_iteration (of_nat i) m k =
        (Again, m\<lparr>mx_waiting_task_mask := mx_waiting_task_mask m OR task_bit i\<rparr>, blocked_caller i k)"
      using first assms(2) by simp
    from mutex_lock_loop_again [OF this] 3 show ?thesis
      using running_prologues(1) [OF assms(1,2)] mutex_lock_loop_return [OF second] assms(4)
      by (simp add: os_mutex_lock_def)
  qed
qed

text \<open>
  (C29) Outcome of \<open>os_semaphore_wait\<close>, called by a running application task on an initialised
  semaphore that neither has it registered nor has granted it a unit. An available unit is
  taken at once; otherwise the caller registers, blocks and requests a context switch, and if
  it resumes after a post granted it a unit, the call returns \<open>OS_SEMAPHORE_OK\<close> and consumes
  the grant, leaving the count alone. In each case the call returns.
\<close>

theorem os_semaphore_wait_outcome:
  assumes "running_task k i" "sem_is_initialized x = OS_SEMAPHORE_INITIALIZED"
    and "\<not> semaphore_waits x i" "\<not> semaphore_granted x i"
    and "env (x\<lparr>sem_waiting_task_mask := sem_waiting_task_mask x OR task_bit i\<rparr>, blocked_caller i k) = (x2, k2)"
    and "running_task k2 i" "sem_is_initialized x2 = OS_SEMAPHORE_INITIALIZED" "semaphore_granted x2 i"
  shows "os_semaphore_wait env (Some x) k =
    (if sem_count x > 0 then Some (OS_SEMAPHORE_OK, Some (x\<lparr>sem_count := sem_count x - 1\<rparr>), k)
     else Some (OS_SEMAPHORE_OK,
       Some (x2\<lparr>sem_granted_task_mask := sem_granted_task_mask x2 AND NOT (task_bit i),
                sem_waiting_task_mask := sem_waiting_task_mask x2 AND NOT (task_bit i)\<rparr>), k2))"
proof -
  have clear: "sem_waiting_task_mask x AND NOT (task_bit i) = sem_waiting_task_mask x"
    by (rule clear_unset [OF assms(3)])
  note first = semaphore_wait_iteration_eq [OF assms(1), of x]
  have second: "semaphore_wait_iteration (of_nat i) x2 k2 =
      (Return OS_SEMAPHORE_OK, x2\<lparr>sem_granted_task_mask := sem_granted_task_mask x2 AND NOT (task_bit i),
         sem_waiting_task_mask := sem_waiting_task_mask x2 AND NOT (task_bit i)\<rparr>, k2)"
    using assms(7,8) by (simp add: semaphore_wait_iteration_eq [OF assms(6)])
  show ?thesis
  proof (cases "sem_count x > 0")
    case True
    have "x\<lparr>sem_count := sem_count x - 1, sem_waiting_task_mask := sem_waiting_task_mask x\<rparr> =
        x\<lparr>sem_count := sem_count x - 1\<rparr>" by simp
    then have "semaphore_wait_iteration (of_nat i) x k = (Return OS_SEMAPHORE_OK, x\<lparr>sem_count := sem_count x - 1\<rparr>, k)"
      using first True assms(2,4) clear by simp
    from semaphore_wait_loop_return [OF this] True show ?thesis
      using running_prologues(2) [OF assms(1,2)] by (simp add: os_semaphore_wait_def)
  next
    case False
    then have "semaphore_wait_iteration (of_nat i) x k =
        (Again, x\<lparr>sem_waiting_task_mask := sem_waiting_task_mask x OR task_bit i\<rparr>, blocked_caller i k)"
      using first assms(2,4) by simp
    from semaphore_wait_loop_again [OF this] False show ?thesis
      using running_prologues(2) [OF assms(1,2)] semaphore_wait_loop_return [OF second] assms(5)
      by (simp add: os_semaphore_wait_def)
  qed
qed

text \<open>Witnesses: the environment resumes task 1 with the mutex, or with a granted unit.\<close>

definition demo_given :: "os_mutex_t \<times> ipc \<Rightarrow> os_mutex_t \<times> ipc" where
  "demo_given mk = ((fst mk)\<lparr>mx_owner_task_id := 1\<rparr>, demo_ipc)"

theorem os_mutex_lock_outcome_witness:
  "let m = demo_mutex\<lparr>mx_is_locked := 1, mx_owner_task_id := 2\<rparr> in
   os_mutex_lock demo_given (Some m) demo_ipc =
     Some (OS_MUTEX_OK, Some (m\<lparr>mx_owner_task_id := 1, mx_waiting_task_mask := 0\<rparr>), demo_ipc)"
proof -
  let ?m = "demo_mutex\<lparr>mx_is_locked := 1, mx_owner_task_id := 2\<rparr>"
  let ?w = "?m\<lparr>mx_waiting_task_mask := mx_waiting_task_mask ?m OR task_bit 1\<rparr>"
  have given: "demo_given (?w, blocked_caller 1 demo_ipc) = (?w\<lparr>mx_owner_task_id := 1\<rparr>, demo_ipc)"
    by (simp add: demo_given_def)
  have handed: "mutex_handed 1 (?w\<lparr>mx_owner_task_id := 1\<rparr>)"
    by (simp add: mutex_handed_def demo_mutex_def bit_task_bit)
  show ?thesis
    using os_mutex_lock_outcome [where k = demo_ipc and i = 1 and m = ?m and env = demo_given, OF demo_ipc_running _ _
        given demo_ipc_running _ handed]
    by (simp add: demo_mutex_def Let_def)
qed

definition demo_unit :: "os_semaphore_t \<times> ipc \<Rightarrow> os_semaphore_t \<times> ipc" where
  "demo_unit xk = (granted_to 1 (fst xk), demo_ipc)"

theorem os_semaphore_wait_outcome_witness:
  "map_option fst (os_semaphore_wait demo_unit (Some (demo_semaphore\<lparr>sem_count := 0\<rparr>)) demo_ipc) = Some OS_SEMAPHORE_OK"
proof -
  let ?x = "demo_semaphore\<lparr>sem_count := 0\<rparr>"
  let ?w = "?x\<lparr>sem_waiting_task_mask := sem_waiting_task_mask ?x OR task_bit 1\<rparr>"
  have given: "demo_unit (?w, blocked_caller 1 demo_ipc) = (granted_to 1 ?w, demo_ipc)"
    by (simp add: demo_unit_def)
  have granted: "semaphore_granted (granted_to 1 ?w) 1"
    by (simp add: granted_to_def bit_or_task_bit)
  show ?thesis
    using os_semaphore_wait_outcome [where k = demo_ipc and i = 1 and x = ?x and env = demo_unit,
        OF demo_ipc_running _ _ _ given demo_ipc_running _ granted]
    by (simp add: demo_semaphore_def granted_to_def)
qed

section \<open>Refusals\<close>

text \<open>Where the services refuse their caller: before the kernel runs, and in the idle task.\<close>

definition no_task_context :: "'a kernel_scheme \<Rightarrow> bool" where
  "no_task_context k \<longleftrightarrow> g_scheduler_state k \<noteq> SCHEDULER_STATE_RUNNING \<or> g_context_switch_started k = 0 \<or>
     g_current_task_id k = SCHEDULER_INVALID_TASK_ID \<or> g_current_task_id k = TASK_IDLE_TASK_ID \<or>
     g_task_count k \<le> g_current_task_id k"

lemma context_refused:
  "mutex_is_valid_task_context (g_current_task_id k) k = 0 \<longleftrightarrow> no_task_context k"
  "semaphore_is_valid_task_context (g_current_task_id k) k = 0 \<longleftrightarrow> cpu_ipsr k \<noteq> 0 \<or> no_task_context k"
  by (simp_all add: mutex_is_valid_task_context_def semaphore_is_valid_task_context_def no_task_context_def
      os_scheduler_get_state_def task_get_count_def machine_ops)

text \<open>What every refused call of a mutex does.\<close>

lemma mutex_calls_refused:
  "os_mutex_lock env None k = Some (OS_MUTEX_ERROR_NULL_POINTER, None, k) \<and>
   os_mutex_unlock None k = (OS_MUTEX_ERROR_NULL_POINTER, None, k) \<and>
   (mx_is_initialized m \<noteq> OS_MUTEX_INITIALIZED \<longrightarrow>
     os_mutex_lock env (Some m) k = Some (OS_MUTEX_ERROR_NOT_INITIALIZED, Some m, k) \<and>
     os_mutex_unlock (Some m) k = (OS_MUTEX_ERROR_NOT_INITIALIZED, Some m, k)) \<and>
   (mx_is_initialized m = OS_MUTEX_INITIALIZED \<and> no_task_context k \<longrightarrow>
     os_mutex_lock env (Some m) k = Some (OS_MUTEX_ERROR_INVALID_CONTEXT, Some m, k) \<and>
     os_mutex_unlock (Some m) k = (OS_MUTEX_ERROR_INVALID_CONTEXT, Some m, k)) \<and>
   (mx_is_initialized m = OS_MUTEX_INITIALIZED \<and> \<not> no_task_context k \<and> cpu_primask k = 1 \<and>
     mx_is_locked m \<noteq> OS_MUTEX_UNLOCKED \<and> mx_owner_task_id m \<noteq> g_current_task_id k \<longrightarrow>
     os_mutex_lock env (Some m) k = Some (OS_MUTEX_ERROR_INTERRUPTS_DISABLED, Some m, k))"
proof -
  have "mutex_lock_iteration (g_current_task_id k) m k = (Return OS_MUTEX_ERROR_INTERRUPTS_DISABLED, m, k)"
    if "mx_is_initialized m = 1" "cpu_primask k = 1" "mx_is_locked m \<noteq> 0" "mx_owner_task_id m \<noteq> g_current_task_id k"
    using that by (simp add: mutex_lock_iteration_def machine_ops primask_same)
  note refused = mutex_lock_loop_return [OF this]
  have "mutex_lock_prologue (Some m) k = Inr (g_current_task_id k)"
    if "mx_is_initialized m = 1" "\<not> no_task_context k"
    using that context_refused(1) [of k] by (simp add: mutex_lock_prologue_def os_get_current_task_id_def)
  then have disabled: "os_mutex_lock env (Some m) k = Some (OS_MUTEX_ERROR_INTERRUPTS_DISABLED, Some m, k)"
    if "mx_is_initialized m = 1 \<and> \<not> no_task_context k \<and> cpu_primask k = 1 \<and> mx_is_locked m \<noteq> 0 \<and>
      mx_owner_task_id m \<noteq> g_current_task_id k"
    using that refused by (simp add: os_mutex_lock_def)
  then show ?thesis
    using context_refused(1) [of k]
    by (simp add: os_mutex_lock_def os_mutex_unlock_def mutex_lock_prologue_def os_get_current_task_id_def)
qed

lemma demo_context: "\<not> no_task_context demo_ipc"
  using demo_kernel_fields demo_kernel_tasks(1) by (simp add: no_task_context_def u32_le_unat)

text \<open>The same for semaphores.\<close>

lemma semaphore_calls_refused:
  "os_semaphore_wait env None k = Some (OS_SEMAPHORE_ERROR_NULL_POINTER, None, k) \<and>
   os_semaphore_post None k = (OS_SEMAPHORE_ERROR_NULL_POINTER, None, k) \<and>
   (initial > maximum \<or> maximum = 0 \<longrightarrow>
     os_semaphore_init (Some x) initial maximum = (OS_SEMAPHORE_ERROR_INVALID_COUNT, Some x)) \<and>
   (sem_is_initialized x \<noteq> OS_SEMAPHORE_INITIALIZED \<longrightarrow>
     os_semaphore_wait env (Some x) k = Some (OS_SEMAPHORE_ERROR_NOT_INITIALIZED, Some x, k) \<and>
     os_semaphore_post (Some x) k = (OS_SEMAPHORE_ERROR_NOT_INITIALIZED, Some x, k)) \<and>
   (sem_is_initialized x = OS_SEMAPHORE_INITIALIZED \<and> (cpu_ipsr k \<noteq> 0 \<or> no_task_context k) \<longrightarrow>
     os_semaphore_wait env (Some x) k = Some (OS_SEMAPHORE_ERROR_INVALID_CONTEXT, Some x, k) \<and>
     os_semaphore_post (Some x) k = (OS_SEMAPHORE_ERROR_INVALID_CONTEXT, Some x, k)) \<and>
   (sem_is_initialized x = OS_SEMAPHORE_INITIALIZED \<and> cpu_ipsr k = 0 \<and> \<not> no_task_context k \<and>
     cpu_primask k = 1 \<and> sem_count x = 0 \<and>
     \<not> semaphore_granted x (current_index k) \<and> current_index k < 32 \<longrightarrow>
     os_semaphore_wait env (Some x) k = Some (OS_SEMAPHORE_ERROR_INTERRUPTS_DISABLED, Some x, k))"
proof -
  have "semaphore_wait_iteration (g_current_task_id k) x k = (Return OS_SEMAPHORE_ERROR_INTERRUPTS_DISABLED, x, k)"
    if "sem_is_initialized x = 1" "cpu_primask k = 1" "sem_count x = 0"
      "\<not> semaphore_granted x (current_index k)" "current_index k < 32"
    using that and_task_bit [OF that(5), of "sem_granted_task_mask x"]
    by (simp add: semaphore_wait_iteration_def machine_ops primask_same semaphore_task_mask_eq)
  note refused = semaphore_wait_loop_return [OF this]
  have "semaphore_wait_prologue (Some x) k = Inr (g_current_task_id k)"
    if "sem_is_initialized x = 1" "cpu_ipsr k = 0" "\<not> no_task_context k"
    using that context_refused(2) [of k] by (simp add: semaphore_wait_prologue_def os_get_current_task_id_def)
  then have disabled: "os_semaphore_wait env (Some x) k = Some (OS_SEMAPHORE_ERROR_INTERRUPTS_DISABLED, Some x, k)"
    if "sem_is_initialized x = 1 \<and> cpu_ipsr k = 0 \<and> \<not> no_task_context k \<and> cpu_primask k = 1 \<and>
      sem_count x = 0 \<and> \<not> semaphore_granted x (current_index k) \<and> current_index k < 32"
    using that refused by (simp add: os_semaphore_wait_def)
  then show ?thesis
    using context_refused(2) [of k]
    by (auto simp: os_semaphore_wait_def os_semaphore_post_def semaphore_wait_prologue_def
        os_get_current_task_id_def os_semaphore_init_def)
qed

text \<open>
  (C35) Refused calls change nothing: a null pointer, an uninitialised object and a caller
  that is not an application task of the running kernel (or, for semaphores, is an exception
  handler) each have their status; a caller with interrupts disabled never blocks, it gets
  \<open>ERROR_INTERRUPTS_DISABLED\<close> for a mutex that another task owns or a semaphore without units; and
  a semaphore with maximum zero or an initial count above the maximum is rejected.
\<close>

theorem calls_refused:
  "(os_mutex_lock env None k = Some (OS_MUTEX_ERROR_NULL_POINTER, None, k) \<and>
   os_mutex_unlock None k = (OS_MUTEX_ERROR_NULL_POINTER, None, k) \<and>
   (mx_is_initialized m \<noteq> OS_MUTEX_INITIALIZED \<longrightarrow>
     os_mutex_lock env (Some m) k = Some (OS_MUTEX_ERROR_NOT_INITIALIZED, Some m, k) \<and>
     os_mutex_unlock (Some m) k = (OS_MUTEX_ERROR_NOT_INITIALIZED, Some m, k)) \<and>
   (mx_is_initialized m = OS_MUTEX_INITIALIZED \<and> no_task_context k \<longrightarrow>
     os_mutex_lock env (Some m) k = Some (OS_MUTEX_ERROR_INVALID_CONTEXT, Some m, k) \<and>
     os_mutex_unlock (Some m) k = (OS_MUTEX_ERROR_INVALID_CONTEXT, Some m, k)) \<and>
   (mx_is_initialized m = OS_MUTEX_INITIALIZED \<and> \<not> no_task_context k \<and> cpu_primask k = 1 \<and>
     mx_is_locked m \<noteq> OS_MUTEX_UNLOCKED \<and> mx_owner_task_id m \<noteq> g_current_task_id k \<longrightarrow>
     os_mutex_lock env (Some m) k = Some (OS_MUTEX_ERROR_INTERRUPTS_DISABLED, Some m, k))) \<and>
   (os_semaphore_wait env' None k = Some (OS_SEMAPHORE_ERROR_NULL_POINTER, None, k) \<and>
   os_semaphore_post None k = (OS_SEMAPHORE_ERROR_NULL_POINTER, None, k) \<and>
   (initial > maximum \<or> maximum = 0 \<longrightarrow>
     os_semaphore_init (Some x) initial maximum = (OS_SEMAPHORE_ERROR_INVALID_COUNT, Some x)) \<and>
   (sem_is_initialized x \<noteq> OS_SEMAPHORE_INITIALIZED \<longrightarrow>
     os_semaphore_wait env' (Some x) k = Some (OS_SEMAPHORE_ERROR_NOT_INITIALIZED, Some x, k) \<and>
     os_semaphore_post (Some x) k = (OS_SEMAPHORE_ERROR_NOT_INITIALIZED, Some x, k)) \<and>
   (sem_is_initialized x = OS_SEMAPHORE_INITIALIZED \<and> (cpu_ipsr k \<noteq> 0 \<or> no_task_context k) \<longrightarrow>
     os_semaphore_wait env' (Some x) k = Some (OS_SEMAPHORE_ERROR_INVALID_CONTEXT, Some x, k) \<and>
     os_semaphore_post (Some x) k = (OS_SEMAPHORE_ERROR_INVALID_CONTEXT, Some x, k)) \<and>
   (sem_is_initialized x = OS_SEMAPHORE_INITIALIZED \<and> cpu_ipsr k = 0 \<and> \<not> no_task_context k \<and>
     cpu_primask k = 1 \<and> sem_count x = 0 \<and>
     \<not> semaphore_granted x (current_index k) \<and> current_index k < 32 \<longrightarrow>
     os_semaphore_wait env' (Some x) k = Some (OS_SEMAPHORE_ERROR_INTERRUPTS_DISABLED, Some x, k)))"
  by (rule conjI [OF mutex_calls_refused semaphore_calls_refused])

theorem calls_refused_witness:
  "let m = demo_mutex\<lparr>mx_is_locked := 1, mx_owner_task_id := 2\<rparr>; k = demo_ipc\<lparr>cpu_primask := 1\<rparr> in
   os_mutex_lock demo_given (Some m) k = Some (OS_MUTEX_ERROR_INTERRUPTS_DISABLED, Some m, k) \<and>
   os_semaphore_init (Some demo_semaphore) 3 2 = (OS_SEMAPHORE_ERROR_INVALID_COUNT, Some demo_semaphore)"
  using calls_refused [of demo_given "demo_ipc\<lparr>cpu_primask := 1\<rparr>"
      "demo_mutex\<lparr>mx_is_locked := 1, mx_owner_task_id := 2\<rparr>" demo_unit 2 3 demo_semaphore] demo_context
  by (simp add: Let_def demo_mutex_def demo_semaphore_def no_task_context_def)

end
