(* ===== verification/Message_Queue.thy ===== *)
theory Message_Queue
  imports Ipc
begin

text \<open>
  The message queue service (\<open>kernel/message_queue.h\<close>, \<open>kernel/message_queue.c\<close>). A call of
  \<open>os_message_queue_send\<close> or \<open>os_message_queue_receive\<close> runs with preemption enabled, so it is
  translated into the tree of its steps (type \<open>code\<close>): a call of another service with one
  continuation for each status, a read of the queue's fields, the store of one byte, the
  store of an index. Theory Queue_System interleaves these steps with those of all other
  tasks; \<open>queue_exec\<close> below runs one call alone for given statuses of the inner calls.
\<close>

section \<open>Constants and types of message\_queue.h\<close>

abbreviation (input) OS_MESSAGE_QUEUE_OK :: int where "OS_MESSAGE_QUEUE_OK \<equiv> 0"
abbreviation (input) OS_MESSAGE_QUEUE_ERROR_NULL_POINTER :: int where
  "OS_MESSAGE_QUEUE_ERROR_NULL_POINTER \<equiv> - 1"
abbreviation (input) OS_MESSAGE_QUEUE_ERROR_INVALID_CONFIG :: int where
  "OS_MESSAGE_QUEUE_ERROR_INVALID_CONFIG \<equiv> - 2"
abbreviation (input) OS_MESSAGE_QUEUE_ERROR_NOT_INITIALIZED :: int where
  "OS_MESSAGE_QUEUE_ERROR_NOT_INITIALIZED \<equiv> - 3"
abbreviation (input) OS_MESSAGE_QUEUE_ERROR_SYNC_OPERATION :: int where
  "OS_MESSAGE_QUEUE_ERROR_SYNC_OPERATION \<equiv> - 4"

abbreviation (input) OS_MESSAGE_QUEUE_NOT_INITIALIZED :: u32 where "OS_MESSAGE_QUEUE_NOT_INITIALIZED \<equiv> 0"
abbreviation (input) OS_MESSAGE_QUEUE_INITIALIZED :: u32 where "OS_MESSAGE_QUEUE_INITIALIZED \<equiv> 1"

text \<open>
  The fields of \<open>os_message_queue_t\<close>. The synchronisation objects embedded in the structure
  form an extension: the interleaved system keeps them with all other objects.
\<close>

record message_ring =
  mq_storage :: "u8 list"
  mq_message_size :: u32
  mq_capacity :: u32
  mq_head :: u32
  mq_tail :: u32
  mq_is_initialized :: u32

record os_message_queue_t = message_ring +
  mq_access_mutex :: os_mutex_t
  mq_available_items :: os_semaphore_t
  mq_available_spaces :: os_semaphore_t

section \<open>Initialisation\<close>

text \<open>A pointer argument is an option; the storage is the application's array.\<close>

definition os_message_queue_init ::
  "os_message_queue_t option \<Rightarrow> u8 list option \<Rightarrow> u32 \<Rightarrow> u32 \<Rightarrow> int \<times> os_message_queue_t option"
where
  "os_message_queue_init queue storage message_size capacity =
     (case (queue, storage) of
        (Some q, Some bytes) \<Rightarrow>
          if message_size = 0 \<or> capacity = 0 then (OS_MESSAGE_QUEUE_ERROR_INVALID_CONFIG, queue)
          else
            let q1 = q\<lparr>mq_storage := bytes, mq_message_size := message_size, mq_capacity := capacity,
                       mq_head := 0, mq_tail := 0, mq_is_initialized := OS_MESSAGE_QUEUE_NOT_INITIALIZED\<rparr>;
                (mutex_status, mutex) = os_mutex_init (Some (mq_access_mutex q1));
                q2 = q1\<lparr>mq_access_mutex := the mutex\<rparr>
            in
            if mutex_status \<noteq> OS_MUTEX_OK then (OS_MESSAGE_QUEUE_ERROR_SYNC_OPERATION, Some q2)
            else
              let (items_status, items) = os_semaphore_init (Some (mq_available_items q2)) 0 capacity;
                  q3 = q2\<lparr>mq_available_items := the items\<rparr>
              in
              if items_status \<noteq> OS_SEMAPHORE_OK then (OS_MESSAGE_QUEUE_ERROR_SYNC_OPERATION, Some q3)
              else
                let (spaces_status, spaces) =
                      os_semaphore_init (Some (mq_available_spaces q3)) capacity capacity;
                    q4 = q3\<lparr>mq_available_spaces := the spaces\<rparr>
                in
                if spaces_status \<noteq> OS_SEMAPHORE_OK then (OS_MESSAGE_QUEUE_ERROR_SYNC_OPERATION, Some q4)
                else (OS_MESSAGE_QUEUE_OK, Some (q4\<lparr>mq_is_initialized := OS_MESSAGE_QUEUE_INITIALIZED\<rparr>))
      | _ \<Rightarrow> (OS_MESSAGE_QUEUE_ERROR_NULL_POINTER, queue))"

section \<open>Send and receive\<close>

text \<open>The three objects of the queue among the objects of the system.\<close>

abbreviation (input) access_mutex :: nat where "access_mutex \<equiv> 0"
abbreviation (input) available_items :: nat where "available_items \<equiv> 0"
abbreviation (input) available_spaces :: nat where "available_spaces \<equiv> 1"

datatype call = Semaphore_wait nat | Semaphore_post nat | Mutex_lock nat | Mutex_unlock nat

text \<open>
  The steps of a call. \<open>Done\<close> carries the status and the bytes of the caller's message
  buffer. The message in \<open>Set_tail\<close> and \<open>Set_head\<close> only labels the step in histories.
\<close>

datatype code =
    Done int "u8 list"
  | Call call "int \<Rightarrow> code"
  | Get "message_ring \<Rightarrow> code"
  | Store nat u8 code
  | Set_tail u32 "u8 list" code
  | Set_head u32 "u8 list" code

definition message_queue_slot_address :: "'a message_ring_scheme \<Rightarrow> u32 \<Rightarrow> nat" where
  "message_queue_slot_address queue slot_index = unat (slot_index * mq_message_size queue)"

text \<open>\<open>message_queue_copy_bytes\<close> into the queue's storage and out of it, for the indices that are left.\<close>

fun message_queue_copy_in :: "nat list \<Rightarrow> nat \<Rightarrow> u8 list \<Rightarrow> code \<Rightarrow> code" where
  "message_queue_copy_in [] destination message c = c"
| "message_queue_copy_in (index # indices) destination message c =
     Store (destination + index) (message ! index) (message_queue_copy_in indices destination message c)"

fun message_queue_copy_out :: "nat list \<Rightarrow> nat \<Rightarrow> u8 list \<Rightarrow> (u8 list \<Rightarrow> code) \<Rightarrow> code" where
  "message_queue_copy_out [] source message c = c message"
| "message_queue_copy_out (index # indices) source message c =
     Get (\<lambda>queue. message_queue_copy_out indices source
       (message[index := mq_storage queue ! (source + index)]) c)"

definition os_message_queue_send :: "bool \<Rightarrow> u8 list option \<Rightarrow> code" where
  "os_message_queue_send queue_is_null message_pointer =
     (case message_pointer of
        None \<Rightarrow> Done OS_MESSAGE_QUEUE_ERROR_NULL_POINTER []
      | Some message \<Rightarrow>
          if queue_is_null then Done OS_MESSAGE_QUEUE_ERROR_NULL_POINTER message
          else Get (\<lambda>queue.
            if mq_is_initialized queue \<noteq> OS_MESSAGE_QUEUE_INITIALIZED
            then Done OS_MESSAGE_QUEUE_ERROR_NOT_INITIALIZED message
            else Call (Semaphore_wait available_spaces) (\<lambda>wait_status.
              if wait_status \<noteq> OS_SEMAPHORE_OK then Done OS_MESSAGE_QUEUE_ERROR_SYNC_OPERATION message
              else Call (Mutex_lock access_mutex) (\<lambda>mutex_status.
                if mutex_status \<noteq> OS_MUTEX_OK then
                  Call (Semaphore_post available_spaces) (\<lambda>_. Done OS_MESSAGE_QUEUE_ERROR_SYNC_OPERATION message)
                else Get (\<lambda>queue.
                  let destination = message_queue_slot_address queue (mq_tail queue) in
                  message_queue_copy_in [0..<unat (mq_message_size queue)] destination message (Get (\<lambda>queue.
                    let next_tail = mq_tail queue + 1;
                        next_tail = (if next_tail \<ge> mq_capacity queue then 0 else next_tail)
                    in
                    Set_tail next_tail message (Call (Mutex_unlock access_mutex) (\<lambda>unlock_status.
                      if unlock_status \<noteq> OS_MUTEX_OK then Done OS_MESSAGE_QUEUE_ERROR_SYNC_OPERATION message
                      else Call (Semaphore_post available_items) (\<lambda>post_status.
                        if post_status \<noteq> OS_SEMAPHORE_OK then Done OS_MESSAGE_QUEUE_ERROR_SYNC_OPERATION message
                        else Done OS_MESSAGE_QUEUE_OK message))))))))))"

text \<open>The message argument of receive is the content of the caller's buffer before the call.\<close>

definition os_message_queue_receive :: "bool \<Rightarrow> u8 list option \<Rightarrow> code" where
  "os_message_queue_receive queue_is_null message_pointer =
     (case message_pointer of
        None \<Rightarrow> Done OS_MESSAGE_QUEUE_ERROR_NULL_POINTER []
      | Some buffer \<Rightarrow>
          if queue_is_null then Done OS_MESSAGE_QUEUE_ERROR_NULL_POINTER buffer
          else Get (\<lambda>queue.
            if mq_is_initialized queue \<noteq> OS_MESSAGE_QUEUE_INITIALIZED
            then Done OS_MESSAGE_QUEUE_ERROR_NOT_INITIALIZED buffer
            else Call (Semaphore_wait available_items) (\<lambda>wait_status.
              if wait_status \<noteq> OS_SEMAPHORE_OK then Done OS_MESSAGE_QUEUE_ERROR_SYNC_OPERATION buffer
              else Call (Mutex_lock access_mutex) (\<lambda>mutex_status.
                if mutex_status \<noteq> OS_MUTEX_OK then
                  Call (Semaphore_post available_items) (\<lambda>_. Done OS_MESSAGE_QUEUE_ERROR_SYNC_OPERATION buffer)
                else Get (\<lambda>queue.
                  let source = message_queue_slot_address queue (mq_head queue) in
                  message_queue_copy_out [0..<unat (mq_message_size queue)] source buffer (\<lambda>message. Get (\<lambda>queue.
                    let next_head = mq_head queue + 1;
                        next_head = (if next_head \<ge> mq_capacity queue then 0 else next_head)
                    in
                    Set_head next_head message (Call (Mutex_unlock access_mutex) (\<lambda>unlock_status.
                      if unlock_status \<noteq> OS_MUTEX_OK then Done OS_MESSAGE_QUEUE_ERROR_SYNC_OPERATION message
                      else Call (Semaphore_post available_spaces) (\<lambda>post_status.
                        if post_status \<noteq> OS_SEMAPHORE_OK then Done OS_MESSAGE_QUEUE_ERROR_SYNC_OPERATION message
                        else Done OS_MESSAGE_QUEUE_OK message))))))))))"

section \<open>One call alone\<close>

text \<open>
  The effect of a call that no other task interrupts, when each inner call \<open>c\<close> returns
  \<open>status c\<close>: the result, the caller's buffer, the queue and the inner calls in order.
\<close>

primrec queue_exec ::
  "code \<Rightarrow> (call \<Rightarrow> int) \<Rightarrow> message_ring \<Rightarrow> call list \<Rightarrow> int \<times> u8 list \<times> message_ring \<times> call list"
where
  "queue_exec (Done result buffer) status q calls = (result, buffer, q, calls)"
| "queue_exec (Call c f) status q calls = queue_exec (f (status c)) status q (calls @ [c])"
| "queue_exec (Get f) status q calls = queue_exec (f q) status q calls"
| "queue_exec (Store address byte c) status q calls =
     queue_exec c status (q\<lparr>mq_storage := (mq_storage q)[address := byte]\<rparr>) calls"
| "queue_exec (Set_tail index message c) status q calls = queue_exec c status (q\<lparr>mq_tail := index\<rparr>) calls"
| "queue_exec (Set_head index message c) status q calls = queue_exec c status (q\<lparr>mq_head := index\<rparr>) calls"

end
