(* ===== verification/Queue_Ring.thy ===== *)
theory Queue_Ring
  imports Message_Queue
begin

text \<open>
  The storage of a message queue as an array of slots, and the content of the queue as the
  list of messages between head and tail (\<open>ring_holds\<close>). The copy loops write or read exactly
  one slot.
\<close>

section \<open>Slots\<close>

definition ring_shape :: "'a message_ring_scheme \<Rightarrow> bool" where
  "ring_shape q \<longleftrightarrow> mq_message_size q \<noteq> 0 \<and>
     unat (mq_capacity q) * unat (mq_message_size q) \<le> length (mq_storage q) \<and>
     length (mq_storage q) < 2 ^ 32 \<and>
     mq_head q < mq_capacity q \<and> mq_tail q < mq_capacity q"

abbreviation slots :: "'a message_ring_scheme \<Rightarrow> nat" where
  "slots q \<equiv> unat (mq_capacity q)"

abbreviation width :: "'a message_ring_scheme \<Rightarrow> nat" where
  "width q \<equiv> unat (mq_message_size q)"

definition slot :: "'a message_ring_scheme \<Rightarrow> nat \<Rightarrow> u8 list" where
  "slot q j = take (width q) (drop (j * width q) (mq_storage q))"

lemma slot_end:
  assumes "ring_shape q" "j < slots q" "i < width q"
  shows "j * width q + i < length (mq_storage q)" "j * width q + width q \<le> length (mq_storage q)"
proof -
  have "Suc j * width q \<le> slots q * width q" using assms(2) by (intro mult_le_mono1) simp
  then show "j * width q + width q \<le> length (mq_storage q)"
    using assms(1) by (simp add: ring_shape_def)
  then show "j * width q + i < length (mq_storage q)" using assms(3) by simp
qed

lemma slot_address_eq:
  assumes "ring_shape q" "s < mq_capacity q"
  shows "message_queue_slot_address q s = unat s * width q"
proof -
  have s: "unat s < slots q" using assms(2) by (simp add: word_less_nat_alt)
  have "0 < width q" using assms(1) by (simp add: ring_shape_def unat_gt_0)
  then have "unat s * width q < length (mq_storage q)" using slot_end(1) [OF assms(1) s, of 0] by simp
  then have "unat s * width q < 2 ^ 32" using assms(1) by (simp add: ring_shape_def)
  then show ?thesis by (simp add: message_queue_slot_address_def unat_word_ariths)
qed

lemma slot_length: "ring_shape q \<Longrightarrow> j < slots q \<Longrightarrow> length (slot q j) = width q"
proof -
  assume a: "ring_shape q" "j < slots q"
  have "0 < width q" using a(1) by (simp add: ring_shape_def unat_gt_0)
  then show ?thesis using slot_end(2) [OF a, of 0] by (simp add: slot_def)
qed

lemma slot_nth:
  "ring_shape q \<Longrightarrow> j < slots q \<Longrightarrow> i < width q \<Longrightarrow> slot q j ! i = mq_storage q ! (j * width q + i)"
  using slot_end(2) [of q j i] by (simp add: slot_def)

text \<open>A byte stored in one slot leaves the others alone.\<close>

lemma slot_position:
  fixes j j' i i' w :: nat
  assumes "j * w + i = j' * w + i'" "i < w" "i' < w"
  shows "j = j' \<and> i = i'"
proof -
  have "(j * w + i) div w = j" "(j' * w + i') div w = j'" using assms(2,3) by simp_all
  then have "j = j'" using assms(1) by simp
  then show ?thesis using assms(1) by simp
qed

lemma slot_store:
  assumes "ring_shape q" "j < slots q" "j' < slots q" "i < width q"
  shows "slot (q\<lparr>mq_storage := (mq_storage q)[j * width q + i := b]\<rparr>) j' =
    (if j' = j then (slot q j)[i := b] else slot q j')"
proof -
  let ?q = "q\<lparr>mq_storage := (mq_storage q)[j * width q + i := b]\<rparr>"
  have shape: "ring_shape ?q" using assms(1) by (simp add: ring_shape_def)
  have "slot ?q j' ! l = (if j' = j then (slot q j)[i := b] else slot q j') ! l" if "l < width q" for l
    using slot_nth [OF shape, of j' l] slot_nth [OF assms(1,3), of l] slot_nth [OF assms(1,2), of l]
      slot_position [of j "width q" i j' l] slot_end(1) [OF assms(1,2,4)] slot_length [OF assms(1,2)] that assms(3,4)
    by (auto simp: nth_list_update)
  moreover have "length (slot ?q j') = width q" "length (slot q j') = width q" "length (slot q j) = width q"
    using slot_length [OF shape, of j'] slot_length [OF assms(1,3)] slot_length [OF assms(1,2)] assms(3) by simp_all
  ultimately show ?thesis by (intro nth_equalityI) (auto split: if_splits)
qed

lemma slot_cong:
  "mq_storage q' = mq_storage q \<Longrightarrow> mq_message_size q' = mq_message_size q \<Longrightarrow> slot q' = slot q"
  by (simp add: slot_def fun_eq_iff)

section \<open>The content\<close>

text \<open>The messages \<open>ms\<close> occupy the slots from the head on, and the tail is behind them.\<close>

definition ring_holds :: "'a message_ring_scheme \<Rightarrow> u8 list list \<Rightarrow> bool" where
  "ring_holds q ms \<longleftrightarrow> ring_shape q \<and> length ms \<le> slots q \<and>
     unat (mq_tail q) = (unat (mq_head q) + length ms) mod slots q \<and>
     (\<forall>p < length ms. slot q ((unat (mq_head q) + p) mod slots q) = ms ! p)"

definition advance :: "u32 \<Rightarrow> u32 \<Rightarrow> u32" where
  "advance capacity index = (let next = index + 1 in if next \<ge> capacity then 0 else next)"

lemma advance_eq:
  assumes "i < c"
  shows "unat (advance c i) = Suc (unat i) mod unat c" "advance c i < c"
proof -
  have small: "Suc (unat i) \<le> unat c" using assms by (simp add: word_less_nat_alt)
  then have "Suc (unat i) < 2 ^ 32" if "Suc (unat i) \<noteq> unat c" using that unat_u32_less [of c] by simp
  moreover have "i + 1 = c \<or> unat (i + 1) = Suc (unat i)"
  proof (cases "Suc (unat i) = unat c")
    case True
    then have "of_nat (Suc (unat i)) = c" by simp
    then show ?thesis by (simp add: add.commute)
  next
    case False
    then show ?thesis using small unat_u32_less [of c] by (simp add: unat_word_ariths)
  qed
  ultimately show eq: "unat (advance c i) = Suc (unat i) mod unat c"
    using small unat_u32_less [of c] by (auto simp: advance_def Let_def word_le_nat_alt unat_word_ariths)
  show "advance c i < c" unfolding word_less_nat_alt eq using assms by (simp add: word_less_nat_alt)
qed

lemma other_slot:
  fixes h n c :: nat
  assumes "p < n" "n < c" "h < c"
  shows "(h + p) mod c \<noteq> (h + n) mod c"
proof
  assume "(h + p) mod c = (h + n) mod c"
  then have "c dvd (h + n) - (h + p)" using assms by (intro mod_eq_dvd_iff_nat [THEN iffD1]) auto
  then show False using assms by (auto dest: dvd_imp_le)
qed

lemma ring_holdsD:
  assumes "ring_holds q ms"
  shows "ring_shape q" "length ms \<le> slots q" "unat (mq_tail q) = (unat (mq_head q) + length ms) mod slots q"
    "unat (mq_head q) < slots q" "unat (mq_tail q) < slots q" "0 < width q"
    "p < length ms \<Longrightarrow> slot q ((unat (mq_head q) + p) mod slots q) = ms ! p"
  using assms by (auto simp: ring_holds_def ring_shape_def word_less_nat_alt unat_gt_0)

text \<open>A byte stored into the free slot at the tail does not change the content.\<close>

lemma ring_holds_store:
  assumes "ring_holds q ms" "length ms < slots q" "i < width q"
  shows "ring_holds (q\<lparr>mq_storage := (mq_storage q)[unat (mq_tail q) * width q + i := b]\<rparr>) ms"
    (is "ring_holds ?q ms")
proof -
  note r = ring_holdsD [OF assms(1)]
  have "slot ?q ((unat (mq_head q) + p) mod slots q) = ms ! p" if "p < length ms" for p
    using slot_store [OF r(1,5) _ assms(3), of "(unat (mq_head q) + p) mod slots q" b] r(3,4) r(7) [OF that]
      other_slot [OF that assms(2) r(4)] by simp
  then show ?thesis using assms(1) by (simp add: ring_holds_def ring_shape_def)
qed

lemma ring_holds_put:
  assumes "ring_holds q ms" "length ms < slots q"
  shows "ring_holds (q\<lparr>mq_tail := advance (mq_capacity q) (mq_tail q)\<rparr>) (ms @ [slot q (unat (mq_tail q))])"
    (is "ring_holds ?q _")
proof -
  note r = ring_holdsD [OF assms(1)]
  have tail: "mq_tail q < mq_capacity q" using r(5) by (simp add: word_less_nat_alt)
  note ad = advance_eq [OF tail]
  have same: "slot ?q = slot q" by (rule slot_cong) simp_all
  have "ring_shape ?q" using r(1) ad(2) by (simp add: ring_shape_def)
  moreover have "Suc (unat (mq_tail q)) mod slots q = (unat (mq_head q) + Suc (length ms)) mod slots q"
    unfolding r(3) by (simp add: mod_Suc_eq)
  ultimately show ?thesis
    unfolding ring_holds_def same using assms(2) ad(1) r(3,7) by (auto simp: nth_append less_Suc_eq)
qed

lemma ring_holds_get:
  assumes "ring_holds q (m # ms)"
  shows "slot q (unat (mq_head q)) = m" "ring_holds (q\<lparr>mq_head := advance (mq_capacity q) (mq_head q)\<rparr>) ms"
proof -
  let ?q = "q\<lparr>mq_head := advance (mq_capacity q) (mq_head q)\<rparr>"
  note r = ring_holdsD [OF assms]
  show "slot q (unat (mq_head q)) = m" using r(7) [of 0] r(4) by simp
  have head: "mq_head q < mq_capacity q" using r(4) by (simp add: word_less_nat_alt)
  note ad = advance_eq [OF head]
  have same: "slot ?q = slot q" by (rule slot_cong) simp_all
  have "ring_shape ?q" using r(1) ad(2) by (simp add: ring_shape_def)
  moreover have "(Suc (unat (mq_head q)) mod slots q + p) mod slots q = (unat (mq_head q) + Suc p) mod slots q" for p
    by (simp add: mod_add_left_eq)
  ultimately show "ring_holds ?q ms"
    unfolding ring_holds_def same using ad(1) r(2,3) r(7) [of "Suc p" for p] by auto
qed

section \<open>The copy loops\<close>

lemma queue_exec_copy_in:
  "queue_exec (message_queue_copy_in is d m c) st q calls =
     queue_exec c st (q\<lparr>mq_storage := fold (\<lambda>i s. s[d + i := m ! i]) is (mq_storage q)\<rparr>) calls"
  by (induction "is" arbitrary: q) simp_all

lemma queue_exec_copy_out:
  "queue_exec (message_queue_copy_out is d m c) st q calls =
     queue_exec (c (fold (\<lambda>i b. b[i := mq_storage q ! (d + i)]) is m)) st q calls"
  by (induction "is" arbitrary: m) simp_all

lemma fold_write:
  assumes "d + n \<le> length s" "n \<le> length m"
  shows "fold (\<lambda>i s. s[d + i := m ! i]) [0..<n] s = take d s @ take n m @ drop (d + n) s"
  using assms
proof (induction n)
  case (Suc n)
  then have "fold (\<lambda>i s. s[d + i := m ! i]) [0..<Suc n] s = (take d s @ take n m @ drop (d + n) s)[d + n := m ! n]"
    by simp
  also have "\<dots> = take d s @ take n m @ m ! n # drop (Suc (d + n)) s"
    using Suc.prems by (simp add: list_update_append Cons_nth_drop_Suc [symmetric])
  finally show ?case using Suc.prems by (simp add: take_Suc_conv_app_nth)
qed simp

lemma fold_read:
  assumes "d + n \<le> length s" "n \<le> length b"
  shows "fold (\<lambda>i b. b[i := s ! (d + i)]) [0..<n] b = take n (drop d s) @ drop n b"
  using assms
proof (induction n)
  case (Suc n)
  then have "fold (\<lambda>i b. b[i := s ! (d + i)]) [0..<Suc n] b = (take n (drop d s) @ drop n b)[n := s ! (d + n)]"
    by simp
  also have "\<dots> = take n (drop d s) @ s ! (d + n) # drop (Suc n) b"
    using Suc.prems by (simp add: list_update_append Cons_nth_drop_Suc [symmetric])
  finally show ?case using Suc.prems by (simp add: take_Suc_conv_app_nth)
qed simp

end
