(* ===== verification/Queue_System.thy ===== *)
theory Queue_System
  imports Queue_Ring
begin

text \<open>
  Tasks that use one message queue, in the system of theory Ipc. The state adds the queue's
  fields and, for each task, the steps left of its current call of the queue service. Every
  access of the queue's fields is one step and every inner call takes the steps it has in
  Ipc, so preemption between any two of them, down to single bytes of a message, is covered.
  Tasks outside the queue service use all other mutexes and semaphores freely.
\<close>

section \<open>State and steps\<close>

record queue_system =
  sys_ipc :: ipc
  sys_ring :: message_ring
  sys_code :: "nat \<Rightarrow> code option"

text \<open>
  The history: a task called an operation, a message entered or left the queue (the store of
  tail or head), a call returned to its caller with a status and the content of the message
  buffer.
\<close>

datatype queue_event =
    Send_called nat "u8 list"
  | Receive_called nat
  | Enqueued nat "u8 list"
  | Dequeued nat "u8 list"
  | Returned nat int "u8 list"

fun call_event :: "call \<Rightarrow> nat \<Rightarrow> int \<Rightarrow> event" where
  "call_event (Semaphore_wait s) i status = Waited i s status"
| "call_event (Semaphore_post s) i status = Posted i s status"
| "call_event (Mutex_lock m) i status = Locked i m status"
| "call_event (Mutex_unlock m) i status = Unlocked i m status"

text \<open>Which object a task with the given code may be waiting for.\<close>

fun may_enter :: "code option \<Rightarrow> activity \<Rightarrow> bool" where
  "may_enter c Outside = True"
| "may_enter (Some (Call (Semaphore_wait s) f)) (Waiting s') = (s' = s)"
| "may_enter (Some (Call (Mutex_lock m) f)) (Locking m') = (m' = m)"
| "may_enter None (Locking m) = (m \<noteq> access_mutex)"
| "may_enter None (Waiting s) = (s \<noteq> available_items \<and> s \<noteq> available_spaces)"
| "may_enter _ _ = False"

fun foreign :: "event \<Rightarrow> (nat \<Rightarrow> code option) \<Rightarrow> bool" where
  "foreign (Waited i s status) cs = (cs i = None \<and> s \<noteq> available_items \<and> s \<noteq> available_spaces)"
| "foreign (Posted i s status) cs = (cs i = None \<and> s \<noteq> available_items \<and> s \<noteq> available_spaces)"
| "foreign (Locked i m status) cs = (cs i = None \<and> m \<noteq> access_mutex)"
| "foreign (Unlocked i m status) cs = (cs i = None \<and> m \<noteq> access_mutex)"

definition at_queue :: "queue_system \<Rightarrow> nat \<Rightarrow> bool" where
  "at_queue x i \<longleftrightarrow> thread_active (sys_ipc x) \<and> i = current_index (sys_ipc x) \<and>
     ipc_activity (sys_ipc x) i = Outside"

inductive queue_step :: "queue_system \<Rightarrow> queue_event list \<Rightarrow> queue_system \<Rightarrow> bool" where
  internal: "ipc_step (sys_ipc x) [] k \<Longrightarrow> (\<forall>i. may_enter (sys_code x i) (ipc_activity k i)) \<Longrightarrow>
    queue_step x [] (x\<lparr>sys_ipc := k\<rparr>)"
| other_call: "ipc_step (sys_ipc x) [e] k \<Longrightarrow> foreign e (sys_code x) \<Longrightarrow>
    queue_step x [] (x\<lparr>sys_ipc := k\<rparr>)"
| inner_call: "ipc_step (sys_ipc x) [call_event c i status] k \<Longrightarrow> sys_code x i = Some (Call c f) \<Longrightarrow>
    queue_step x [] (x\<lparr>sys_ipc := k, sys_code := (sys_code x)(i := Some (f status))\<rparr>)"
| send: "at_queue x i \<Longrightarrow> sys_code x i = None \<Longrightarrow> length m = unat (mq_message_size (sys_ring x)) \<Longrightarrow>
    queue_step x [Send_called i m] (x\<lparr>sys_code := (sys_code x)(i := Some (os_message_queue_send False (Some m)))\<rparr>)"
| receive: "at_queue x i \<Longrightarrow> sys_code x i = None \<Longrightarrow> length b = unat (mq_message_size (sys_ring x)) \<Longrightarrow>
    queue_step x [Receive_called i] (x\<lparr>sys_code := (sys_code x)(i := Some (os_message_queue_receive False (Some b)))\<rparr>)"
| fetch: "at_queue x i \<Longrightarrow> sys_code x i = Some (Get f) \<Longrightarrow>
    queue_step x [] (x\<lparr>sys_code := (sys_code x)(i := Some (f (sys_ring x)))\<rparr>)"
| store: "at_queue x i \<Longrightarrow> sys_code x i = Some (Store address byte c) \<Longrightarrow>
    queue_step x [] (x\<lparr>sys_ring := (sys_ring x)\<lparr>mq_storage := (mq_storage (sys_ring x))[address := byte]\<rparr>,
      sys_code := (sys_code x)(i := Some c)\<rparr>)"
| enqueue: "at_queue x i \<Longrightarrow> sys_code x i = Some (Set_tail index m c) \<Longrightarrow>
    queue_step x [Enqueued i m] (x\<lparr>sys_ring := (sys_ring x)\<lparr>mq_tail := index\<rparr>,
      sys_code := (sys_code x)(i := Some c)\<rparr>)"
| dequeue: "at_queue x i \<Longrightarrow> sys_code x i = Some (Set_head index m c) \<Longrightarrow>
    queue_step x [Dequeued i m] (x\<lparr>sys_ring := (sys_ring x)\<lparr>mq_head := index\<rparr>,
      sys_code := (sys_code x)(i := Some c)\<rparr>)"
| return: "at_queue x i \<Longrightarrow> sys_code x i = Some (Done status b) \<Longrightarrow>
    queue_step x [Returned i status b] (x\<lparr>sys_code := (sys_code x)(i := None)\<rparr>)"

text \<open>An execution and its history, the earliest event first.\<close>

inductive queue_run :: "queue_system \<Rightarrow> queue_event list \<Rightarrow> queue_system \<Rightarrow> bool" for x0 where
  start: "queue_run x0 [] x0"
| step: "queue_run x0 es x \<Longrightarrow> queue_step x e x' \<Longrightarrow> queue_run x0 (es @ e) x'"

section \<open>The abstract queue\<close>

text \<open>
  What the service promises: a list of at most \<open>capacity\<close> messages, and calls that take effect
  once, between call and return. A send appends its message and then returns success; a
  receive removes the first message and then returns success with it in the buffer. The only
  failure is that of the idle task, before any effect.
\<close>

datatype progress = Idle | Sending "u8 list" | Sent "u8 list" | Receiving | Got "u8 list"

fun spec_step ::
  "nat \<Rightarrow> queue_event \<Rightarrow> u8 list list \<times> (nat \<Rightarrow> progress) \<Rightarrow> (u8 list list \<times> (nat \<Rightarrow> progress)) option"
where
  "spec_step capacity (Send_called i m) (ms, pr) =
     (if pr i = Idle then Some (ms, pr(i := Sending m)) else None)"
| "spec_step capacity (Receive_called i) (ms, pr) =
     (if pr i = Idle then Some (ms, pr(i := Receiving)) else None)"
| "spec_step capacity (Enqueued i m) (ms, pr) =
     (if pr i = Sending m \<and> length ms < capacity then Some (ms @ [m], pr(i := Sent m)) else None)"
| "spec_step capacity (Dequeued i m) (ms, pr) =
     (if pr i = Receiving \<and> ms \<noteq> [] \<and> hd ms = m then Some (tl ms, pr(i := Got m)) else None)"
| "spec_step capacity (Returned i status m) (ms, pr) =
     (if status = OS_MESSAGE_QUEUE_OK \<and> i \<noteq> 0 \<and> (pr i = Sent m \<or> pr i = Got m) \<or>
         status = OS_MESSAGE_QUEUE_ERROR_SYNC_OPERATION \<and> i = 0 \<and> (pr i = Sending m \<or> pr i = Receiving)
      then Some (ms, pr(i := Idle)) else None)"

fun spec_run ::
  "nat \<Rightarrow> queue_event list \<Rightarrow> u8 list list \<times> (nat \<Rightarrow> progress) \<Rightarrow> (u8 list list \<times> (nat \<Rightarrow> progress)) option"
where
  "spec_run capacity [] a = Some a"
| "spec_run capacity (e # es) a = (case spec_step capacity e a of None \<Rightarrow> None | Some a' \<Rightarrow> spec_run capacity es a')"

lemma spec_run_append:
  "spec_run c (es @ es') a = (case spec_run c es a of None \<Rightarrow> None | Some a' \<Rightarrow> spec_run c es' a')"
  by (induction es arbitrary: a) (auto split: option.splits)

section \<open>Phases of a call\<close>

text \<open>Where a task is in its call, with the message it sends or the bytes it has received.\<close>

datatype phase =
    Out
  | Send_check "u8 list" | Send_wait "u8 list" | Send_lock "u8 list" | Send_address "u8 list"
  | Send_copy nat "u8 list" | Send_commit "u8 list" | Send_unlock "u8 list" | Send_post "u8 list"
  | Send_done int "u8 list"
  | Receive_check "u8 list" | Receive_wait "u8 list" | Receive_lock "u8 list" | Receive_address "u8 list"
  | Receive_copy nat "u8 list" | Receive_commit "u8 list" | Receive_unlock "u8 list" | Receive_post "u8 list"
  | Receive_done int "u8 list"

definition send_post_code :: "u8 list \<Rightarrow> code" where
  "send_post_code m = Call (Semaphore_post available_items) (\<lambda>post_status.
     if post_status \<noteq> OS_SEMAPHORE_OK then Done OS_MESSAGE_QUEUE_ERROR_SYNC_OPERATION m
     else Done OS_MESSAGE_QUEUE_OK m)"

definition send_unlock_code :: "u8 list \<Rightarrow> code" where
  "send_unlock_code m = Call (Mutex_unlock access_mutex) (\<lambda>unlock_status.
     if unlock_status \<noteq> OS_MUTEX_OK then Done OS_MESSAGE_QUEUE_ERROR_SYNC_OPERATION m else send_post_code m)"

definition send_next_code :: "u8 list \<Rightarrow> code" where
  "send_next_code m = Get (\<lambda>q. Set_tail (advance (mq_capacity q) (mq_tail q)) m (send_unlock_code m))"

definition send_address_code :: "u8 list \<Rightarrow> code" where
  "send_address_code m = Get (\<lambda>q. message_queue_copy_in [0..<unat (mq_message_size q)]
     (message_queue_slot_address q (mq_tail q)) m (send_next_code m))"

definition send_lock_code :: "u8 list \<Rightarrow> code" where
  "send_lock_code m = Call (Mutex_lock access_mutex) (\<lambda>mutex_status.
     if mutex_status \<noteq> OS_MUTEX_OK then
       Call (Semaphore_post available_spaces) (\<lambda>_. Done OS_MESSAGE_QUEUE_ERROR_SYNC_OPERATION m)
     else send_address_code m)"

definition send_wait_code :: "u8 list \<Rightarrow> code" where
  "send_wait_code m = Call (Semaphore_wait available_spaces) (\<lambda>wait_status.
     if wait_status \<noteq> OS_SEMAPHORE_OK then Done OS_MESSAGE_QUEUE_ERROR_SYNC_OPERATION m else send_lock_code m)"

lemma send_code:
  "os_message_queue_send False (Some m) = Get (\<lambda>q. if mq_is_initialized q \<noteq> OS_MESSAGE_QUEUE_INITIALIZED
     then Done OS_MESSAGE_QUEUE_ERROR_NOT_INITIALIZED m else send_wait_code m)"
  unfolding os_message_queue_send_def send_wait_code_def send_lock_code_def send_address_code_def
      send_next_code_def send_unlock_code_def send_post_code_def advance_def Let_def by simp

definition receive_post_code :: "u8 list \<Rightarrow> code" where
  "receive_post_code m = Call (Semaphore_post available_spaces) (\<lambda>post_status.
     if post_status \<noteq> OS_SEMAPHORE_OK then Done OS_MESSAGE_QUEUE_ERROR_SYNC_OPERATION m
     else Done OS_MESSAGE_QUEUE_OK m)"

definition receive_unlock_code :: "u8 list \<Rightarrow> code" where
  "receive_unlock_code m = Call (Mutex_unlock access_mutex) (\<lambda>unlock_status.
     if unlock_status \<noteq> OS_MUTEX_OK then Done OS_MESSAGE_QUEUE_ERROR_SYNC_OPERATION m else receive_post_code m)"

definition receive_next_code :: "u8 list \<Rightarrow> code" where
  "receive_next_code m = Get (\<lambda>q. Set_head (advance (mq_capacity q) (mq_head q)) m (receive_unlock_code m))"

definition receive_address_code :: "u8 list \<Rightarrow> code" where
  "receive_address_code b = Get (\<lambda>q. message_queue_copy_out [0..<unat (mq_message_size q)]
     (message_queue_slot_address q (mq_head q)) b receive_next_code)"

definition receive_lock_code :: "u8 list \<Rightarrow> code" where
  "receive_lock_code b = Call (Mutex_lock access_mutex) (\<lambda>mutex_status.
     if mutex_status \<noteq> OS_MUTEX_OK then
       Call (Semaphore_post available_items) (\<lambda>_. Done OS_MESSAGE_QUEUE_ERROR_SYNC_OPERATION b)
     else receive_address_code b)"

definition receive_wait_code :: "u8 list \<Rightarrow> code" where
  "receive_wait_code b = Call (Semaphore_wait available_items) (\<lambda>wait_status.
     if wait_status \<noteq> OS_SEMAPHORE_OK then Done OS_MESSAGE_QUEUE_ERROR_SYNC_OPERATION b else receive_lock_code b)"

lemma receive_code:
  "os_message_queue_receive False (Some b) = Get (\<lambda>q. if mq_is_initialized q \<noteq> OS_MESSAGE_QUEUE_INITIALIZED
     then Done OS_MESSAGE_QUEUE_ERROR_NOT_INITIALIZED b else receive_wait_code b)"
  unfolding os_message_queue_receive_def receive_wait_code_def receive_lock_code_def
      receive_address_code_def receive_next_code_def [abs_def] receive_unlock_code_def receive_post_code_def
      advance_def Let_def by simp

text \<open>The code left in each phase; \<open>q\<close> is the queue, whose head and tail only the mutex holder moves.\<close>

fun code_at :: "message_ring \<Rightarrow> phase \<Rightarrow> code option" where
  "code_at q Out = None"
| "code_at q (Send_done status m) = Some (Done status m)"
| "code_at q (Receive_done status m) = Some (Done status m)"
| "code_at q (Send_check m) = Some (os_message_queue_send False (Some m))"
| "code_at q (Send_wait m) = Some (send_wait_code m)"
| "code_at q (Send_lock m) = Some (send_lock_code m)"
| "code_at q (Send_address m) = Some (send_address_code m)"
| "code_at q (Send_copy j m) = Some (message_queue_copy_in [j..<width q]
     (unat (mq_tail q) * width q) m (send_next_code m))"
| "code_at q (Send_commit m) = Some (Set_tail (advance (mq_capacity q) (mq_tail q)) m (send_unlock_code m))"
| "code_at q (Send_unlock m) = Some (send_unlock_code m)"
| "code_at q (Send_post m) = Some (send_post_code m)"
| "code_at q (Receive_check b) = Some (os_message_queue_receive False (Some b))"
| "code_at q (Receive_wait b) = Some (receive_wait_code b)"
| "code_at q (Receive_lock b) = Some (receive_lock_code b)"
| "code_at q (Receive_address b) = Some (receive_address_code b)"
| "code_at q (Receive_copy j b) = Some (message_queue_copy_out [j..<width q]
     (unat (mq_head q) * width q) b receive_next_code)"
| "code_at q (Receive_commit b) = Some (Set_head (advance (mq_capacity q) (mq_head q)) b (receive_unlock_code b))"
| "code_at q (Receive_unlock b) = Some (receive_unlock_code b)"
| "code_at q (Receive_post b) = Some (receive_post_code b)"

text \<open>The abstract progress of a phase.\<close>

fun progress_at :: "phase \<Rightarrow> progress" where
  "progress_at Out = Idle"
| "progress_at (Send_unlock m) = Sent m"
| "progress_at (Send_post m) = Sent m"
| "progress_at (Send_done status m) = (if status = OS_MESSAGE_QUEUE_OK then Sent m else Sending m)"
| "progress_at (Send_check m) = Sending m"
| "progress_at (Send_wait m) = Sending m"
| "progress_at (Send_lock m) = Sending m"
| "progress_at (Send_address m) = Sending m"
| "progress_at (Send_copy j m) = Sending m"
| "progress_at (Send_commit m) = Sending m"
| "progress_at (Receive_unlock m) = Got m"
| "progress_at (Receive_post m) = Got m"
| "progress_at (Receive_done status m) = (if status = OS_MESSAGE_QUEUE_OK then Got m else Receiving)"
| "progress_at _ = Receiving"

end
