(* ===== verification/Queue_Invariant.thy ===== *)
theory Queue_Invariant
  imports Queue_System
begin

text \<open>
  The invariant of the message queue under all interleavings: the queue holds the messages
  \<open>ms\<close>; every unit of the two semaphores is accounted for by a free slot, a message or a task
  between its wait and its post; the task in the critical section is the holder of the mutex.
  One lemma per kind of step shows that it is kept.
\<close>

section \<open>What a phase owns\<close>

fun in_critical :: "phase \<Rightarrow> bool" where
  "in_critical (Send_address m) = True"
| "in_critical (Send_copy j m) = True"
| "in_critical (Send_commit m) = True"
| "in_critical (Send_unlock m) = True"
| "in_critical (Receive_address b) = True"
| "in_critical (Receive_copy j b) = True"
| "in_critical (Receive_commit b) = True"
| "in_critical (Receive_unlock b) = True"
| "in_critical _ = False"

text \<open>Units taken from the spaces, or owed to the items, by a sender; symmetrically by a receiver.\<close>

fun claims_space :: "phase \<Rightarrow> bool" where
  "claims_space (Send_lock m) = True"
| "claims_space (Send_address m) = True"
| "claims_space (Send_copy j m) = True"
| "claims_space (Send_commit m) = True"
| "claims_space _ = False"

fun owes_item :: "phase \<Rightarrow> bool" where
  "owes_item (Send_unlock m) = True"
| "owes_item (Send_post m) = True"
| "owes_item _ = False"

fun claims_item :: "phase \<Rightarrow> bool" where
  "claims_item (Receive_lock b) = True"
| "claims_item (Receive_address b) = True"
| "claims_item (Receive_copy j b) = True"
| "claims_item (Receive_commit b) = True"
| "claims_item _ = False"

fun owes_space :: "phase \<Rightarrow> bool" where
  "owes_space (Receive_unlock b) = True"
| "owes_space (Receive_post b) = True"
| "owes_space _ = False"

fun phase_data :: "message_ring \<Rightarrow> phase \<Rightarrow> bool" where
  "phase_data q Out = True"
| "phase_data q (Send_copy j m) =
     (length m = width q \<and> j \<le> width q \<and> take j (slot q (unat (mq_tail q))) = take j m)"
| "phase_data q (Send_commit m) = (slot q (unat (mq_tail q)) = m)"
| "phase_data q (Receive_copy j b) =
     (length b = width q \<and> j \<le> width q \<and> take j b = take j (slot q (unat (mq_head q))))"
| "phase_data q (Receive_commit b) = (slot q (unat (mq_head q)) = b)"
| "phase_data q (Send_check m) = (length m = width q)"
| "phase_data q (Send_wait m) = (length m = width q)"
| "phase_data q (Send_lock m) = (length m = width q)"
| "phase_data q (Send_address m) = (length m = width q)"
| "phase_data q (Receive_check m) = (length m = width q)"
| "phase_data q (Receive_wait m) = (length m = width q)"
| "phase_data q (Receive_lock m) = (length m = width q)"
| "phase_data q (Receive_address m) = (length m = width q)"
| "phase_data q _ = True"

text \<open>Only the idle task, which every inner call refuses, can fail.\<close>

fun phase_task :: "nat \<Rightarrow> phase \<Rightarrow> bool" where
  "phase_task i (Send_done status m) =
     (status = (if i = 0 then OS_MESSAGE_QUEUE_ERROR_SYNC_OPERATION else OS_MESSAGE_QUEUE_OK))"
| "phase_task i (Receive_done status m) =
     (status = (if i = 0 then OS_MESSAGE_QUEUE_ERROR_SYNC_OPERATION else OS_MESSAGE_QUEUE_OK))"
| "phase_task i p = (i \<noteq> 0 \<or> \<not> claims_space p \<and> \<not> owes_space p \<and> \<not> claims_item p \<and> \<not> owes_item p)"

section \<open>The invariant\<close>

definition count :: "(phase \<Rightarrow> bool) \<Rightarrow> (nat \<Rightarrow> phase) \<Rightarrow> nat" where
  "count P ph = card {i. ph i \<noteq> Out \<and> P (ph i)}"

definition queue_inv :: "(nat \<Rightarrow> phase) \<Rightarrow> u8 list list \<Rightarrow> queue_system \<Rightarrow> bool" where
  "queue_inv ph ms x \<longleftrightarrow>
     ipc_wf (sys_ipc x) \<and> ring_holds (sys_ring x) ms \<and>
     mq_is_initialized (sys_ring x) = OS_MESSAGE_QUEUE_INITIALIZED \<and>
     finite {i. ph i \<noteq> Out} \<and>
     (\<forall>i. sys_code x i = code_at (sys_ring x) (ph i) \<and> phase_data (sys_ring x) (ph i) \<and> phase_task i (ph i) \<and>
        may_enter (sys_code x i) (ipc_activity (sys_ipc x) i) \<and>
        (in_critical (ph i) \<longleftrightarrow> mutex_holder (ipc_mutexes (sys_ipc x) access_mutex) = Some i)) \<and>
     semaphore_units (ipc_semaphores (sys_ipc x) available_spaces) + count claims_space ph + length ms +
       count owes_space ph = slots (sys_ring x) \<and>
     semaphore_units (ipc_semaphores (sys_ipc x) available_items) + count owes_item ph + count claims_item ph =
       length ms \<and>
     sem_maximum_count (ipc_semaphores (sys_ipc x) available_spaces) = mq_capacity (sys_ring x) \<and>
     sem_maximum_count (ipc_semaphores (sys_ipc x) available_items) = mq_capacity (sys_ring x)"

lemma count_split:
  assumes "finite {i. ph i \<noteq> Out}" "\<not> P Out"
  shows "count P ph = card {j. j \<noteq> i \<and> ph j \<noteq> Out \<and> P (ph j)} + (if P (ph i) then 1 else 0)"
proof -
  let ?S = "{j. j \<noteq> i \<and> ph j \<noteq> Out \<and> P (ph j)}"
  have "finite ?S" using assms(1) by (rule rev_finite_subset) auto
  moreover have "{j. ph j \<noteq> Out \<and> P (ph j)} = (if P (ph i) then insert i ?S else ?S)"
    using assms(2) by auto
  ultimately show ?thesis by (simp add: count_def)
qed

lemma count_update:
  assumes "finite {i. ph i \<noteq> Out}" "\<not> P Out"
  shows "count P (ph(i := p)) + (if P (ph i) then 1 else 0) = count P ph + (if P p then 1 else 0)"
proof -
  have "{j. (ph(i := p)) j \<noteq> Out} \<subseteq> insert i {j. ph j \<noteq> Out}" by auto
  from finite_subset [OF this] have "finite {j. (ph(i := p)) j \<noteq> Out}" using assms(1) by blast
  moreover have "{j. j \<noteq> i \<and> (ph(i := p)) j \<noteq> Out \<and> P ((ph(i := p)) j)} = {j. j \<noteq> i \<and> ph j \<noteq> Out \<and> P (ph j)}"
    by auto
  ultimately show ?thesis
    using count_split [of ph P i] count_split [of "ph(i := p)" P i] assms by simp
qed

lemma count_pos: "finite {i. ph i \<noteq> Out} \<Longrightarrow> \<not> P Out \<Longrightarrow> P (ph i) \<Longrightarrow> 0 < count P ph"
  using count_split [of ph P i] by simp

section \<open>Calls of the services\<close>

fun event_task :: "event \<Rightarrow> nat" where
  "event_task (Locked i m status) = i"
| "event_task (Unlocked i m status) = i"
| "event_task (Waited i s status) = i"
| "event_task (Posted i s status) = i"

lemma ipc_step_return:
  assumes "ipc_step k [e] k'" "ipc_wf k"
  shows "event_task e = current_index k" "thread_active k"
    "ipc_activity k' = (ipc_activity k)(event_task e := Outside)"
proof -
  have "event_task e = current_index k \<and> thread_active k \<and>
    ipc_activity k' = (ipc_activity k)(event_task e := Outside)"
    using assms
  proof (cases rule: ipc_step.cases)
    case (lock_pass i m outcome mutex k1)
    then show ?thesis by (cases outcome) auto
  next
    case (wait_pass i s outcome semaphore k1)
    then show ?thesis by (cases outcome) auto
  next
    case (unlock i m status mutex k1)
    then show ?thesis using ipc_unlock_ok [OF assms(2) unlock(3-6)] by (simp add: fun_upd_idem)
  next
    case (post i s status semaphore k1)
    then show ?thesis using ipc_post_ok [OF assms(2) post(3-6)] by (simp add: fun_upd_idem)
  qed (auto simp: fun_upd_idem)
  then show "event_task e = current_index k" "thread_active k"
    "ipc_activity k' = (ipc_activity k)(event_task e := Outside)" by blast+
qed

lemma returned_one: "([e] = returned f outcome) = (\<exists>status. outcome = Return status \<and> e = f status)"
  by (cases outcome) auto

text \<open>What a step does to the units of a semaphore and to the holder of a mutex.\<close>

lemma ipc_step_units:
  assumes "ipc_step k e k'" "ipc_wf k"
  shows "semaphore_units (ipc_semaphores k' s) + taken s e = semaphore_units (ipc_semaphores k s) + posted s e"
    "sem_maximum_count (ipc_semaphores k' s) = sem_maximum_count (ipc_semaphores k s)"
  using ipc_step_semaphore [OF assms, of s "[]"] by simp_all

lemma ipc_step_holder:
  assumes "ipc_step k e k'" "ipc_wf k"
  obtains es where "holder m es = mutex_holder (ipc_mutexes k m)" "lock_spec m es"
    "mutex_holder (ipc_mutexes k' m) = holder m (e @ es)" "lock_spec m (e @ es)"
proof (cases "mutex_holder (ipc_mutexes k m)")
  case None
  then show ?thesis using ipc_step_mutex [OF assms, of m "[]"] by (intro that [of "[]"]) simp_all
next
  case (Some i)
  then show ?thesis
    using ipc_step_mutex [OF assms, of m "[Locked i m OS_MUTEX_OK]"]
    by (intro that [of "[Locked i m OS_MUTEX_OK]"]) simp_all
qed

lemma silent_step:
  assumes "ipc_step k [] k'" "ipc_wf k"
  shows "semaphore_units (ipc_semaphores k' s) = semaphore_units (ipc_semaphores k s)"
    "mutex_holder (ipc_mutexes k' m) = mutex_holder (ipc_mutexes k m)"
proof -
  obtain es where "holder m es = mutex_holder (ipc_mutexes k m)" "mutex_holder (ipc_mutexes k' m) = holder m es"
    using ipc_step_holder [OF assms, of m] by auto
  then show "mutex_holder (ipc_mutexes k' m) = mutex_holder (ipc_mutexes k m)" by simp
qed (use ipc_step_units(1) [OF assms, of s] in simp)

lemma lock_call:
  assumes "ipc_step k [Locked i m status] k'" "ipc_wf k"
    "i \<noteq> 0" "mutex_holder (ipc_mutexes k m) \<noteq> Some i"
  shows "status = OS_MUTEX_OK" "mutex_holder (ipc_mutexes k m) = None" "mutex_holder (ipc_mutexes k' m) = Some i"
  using ipc_step_holder [OF assms(1,2), of m] assms(3,4) by auto

lemma unlock_call:
  assumes "ipc_step k [Unlocked i m status] k'" "ipc_wf k"
    "i \<noteq> 0" "mutex_holder (ipc_mutexes k m) = Some i"
  shows "status = OS_MUTEX_OK" "mutex_holder (ipc_mutexes k' m) = None"
  using ipc_step_holder [OF assms(1,2), of m] assms(3,4) by auto

lemma wait_call:
  assumes "ipc_step k [Waited i s status] k'" "ipc_wf k"
  shows "status = OS_SEMAPHORE_OK \<and> i \<noteq> 0 \<or> status \<noteq> OS_SEMAPHORE_OK \<and> i = 0"
  using assms(1)
proof (cases rule: ipc_step.cases)
  case (wait_refused)
  then show ?thesis using prologue_ok(2) [OF assms(2)] by (auto split: if_splits)
next
  case (wait_pass i' s' outcome semaphore k1)
  have "0 < i'" using inside_running [OF assms(2) wait_pass(3,4)] wait_pass(5) running_taskD(4) by auto
  then show ?thesis
    using wait_pass_ok(2) [OF assms(2) wait_pass(3-6)] wait_pass(1) by auto
qed (auto simp: returned_one)

lemma post_call:
  assumes "ipc_step k [Posted i s status] k'" "ipc_wf k" "i \<noteq> 0"
    "semaphore_units (ipc_semaphores k s) < unat (sem_maximum_count (ipc_semaphores k s))"
  shows "status = OS_SEMAPHORE_OK"
  using assms(1)
proof (cases rule: ipc_step.cases)
  case (post semaphore k1)
  have "unat (sem_count (ipc_semaphores k s)) < unat (sem_maximum_count (ipc_semaphores k s))"
    using assms(4) by (simp add: semaphore_units_def)
  then show ?thesis using ipc_post_ok [OF assms(2) post(2-5)] assms(3) by auto
qed (auto simp: returned_one)

section \<open>Preservation\<close>

lemma critical_code: "\<not> in_critical p \<Longrightarrow> code_at q p = code_at q' p"
  by (cases p) simp_all

lemma critical_data: "\<not> in_critical p \<Longrightarrow> width q = width q' \<Longrightarrow> phase_data q p = phase_data q' p"
  by (cases p) simp_all

definition weight :: "(phase \<Rightarrow> bool) \<Rightarrow> phase \<Rightarrow> nat" where
  "weight P p = (if P p then 1 else 0)"

text \<open>
  Task \<open>i\<close> moves to phase \<open>p\<close> while the objects and the queue change as given: the accounts of
  the units must balance, and what other tasks rely on must stay.
\<close>

lemma queue_inv_move:
  assumes inv: "queue_inv ph ms x"
    and wf: "ipc_wf (sys_ipc x')" and ring: "ring_holds (sys_ring x') ms'"
    and const: "mq_is_initialized (sys_ring x') = mq_is_initialized (sys_ring x)"
      "mq_capacity (sys_ring x') = mq_capacity (sys_ring x)"
    and code: "sys_code x' = (sys_code x)(i := code_at (sys_ring x') p)"
    and others: "\<And>j. j \<noteq> i \<Longrightarrow> code_at (sys_ring x') (ph j) = code_at (sys_ring x) (ph j)"
      "\<And>j. j \<noteq> i \<Longrightarrow> phase_data (sys_ring x') (ph j) = phase_data (sys_ring x) (ph j)"
    and own: "phase_data (sys_ring x') p" "phase_task i p"
    and enter: "\<And>j. may_enter (sys_code x' j) (ipc_activity (sys_ipc x') j)"
    and mutex: "in_critical p \<longleftrightarrow> mutex_holder (ipc_mutexes (sys_ipc x') 0) = Some i"
      "\<And>j. j \<noteq> i \<Longrightarrow> mutex_holder (ipc_mutexes (sys_ipc x') 0) = Some j \<longleftrightarrow>
        mutex_holder (ipc_mutexes (sys_ipc x) 0) = Some j"
    and spaces: "semaphore_units (ipc_semaphores (sys_ipc x') 1) + weight claims_space p + length ms' + weight owes_space p =
      semaphore_units (ipc_semaphores (sys_ipc x) 1) + weight claims_space (ph i) + length ms + weight owes_space (ph i)"
    and items: "semaphore_units (ipc_semaphores (sys_ipc x') 0) + weight owes_item p + weight claims_item p + length ms =
      semaphore_units (ipc_semaphores (sys_ipc x) 0) + weight owes_item (ph i) + weight claims_item (ph i) + length ms'"
    and maxima: "\<And>s. sem_maximum_count (ipc_semaphores (sys_ipc x') s) = sem_maximum_count (ipc_semaphores (sys_ipc x) s)"
  shows "queue_inv (ph(i := p)) ms' x'"
proof -
  have fin: "finite {j. ph j \<noteq> Out}" using inv by (simp add: queue_inv_def)
  have "{j. (ph(i := p)) j \<noteq> Out} \<subseteq> insert i {j. ph j \<noteq> Out}" by auto
  from finite_subset [OF this] have fin': "finite {j. (ph(i := p)) j \<noteq> Out}" using fin by blast
  have counts: "count P (ph(i := p)) + weight P (ph i) = count P ph + weight P p" if "\<not> P Out" for P
    using count_update [where ph = ph and P = P and i = i and p = p] fin that by (simp add: weight_def)
  have "sys_code x' j = code_at (sys_ring x') ((ph(i := p)) j) \<and> phase_data (sys_ring x') ((ph(i := p)) j) \<and>
      phase_task j ((ph(i := p)) j) \<and> may_enter (sys_code x' j) (ipc_activity (sys_ipc x') j) \<and>
      (in_critical ((ph(i := p)) j) \<longleftrightarrow> mutex_holder (ipc_mutexes (sys_ipc x') 0) = Some j)" for j
  proof (cases "j = i")
    case True
    then show ?thesis using code own enter [of j] mutex(1) by simp
  next
    case False
    then show ?thesis
      using inv code others [OF False] enter [of j] mutex(2) [OF False] by (simp add: queue_inv_def)
  qed
  moreover have "semaphore_units (ipc_semaphores (sys_ipc x') 1) + count claims_space (ph(i := p)) + length ms' +
      count owes_space (ph(i := p)) = slots (sys_ring x')"
    using inv counts [of claims_space] counts [of owes_space] spaces const by (simp add: queue_inv_def)
  moreover have "semaphore_units (ipc_semaphores (sys_ipc x') 0) + count owes_item (ph(i := p)) +
      count claims_item (ph(i := p)) = length ms'"
    using inv counts [of owes_item] counts [of claims_item] items by (simp add: queue_inv_def)
  moreover have "mq_is_initialized (sys_ring x') = 1"
    "sem_maximum_count (ipc_semaphores (sys_ipc x') 1) = mq_capacity (sys_ring x')"
    "sem_maximum_count (ipc_semaphores (sys_ipc x') 0) = mq_capacity (sys_ring x')"
    using inv const maxima by (simp_all add: queue_inv_def)
  ultimately show ?thesis unfolding queue_inv_def using wf ring fin' by blast
qed

end
