(* ===== verification/Queue_Steps.thy ===== *)
theory Queue_Steps
  imports Queue_Invariant
begin

text \<open>
  Every step of the queue system keeps the invariant and is a step of the abstract queue (or
  changes nothing there). One lemma per kind of step, then \<open>queue_step_refines\<close>.
\<close>

section \<open>Consequences of the invariant\<close>

lemma queue_invD:
  assumes "queue_inv ph ms x"
  shows "ipc_wf (sys_ipc x)" "ring_holds (sys_ring x) ms" "mq_is_initialized (sys_ring x) = 1"
    "finite {i. ph i \<noteq> Out}" "sys_code x i = code_at (sys_ring x) (ph i)" "phase_data (sys_ring x) (ph i)"
    "phase_task i (ph i)" "may_enter (sys_code x i) (ipc_activity (sys_ipc x) i)"
    "in_critical (ph i) \<longleftrightarrow> mutex_holder (ipc_mutexes (sys_ipc x) 0) = Some i"
    "sem_maximum_count (ipc_semaphores (sys_ipc x) 1) = mq_capacity (sys_ring x)"
    "sem_maximum_count (ipc_semaphores (sys_ipc x) 0) = mq_capacity (sys_ring x)"
  using assms unfolding queue_inv_def by blast+

text \<open>The accounts: a claimed space means a free slot, a claimed item means a message.\<close>

lemma claimed:
  assumes "queue_inv ph ms x"
  shows "claims_space (ph i) \<Longrightarrow> length ms < slots (sys_ring x)"
    "claims_item (ph i) \<Longrightarrow> ms \<noteq> []"
    "owes_item (ph i) \<Longrightarrow> semaphore_units (ipc_semaphores (sys_ipc x) 0) < slots (sys_ring x)"
    "owes_space (ph i) \<Longrightarrow> semaphore_units (ipc_semaphores (sys_ipc x) 1) < slots (sys_ring x)"
  using assms count_pos [OF queue_invD(4) [OF assms], of claims_space i]
    count_pos [OF queue_invD(4) [OF assms], of claims_item i]
    count_pos [OF queue_invD(4) [OF assms], of owes_item i]
    count_pos [OF queue_invD(4) [OF assms], of owes_space i]
  by (auto simp: queue_inv_def)

lemma one_critical:
  "queue_inv ph ms x \<Longrightarrow> in_critical (ph i) \<Longrightarrow> j \<noteq> i \<Longrightarrow> \<not> in_critical (ph j)"
  using queue_invD(9) [of ph ms x i] queue_invD(9) [of ph ms x j] by auto

section \<open>Steps inside one task\<close>

text \<open>Only the task's own code moves.\<close>

lemma queue_inv_local:
  assumes inv: "queue_inv ph ms x" and "at_queue x i"
    and "phase_data (sys_ring x) p" "phase_task i p" "in_critical p = in_critical (ph i)"
    and "weight claims_space p = weight claims_space (ph i)" "weight owes_space p = weight owes_space (ph i)"
      "weight claims_item p = weight claims_item (ph i)" "weight owes_item p = weight owes_item (ph i)"
  shows "queue_inv (ph(i := p)) ms (x\<lparr>sys_code := (sys_code x)(i := code_at (sys_ring x) p)\<rparr>)"
proof (rule queue_inv_move [OF inv])
  fix j
  show "may_enter (sys_code (x\<lparr>sys_code := (sys_code x)(i := code_at (sys_ring x) p)\<rparr>) j)
      (ipc_activity (sys_ipc (x\<lparr>sys_code := (sys_code x)(i := code_at (sys_ring x) p)\<rparr>)) j)"
    using queue_invD(8) [OF inv, of j] assms(2) by (cases "j = i") (auto simp: at_queue_def)
qed (use assms queue_invD [OF inv] in simp_all)

text \<open>The task in the critical section changes the ring.\<close>

lemma queue_inv_ring:
  assumes inv: "queue_inv ph ms x" and "at_queue x i"
    and "in_critical (ph i)" "in_critical p" and ring: "ring_holds r ms'"
    and "mq_is_initialized r = mq_is_initialized (sys_ring x)" "mq_capacity r = mq_capacity (sys_ring x)"
      "mq_message_size r = mq_message_size (sys_ring x)"
    and "phase_data r p" "phase_task i p"
    and "weight claims_space p + length ms' + weight owes_space p =
      weight claims_space (ph i) + length ms + weight owes_space (ph i)"
    and "weight owes_item p + weight claims_item p + length ms =
      weight owes_item (ph i) + weight claims_item (ph i) + length ms'"
  shows "queue_inv (ph(i := p)) ms' (x\<lparr>sys_ring := r, sys_code := (sys_code x)(i := code_at r p)\<rparr>)"
    (is "queue_inv _ _ ?x")
proof (rule queue_inv_move [OF inv])
  fix j
  show "may_enter (sys_code ?x j) (ipc_activity (sys_ipc ?x) j)"
    using queue_invD(8) [OF inv, of j] assms(2) by (cases "j = i") (auto simp: at_queue_def)
  assume "j \<noteq> i"
  then have out: "\<not> in_critical (ph j)" by (rule one_critical [OF inv assms(3)])
  show "code_at (sys_ring ?x) (ph j) = code_at (sys_ring x) (ph j)" by (rule critical_code [OF out])
  show "phase_data (sys_ring ?x) (ph j) = phase_data (sys_ring x) (ph j)"
    by (rule critical_data [OF out]) (simp add: assms(8))
qed (use assms queue_invD [OF inv] in simp_all)

section \<open>Steps of the kernel and of other calls\<close>

lemma queue_inv_outside:
  assumes inv: "queue_inv ph ms x" and wf: "ipc_wf k"
    and "\<And>s. s = 0 \<or> s = 1 \<Longrightarrow> semaphore_units (ipc_semaphores k s) = semaphore_units (ipc_semaphores (sys_ipc x) s)"
    and "\<And>s. sem_maximum_count (ipc_semaphores k s) = sem_maximum_count (ipc_semaphores (sys_ipc x) s)"
    and "mutex_holder (ipc_mutexes k 0) = mutex_holder (ipc_mutexes (sys_ipc x) 0)"
    and "\<And>i. may_enter (sys_code x i) (ipc_activity k i)"
  shows "queue_inv ph ms (x\<lparr>sys_ipc := k\<rparr>)"
  using assms(1,2,4-6) assms(3) [of 0] assms(3) [of 1] unfolding queue_inv_def by simp

lemma other_call_units:
  assumes "ipc_step k [e] k'" "ipc_wf k" "foreign e cs"
  shows "s = 0 \<or> s = 1 \<Longrightarrow> semaphore_units (ipc_semaphores k' s) = semaphore_units (ipc_semaphores k s)"
    "mutex_holder (ipc_mutexes k' 0) = mutex_holder (ipc_mutexes k 0)"
proof -
  show "semaphore_units (ipc_semaphores k' s) = semaphore_units (ipc_semaphores k s)" if "s = 0 \<or> s = 1"
    using ipc_step_units(1) [OF assms(1,2), of s] assms(3) that by (cases e) auto
  obtain es where "holder 0 es = mutex_holder (ipc_mutexes k 0)"
      "mutex_holder (ipc_mutexes k' 0) = holder 0 (e # es)"
    using ipc_step_holder [OF assms(1,2), of 0] by auto
  then show "mutex_holder (ipc_mutexes k' 0) = mutex_holder (ipc_mutexes k 0)"
    using assms(3) by (cases e) auto
qed

section \<open>Inner calls\<close>

text \<open>A call of the queue's own objects returns with \<open>status\<close>, and the task moves to phase \<open>p\<close>.\<close>

lemma queue_inv_call:
  assumes inv: "queue_inv ph ms x" and step: "ipc_step (sys_ipc x) [call_event c i status] k"
    and own: "phase_data (sys_ring x) p" "phase_task i p"
    and mutex: "in_critical p \<longleftrightarrow> mutex_holder (ipc_mutexes k 0) = Some i"
      "\<And>j. j \<noteq> i \<Longrightarrow> mutex_holder (ipc_mutexes k 0) = Some j \<longleftrightarrow>
        mutex_holder (ipc_mutexes (sys_ipc x) 0) = Some j"
    and spaces: "semaphore_units (ipc_semaphores k 1) + weight claims_space p + weight owes_space p =
      semaphore_units (ipc_semaphores (sys_ipc x) 1) + weight claims_space (ph i) + weight owes_space (ph i)"
    and items: "semaphore_units (ipc_semaphores k 0) + weight owes_item p + weight claims_item p =
      semaphore_units (ipc_semaphores (sys_ipc x) 0) + weight owes_item (ph i) + weight claims_item (ph i)"
  shows "queue_inv (ph(i := p)) ms (x\<lparr>sys_ipc := k, sys_code := (sys_code x)(i := code_at (sys_ring x) p)\<rparr>)"
    (is "queue_inv _ _ ?x")
proof (rule queue_inv_move [OF inv])
  have task: "event_task (call_event c i status) = i" by (cases c) simp_all
  show "ipc_wf (sys_ipc ?x)" using ipc_step_wf [OF step queue_invD(1) [OF inv]] by simp
  show "may_enter (sys_code ?x j) (ipc_activity (sys_ipc ?x) j)" for j
    using ipc_step_return(3) [OF step queue_invD(1) [OF inv]] queue_invD(8) [OF inv, of j] task by simp
  show "sem_maximum_count (ipc_semaphores (sys_ipc ?x) s) = sem_maximum_count (ipc_semaphores (sys_ipc x) s)" for s
    using ipc_step_units(2) [OF step queue_invD(1) [OF inv]] by simp
qed (use assms queue_invD [OF inv] in simp_all)

section \<open>Where the code goes\<close>

text \<open>The phases with the same claims, the same part of the mutex and the same abstract progress.\<close>

definition similar :: "phase \<Rightarrow> phase \<Rightarrow> bool" where
  "similar p p' \<longleftrightarrow> in_critical p' = in_critical p \<and> claims_space p' = claims_space p \<and>
     owes_space p' = owes_space p \<and> claims_item p' = claims_item p \<and> owes_item p' = owes_item p \<and>
     progress_at p' = progress_at p \<and> (\<forall>i. phase_task i p \<longrightarrow> phase_task i p')"

lemma copy_in_upt:
  "message_queue_copy_in [j..<w] d m c =
     (if j < w then Store (d + j) (m ! j) (message_queue_copy_in [Suc j..<w] d m c) else c)"
  by (simp add: upt_conv_Cons)

lemma copy_out_upt:
  "message_queue_copy_out [j..<w] d m c =
     (if j < w then Get (\<lambda>q. message_queue_copy_out [Suc j..<w] d (m[j := mq_storage q ! (d + j)]) c) else c m)"
  by (simp add: upt_conv_Cons)

lemmas code_defs = send_code receive_code send_wait_code_def send_lock_code_def send_address_code_def
  send_next_code_def send_unlock_code_def send_post_code_def receive_wait_code_def receive_lock_code_def
  receive_address_code_def receive_next_code_def receive_unlock_code_def receive_post_code_def
  copy_in_upt copy_out_upt

text \<open>A read of the queue.\<close>

lemma fetch_phase:
  assumes "code_at q p = Some (Get f)" "ring_holds q ms" "mq_is_initialized q = 1" "phase_data q p"
  shows "\<exists>p'. code_at q p' = Some (f q) \<and> phase_data q p' \<and> similar p p'"
proof -
  note r = ring_holdsD [OF assms(2)]
  have address: "message_queue_slot_address q (mq_tail q) = unat (mq_tail q) * width q"
    "message_queue_slot_address q (mq_head q) = unat (mq_head q) * width q"
    using slot_address_eq [OF r(1)] r(1) by (simp_all add: ring_shape_def)
  show ?thesis
  proof (cases p)
    case (Send_check m)
    then show ?thesis
      using assms by (intro exI [of _ "Send_wait m"]) (auto simp: send_code similar_def)
  next
    case (Send_address m)
    then show ?thesis
      using assms address by (intro exI [of _ "Send_copy 0 m"]) (auto simp: send_address_code_def similar_def)
  next
    case (Send_copy j m)
    then have full: "j = width q" using assms(1,4) by (auto simp: copy_in_upt split: if_splits)
    then have "slot q (unat (mq_tail q)) = m"
      using Send_copy assms(4) slot_length [OF r(1,5)] by simp
    then show ?thesis
      using assms Send_copy full
      by (intro exI [of _ "Send_commit m"]) (auto simp: send_next_code_def similar_def)
  next
    case (Receive_check b)
    then show ?thesis
      using assms by (intro exI [of _ "Receive_wait b"]) (auto simp: receive_code similar_def)
  next
    case (Receive_address b)
    then show ?thesis
      using assms address by (intro exI [of _ "Receive_copy 0 b"]) (auto simp: receive_address_code_def similar_def)
  next
    case (Receive_copy j b)
    let ?s = "slot q (unat (mq_head q))"
    have len: "length ?s = width q" using slot_length [OF r(1,4)] .
    show ?thesis
    proof (cases "j < width q")
      case True
      let ?b = "b[j := mq_storage q ! (unat (mq_head q) * width q + j)]"
      have "take (Suc j) ?b = take (Suc j) ?s"
        using Receive_copy assms(4) True len slot_nth [OF r(1,4) True]
        by (simp add: take_Suc_conv_app_nth)
      then show ?thesis
        using assms Receive_copy True
        by (intro exI [of _ "Receive_copy (Suc j) ?b"]) (auto simp: copy_out_upt similar_def)
    next
      case False
      then have "j = width q" using assms(4) Receive_copy by simp
      then show ?thesis
        using assms Receive_copy len
        by (intro exI [of _ "Receive_commit b"]) (auto simp: receive_next_code_def similar_def)
    qed
  qed (use assms(1) in \<open>simp_all add: code_defs\<close>)
qed

lemma Store_phase:
  assumes "code_at q p = Some (Store a b c)"
  shows "\<exists>j m. p = Send_copy j m \<and> j < width q \<and> a = unat (mq_tail q) * width q + j \<and> b = m ! j \<and>
    c = message_queue_copy_in [Suc j..<width q] (unat (mq_tail q) * width q) m (send_next_code m)"
  using assms
proof (cases p)
  case (Send_copy j m)
  then show ?thesis using assms by (auto simp: copy_in_upt [of j] send_next_code_def split: if_splits)
qed (simp_all add: code_defs split: if_splits)

lemma Set_tail_phase:
  assumes "code_at q p = Some (Set_tail index m c)"
  shows "p = Send_commit m \<and> index = advance (mq_capacity q) (mq_tail q) \<and> c = send_unlock_code m"
  using assms by (cases p) (simp_all add: code_defs split: if_splits)

lemma Set_head_phase:
  assumes "code_at q p = Some (Set_head index m c)"
  shows "p = Receive_commit m \<and> index = advance (mq_capacity q) (mq_head q) \<and> c = receive_unlock_code m"
  using assms by (cases p) (simp_all add: code_defs split: if_splits)

lemma Done_phase:
  assumes "code_at q p = Some (Done status m)"
  shows "p = Send_done status m \<or> p = Receive_done status m"
  using assms by (cases p) (simp_all add: code_defs split: if_splits)

lemma None_phase: "code_at q p = None \<Longrightarrow> p = Out"
  by (cases p) simp_all

section \<open>One step\<close>

abbreviation abstract :: "(nat \<Rightarrow> phase) \<Rightarrow> u8 list list \<Rightarrow> u8 list list \<times> (nat \<Rightarrow> progress)" where
  "abstract ph ms \<equiv> (ms, \<lambda>i. progress_at (ph i))"

definition refines_to :: "(nat \<Rightarrow> phase) \<Rightarrow> u8 list list \<Rightarrow> queue_event list \<Rightarrow> queue_system \<Rightarrow> bool" where
  "refines_to ph ms e x' \<longleftrightarrow> (\<exists>ph' ms'. queue_inv ph' ms' x' \<and>
     spec_run (slots (sys_ring x')) e (abstract ph ms) = Some (abstract ph' ms'))"

lemma refines_silent:
  "queue_inv (ph(i := p)) ms x' \<Longrightarrow> progress_at p = progress_at (ph i) \<Longrightarrow> refines_to ph ms [] x'"
  unfolding refines_to_def by (intro exI [of _ "ph(i := p)"] exI [of _ ms]) (auto simp: fun_eq_iff)

lemma refines_event:
  "queue_inv (ph(i := p)) ms' x' \<Longrightarrow>
    spec_step (slots (sys_ring x')) e (abstract ph ms) = Some (ms', (\<lambda>j. progress_at (ph j))(i := progress_at p)) \<Longrightarrow>
    refines_to ph ms [e] x'"
  unfolding refines_to_def by (intro exI [of _ "ph(i := p)"] exI [of _ ms']) (auto simp: fun_eq_iff)

text \<open>A read.\<close>

lemma fetch_refines:
  assumes inv: "queue_inv ph ms x" and "at_queue x i" "sys_code x i = Some (Get f)"
  shows "refines_to ph ms [] (x\<lparr>sys_code := (sys_code x)(i := Some (f (sys_ring x)))\<rparr>)"
proof -
  note d = queue_invD [OF inv]
  have "code_at (sys_ring x) (ph i) = Some (Get f)" using d(5) [of i] assms(3) by simp
  from fetch_phase [OF this d(2,3,6)] obtain p where
    p: "code_at (sys_ring x) p = Some (f (sys_ring x))" "phase_data (sys_ring x) p" "similar (ph i) p" by blast
  then have "queue_inv (ph(i := p)) ms (x\<lparr>sys_code := (sys_code x)(i := code_at (sys_ring x) p)\<rparr>)"
    using d(7) [of i] by (intro queue_inv_local [OF inv assms(2)]) (simp_all add: similar_def weight_def)
  from refines_silent [OF this] show ?thesis using p by (simp add: similar_def)
qed

text \<open>A byte written into the free slot.\<close>

lemma store_refines:
  assumes inv: "queue_inv ph ms x" and "at_queue x i" "sys_code x i = Some (Store a b c)"
  shows "refines_to ph ms [] (x\<lparr>sys_ring := (sys_ring x)\<lparr>mq_storage := (mq_storage (sys_ring x))[a := b]\<rparr>,
    sys_code := (sys_code x)(i := Some c)\<rparr>)"
proof -
  note d = queue_invD [OF inv]
  let ?q = "sys_ring x" and ?r = "(sys_ring x)\<lparr>mq_storage := (mq_storage (sys_ring x))[a := b]\<rparr>"
  note r = ring_holdsD [OF d(2)]
  have "code_at ?q (ph i) = Some (Store a b c)" using d(5) [of i] assms(3) by simp
  from Store_phase [OF this] obtain j m where
    p: "ph i = Send_copy j m" "j < width ?q" "a = unat (mq_tail ?q) * width ?q + j" "b = m ! j"
    and c: "c = message_queue_copy_in [Suc j..<width ?q] (unat (mq_tail ?q) * width ?q) m (send_next_code m)"
    by blast
  have room: "length ms < slots ?q" using claimed(1) [OF inv, of i] p(1) by simp
  have before: "length m = width ?q" "take j (slot ?q (unat (mq_tail ?q))) = take j m"
    using d(6) [of i] p(1) by simp_all
  have "slot ?r (unat (mq_tail ?q)) = (slot ?q (unat (mq_tail ?q)))[j := m ! j]"
    using slot_store [OF r(1,5,5) p(2), of b] p(3,4) by simp
  then have "take (Suc j) (slot ?r (unat (mq_tail ?q))) = take (Suc j) m"
    using before p(2) slot_length [OF r(1,5)] by (simp add: take_Suc_conv_app_nth)
  then have data: "phase_data ?r (Send_copy (Suc j) m)" using before p(2) by simp
  have "queue_inv (ph(i := Send_copy (Suc j) m)) ms
      (x\<lparr>sys_ring := ?r, sys_code := (sys_code x)(i := code_at ?r (Send_copy (Suc j) m))\<rparr>)"
    by (rule queue_inv_ring [OF inv assms(2)])
      (use p d(7) [of i] data ring_holds_store [OF d(2) room p(2), of b] in \<open>simp_all add: weight_def\<close>)
  from refines_silent [OF this] show ?thesis using p(1) c by simp
qed

text \<open>The indices move: a message enters or leaves the queue.\<close>

lemma enqueue_refines:
  assumes inv: "queue_inv ph ms x" and "at_queue x i" "sys_code x i = Some (Set_tail index m c)"
  shows "refines_to ph ms [Enqueued i m] (x\<lparr>sys_ring := (sys_ring x)\<lparr>mq_tail := index\<rparr>,
    sys_code := (sys_code x)(i := Some c)\<rparr>)"
proof -
  note d = queue_invD [OF inv]
  let ?q = "sys_ring x"
  have "code_at ?q (ph i) = Some (Set_tail index m c)" using d(5) [of i] assms(3) by simp
  note p = Set_tail_phase [OF this]
  have room: "length ms < slots ?q" using claimed(1) [OF inv, of i] p by simp
  have "slot ?q (unat (mq_tail ?q)) = m" using d(6) [of i] p by simp
  then have ring: "ring_holds (?q\<lparr>mq_tail := index\<rparr>) (ms @ [m])" using ring_holds_put [OF d(2) room] p by simp
  have "queue_inv (ph(i := Send_unlock m)) (ms @ [m])
      (x\<lparr>sys_ring := ?q\<lparr>mq_tail := index\<rparr>, sys_code := (sys_code x)(i := code_at (?q\<lparr>mq_tail := index\<rparr>) (Send_unlock m))\<rparr>)"
    by (rule queue_inv_ring [OF inv assms(2) _ _ ring]) (use p d(7) [of i] in \<open>simp_all add: weight_def\<close>)
  from refines_event [OF this, of "Enqueued i m"] show ?thesis using p room by simp
qed

lemma dequeue_refines:
  assumes inv: "queue_inv ph ms x" and "at_queue x i" "sys_code x i = Some (Set_head index m c)"
  shows "refines_to ph ms [Dequeued i m] (x\<lparr>sys_ring := (sys_ring x)\<lparr>mq_head := index\<rparr>,
    sys_code := (sys_code x)(i := Some c)\<rparr>)"
proof -
  note d = queue_invD [OF inv]
  let ?q = "sys_ring x"
  have "code_at ?q (ph i) = Some (Set_head index m c)" using d(5) [of i] assms(3) by simp
  note p = Set_head_phase [OF this]
  obtain m' ms' where ms: "ms = m' # ms'" using claimed(2) [OF inv, of i] p by (cases ms) simp_all
  have m: "m' = m" using ring_holds_get(1) [OF d(2) [unfolded ms]] d(6) [of i] p by simp
  have ring: "ring_holds (?q\<lparr>mq_head := index\<rparr>) ms'" using ring_holds_get(2) [OF d(2) [unfolded ms]] p by simp
  have "queue_inv (ph(i := Receive_unlock m)) ms'
      (x\<lparr>sys_ring := ?q\<lparr>mq_head := index\<rparr>, sys_code := (sys_code x)(i := code_at (?q\<lparr>mq_head := index\<rparr>) (Receive_unlock m))\<rparr>)"
    by (rule queue_inv_ring [OF inv assms(2) _ _ ring]) (use p d(7) [of i] ms in \<open>simp_all add: weight_def\<close>)
  from refines_event [OF this, of "Dequeued i m"] show ?thesis using p ms m by simp
qed

section \<open>Inner calls\<close>

lemma Call_phase:
  assumes "code_at q p = Some (Call c f)"
  shows "(\<exists>m. p = Send_wait m) \<or> (\<exists>m. p = Send_lock m) \<or> (\<exists>m. p = Send_unlock m) \<or> (\<exists>m. p = Send_post m) \<or>
    (\<exists>m. p = Receive_wait m) \<or> (\<exists>m. p = Receive_lock m) \<or> (\<exists>m. p = Receive_unlock m) \<or> (\<exists>m. p = Receive_post m)"
  using assms by (cases p) (simp_all add: code_defs split: if_splits)

lemma semaphore_call_holder:
  assumes "ipc_step k [e] k'" "ipc_wf k" "(\<exists>i s status. e = Waited i s status) \<or> (\<exists>i s status. e = Posted i s status)"
  shows "mutex_holder (ipc_mutexes k' m) = mutex_holder (ipc_mutexes k m)"
proof -
  obtain es where "holder m es = mutex_holder (ipc_mutexes k m)" "mutex_holder (ipc_mutexes k' m) = holder m (e # es)"
    using ipc_step_holder [OF assms(1,2), of m] by auto
  then show ?thesis using assms(3) by auto
qed

text \<open>The semaphore calls.\<close>

lemma wait_refines:
  assumes inv: "queue_inv ph ms x" and "ipc_step (sys_ipc x) [Waited i s status] k"
    and "(\<exists>m. ph i = Send_wait m \<and> s = 1 \<and> p = (if status = 0 then Send_lock m else Send_done (- 4) m)) \<or>
      (\<exists>m. ph i = Receive_wait m \<and> s = 0 \<and> p = (if status = 0 then Receive_lock m else Receive_done (- 4) m))"
  shows "refines_to ph ms [] (x\<lparr>sys_ipc := k, sys_code := (sys_code x)(i := code_at (sys_ring x) p)\<rparr>)"
proof -
  note d = queue_invD [OF inv]
  note st = wait_call [OF assms(2) d(1)]
  note hold = semaphore_call_holder [OF assms(2) d(1), of 0]
  have "queue_inv (ph(i := p)) ms (x\<lparr>sys_ipc := k, sys_code := (sys_code x)(i := code_at (sys_ring x) p)\<rparr>)"
    by (rule queue_inv_call [OF inv, of "Semaphore_wait s" i status])
      (use assms(2,3) d(6,9) [of i] st hold ipc_step_units(1) [OF assms(2) d(1), of 0]
        ipc_step_units(1) [OF assms(2) d(1), of 1] in \<open>auto simp: weight_def split: if_splits\<close>)
  then show ?thesis by (rule refines_silent) (use assms(3) in auto)
qed

lemma post_refines:
  assumes inv: "queue_inv ph ms x" and "ipc_step (sys_ipc x) [Posted i s status] k"
    and "(\<exists>m. ph i = Send_post m \<and> s = 0 \<and> p = Send_done status m) \<or>
      (\<exists>m. ph i = Receive_post m \<and> s = 1 \<and> p = Receive_done status m)"
  shows "status = OS_SEMAPHORE_OK \<and>
    refines_to ph ms [] (x\<lparr>sys_ipc := k, sys_code := (sys_code x)(i := code_at (sys_ring x) p)\<rparr>)"
proof -
  note d = queue_invD [OF inv]
  have i: "i \<noteq> 0" using assms(3) d(7) [of i] by auto
  then have st: "status = 0"
    using post_call [OF assms(2) d(1)] claimed(3,4) [OF inv, of i] d(10,11) assms(3) by auto
  note hold = semaphore_call_holder [OF assms(2) d(1), of 0]
  have "queue_inv (ph(i := p)) ms (x\<lparr>sys_ipc := k, sys_code := (sys_code x)(i := code_at (sys_ring x) p)\<rparr>)"
    by (rule queue_inv_call [OF inv, of "Semaphore_post s" i status])
      (use i assms(2,3) d(9) [of i] st hold ipc_step_units(1) [OF assms(2) d(1), of 0]
        ipc_step_units(1) [OF assms(2) d(1), of 1] in \<open>auto simp: weight_def\<close>)
  then show ?thesis using refines_silent [of ph i p ms] assms(3) st by auto
qed

text \<open>The mutex calls.\<close>

lemma lock_refines:
  assumes inv: "queue_inv ph ms x" and "ipc_step (sys_ipc x) [Locked i 0 status] k"
    and "(\<exists>m. ph i = Send_lock m \<and> p = Send_address m) \<or> (\<exists>m. ph i = Receive_lock m \<and> p = Receive_address m)"
  shows "status = OS_MUTEX_OK \<and>
    refines_to ph ms [] (x\<lparr>sys_ipc := k, sys_code := (sys_code x)(i := code_at (sys_ring x) p)\<rparr>)"
proof -
  note d = queue_invD [OF inv]
  have i: "i \<noteq> 0" "mutex_holder (ipc_mutexes (sys_ipc x) 0) \<noteq> Some i"
    using assms(3) d(7,9) [of i] by auto
  note st = lock_call [OF assms(2) d(1) i]
  have "queue_inv (ph(i := p)) ms (x\<lparr>sys_ipc := k, sys_code := (sys_code x)(i := code_at (sys_ring x) p)\<rparr>)"
    by (rule queue_inv_call [OF inv, of "Mutex_lock 0" i status])
      (use assms(2,3) d(6,7) [of i] st ipc_step_units(1) [OF assms(2) d(1), of 0]
        ipc_step_units(1) [OF assms(2) d(1), of 1] in \<open>auto simp: weight_def\<close>)
  then show ?thesis using refines_silent [of ph i p ms] assms(3) st(1) by auto
qed

lemma unlock_refines:
  assumes inv: "queue_inv ph ms x" and "ipc_step (sys_ipc x) [Unlocked i 0 status] k"
    and "(\<exists>m. ph i = Send_unlock m \<and> p = Send_post m) \<or> (\<exists>m. ph i = Receive_unlock m \<and> p = Receive_post m)"
  shows "status = OS_MUTEX_OK \<and>
    refines_to ph ms [] (x\<lparr>sys_ipc := k, sys_code := (sys_code x)(i := code_at (sys_ring x) p)\<rparr>)"
proof -
  note d = queue_invD [OF inv]
  have i: "i \<noteq> 0" "mutex_holder (ipc_mutexes (sys_ipc x) 0) = Some i"
    using assms(3) d(7,9) [of i] by auto
  note st = unlock_call [OF assms(2) d(1) i]
  have "queue_inv (ph(i := p)) ms (x\<lparr>sys_ipc := k, sys_code := (sys_code x)(i := code_at (sys_ring x) p)\<rparr>)"
    by (rule queue_inv_call [OF inv, of "Mutex_unlock 0" i status])
      (use assms(2,3) d(6,7) [of i] st i(2) ipc_step_units(1) [OF assms(2) d(1), of 0]
        ipc_step_units(1) [OF assms(2) d(1), of 1] in \<open>auto simp: weight_def\<close>)
  then show ?thesis using refines_silent [of ph i p ms] assms(3) st(1) by auto
qed

lemma call_refines:
  assumes inv: "queue_inv ph ms x" and step: "ipc_step (sys_ipc x) [call_event c i status] k"
    and code: "sys_code x i = Some (Call c f)"
  shows "refines_to ph ms [] (x\<lparr>sys_ipc := k, sys_code := (sys_code x)(i := Some (f status))\<rparr>)"
proof -
  have here: "code_at (sys_ring x) (ph i) = Some (Call c f)" using queue_invD(5) [OF inv, of i] code by simp
  from Call_phase [OF here] consider m where "ph i = Send_wait m" | m where "ph i = Send_lock m"
    | m where "ph i = Send_unlock m" | m where "ph i = Send_post m" | m where "ph i = Receive_wait m"
    | m where "ph i = Receive_lock m" | m where "ph i = Receive_unlock m" | m where "ph i = Receive_post m" by blast
  then show ?thesis
  proof cases
    case 1
    then show ?thesis
      using wait_refines [OF inv, of i 1 status k "if status = 0 then Send_lock m else Send_done (- 4) m"] step here
      by (cases "status = 0") (auto simp: send_wait_code_def)
  next
    case 2
    then show ?thesis using lock_refines [OF inv, of i status k "Send_address m"] step here
      by (auto simp: send_lock_code_def)
  next
    case 3
    then show ?thesis using unlock_refines [OF inv, of i status k "Send_post m"] step here
      by (auto simp: send_unlock_code_def)
  next
    case 4
    then show ?thesis using post_refines [OF inv, of i 0 status k "Send_done status m"] step here
      by (auto simp: send_post_code_def)
  next
    case 5
    then show ?thesis
      using wait_refines [OF inv, of i 0 status k "if status = 0 then Receive_lock m else Receive_done (- 4) m"] step here
      by (cases "status = 0") (auto simp: receive_wait_code_def)
  next
    case 6
    then show ?thesis using lock_refines [OF inv, of i status k "Receive_address m"] step here
      by (auto simp: receive_lock_code_def)
  next
    case 7
    then show ?thesis using unlock_refines [OF inv, of i status k "Receive_post m"] step here
      by (auto simp: receive_unlock_code_def)
  next
    case 8
    then show ?thesis using post_refines [OF inv, of i 1 status k "Receive_done status m"] step here
      by (auto simp: receive_post_code_def)
  qed
qed

section \<open>Blocked tasks\<close>

text \<open>Where the tasks are when each is outside the service or BLOCKED in it.\<close>

definition quiet :: "queue_system \<Rightarrow> bool" where
  "quiet x \<longleftrightarrow> (\<forall>i. sys_code x i = None \<or> task_blocked (sys_ipc x) i)"

lemma quietD: "quiet x \<Longrightarrow> sys_code x j \<noteq> None \<Longrightarrow> task_blocked (sys_ipc x) j"
  unfolding quiet_def by (erule allE [of _ j], erule disjE) simp_all

lemma may_enter_own:
  "\<not> may_enter None (Locking 0)" "s = 0 \<or> s = 1 \<Longrightarrow> \<not> may_enter None (Waiting s)"
  by auto

lemma quiet_activity:
  assumes inv: "queue_inv ph ms x" and "quiet x" "sys_code x j \<noteq> None"
  shows "(\<exists>m. ph j = Send_wait m) \<and> ipc_activity (sys_ipc x) j = Waiting 1 \<or>
    (\<exists>m. ph j = Receive_wait m) \<and> ipc_activity (sys_ipc x) j = Waiting 0 \<or>
    ((\<exists>m. ph j = Send_lock m) \<or> (\<exists>m. ph j = Receive_lock m)) \<and> ipc_activity (sys_ipc x) j = Locking 0"
proof -
  note d = queue_invD [OF inv]
  have "ipc_activity (sys_ipc x) j \<noteq> Outside"
    by (rule ipc_wfD(4) [OF d(1) quietD [OF assms(2,3)]])
  moreover have "may_enter (code_at (sys_ring x) (ph j)) (ipc_activity (sys_ipc x) j)" using d(5,8) [of j] by simp
  ultimately show ?thesis
    using assms(3) d(5) [of j]
    by (cases "ph j"; cases "ipc_activity (sys_ipc x) j") (simp_all add: code_defs split: if_splits)
qed

lemma quiet_mutex:
  assumes inv: "queue_inv ph ms x" and quiet: "quiet x" and "ipc_activity (sys_ipc x) j = Locking 0"
  shows False
proof -
  let ?k = "sys_ipc x" and ?m = "ipc_mutexes (sys_ipc x) 0"
  note d = queue_invD [OF inv] and mx = ipc_wfD(2) [OF queue_invD(1) [OF inv], of 0]
  have inside: "task_blocked ?k l" if "ipc_activity ?k l = Locking 0" for l
    by (rule quietD [OF quiet]) (use d(8) [of l] that may_enter_own(1) in metis)
  have locked: "mx_is_locked ?m \<noteq> 0"
    using mutex_object.no_lost_wakeup [OF mx, of j] inside [OF assms(3)] assms(3) by auto
  let ?o = "unat (mx_owner_task_id ?m)"
  have "\<not> mutex_waits ?m ?o"
    using mutex_okD(4) [OF mx, of ?o] mutex_okD(8) [OF mx locked] inside by auto
  then have "in_critical (ph ?o)" using d(9) [of ?o] locked by (simp add: mutex_holder_def)
  then show False using quiet_activity [OF inv quiet, of ?o] d(5) [of ?o] by (cases "ph ?o") auto
qed

lemma quiet_units:
  assumes inv: "queue_inv ph ms x" and quiet: "quiet x"
  shows "unat (sem_count (ipc_semaphores (sys_ipc x) 1)) + length ms = slots (sys_ring x)"
    "unat (sem_count (ipc_semaphores (sys_ipc x) 0)) = length ms"
proof -
  let ?k = "sys_ipc x"
  note d = queue_invD [OF inv]
  have "\<not> semaphore_granted (ipc_semaphores ?k s) j" if "s = 0 \<or> s = 1" for s j
  proof
    assume g: "semaphore_granted (ipc_semaphores ?k s) j"
    then have "ipc_activity ?k j = Waiting s" "\<not> task_blocked ?k j"
      using semaphore_okD(6) [OF ipc_wfD(3) [OF d(1)] g] by simp_all
    moreover have "sys_code x j \<noteq> None" using d(8) [of j] may_enter_own(2) [OF that] calculation(1) by metis
    ultimately show False using quietD [OF quiet] by blast
  qed
  then have units: "semaphore_units (ipc_semaphores ?k s) = unat (sem_count (ipc_semaphores ?k s))"
    if "s = 0 \<or> s = 1" for s
    using that by (simp add: semaphore_units_def)
  have "\<not> claims_space (ph j) \<and> \<not> owes_space (ph j) \<and> \<not> claims_item (ph j) \<and> \<not> owes_item (ph j)" for j
  proof (cases "sys_code x j = None")
    case True
    then have "ph j = Out" by (intro None_phase [of "sys_ring x"]) (use d(5) [of j] in simp)
    then show ?thesis by simp
  next
    case False
    then show ?thesis using quiet_activity [OF inv quiet False] quiet_mutex [OF inv quiet, of j] by auto
  qed
  then have "count claims_space ph = 0" "count owes_space ph = 0" "count claims_item ph = 0" "count owes_item ph = 0"
    by (simp_all add: count_def)
  then show "unat (sem_count (ipc_semaphores (sys_ipc x) 1)) + length ms = slots (sys_ring x)"
    "unat (sem_count (ipc_semaphores (sys_ipc x) 0)) = length ms"
    using inv units [of 0] units [of 1] by (simp_all add: queue_inv_def)
qed

section \<open>All steps\<close>

lemma queue_step_refines:
  assumes "queue_step x e x'" "queue_inv ph ms x"
  shows "refines_to ph ms e x'"
  using assms
proof (induction rule: queue_step.induct)
  case (internal x k)
  note d = queue_invD [OF internal(3)]
  have "queue_inv (ph(0 := ph 0)) ms (x\<lparr>sys_ipc := k\<rparr>)"
    using internal(2) silent_step [OF internal(1) d(1)] ipc_step_wf [OF internal(1) d(1)]
      ipc_step_units(2) [OF internal(1) d(1)] by (simp add: queue_inv_outside [OF internal(3)])
  then show ?case by (rule refines_silent) simp
next
  case (other_call x e k)
  note d = queue_invD [OF other_call(3)]
  note units = other_call_units [OF other_call(1) d(1) other_call(2)]
  have "may_enter (sys_code x i) (ipc_activity k i)" for i
    using ipc_step_return(3) [OF other_call(1) d(1)] d(8) [of i] by simp
  then have "queue_inv ph ms (x\<lparr>sys_ipc := k\<rparr>)"
    by (intro queue_inv_outside [OF other_call(3)])
      (use units ipc_step_wf [OF other_call(1) d(1)] ipc_step_units(2) [OF other_call(1) d(1)] in auto)
  then have "queue_inv (ph(0 := ph 0)) ms (x\<lparr>sys_ipc := k\<rparr>)" by simp
  then show ?case by (rule refines_silent) simp
next
  case (inner_call x c i status k f)
  then show ?case by (intro call_refines)
next
  case (send x i m)
  note d = queue_invD [OF send(4)]
  have out: "ph i = Out" by (rule None_phase [of "sys_ring x"]) (use d(5) [of i] send(2) in simp)
  have "queue_inv (ph(i := Send_check m)) ms (x\<lparr>sys_code := (sys_code x)(i := code_at (sys_ring x) (Send_check m))\<rparr>)"
    by (rule queue_inv_local [OF send(4,1)]) (use send(3) out in \<open>simp_all add: weight_def\<close>)
  from refines_event [OF this, of "Send_called i m"] show ?case using out by simp
next
  case (receive x i b)
  note d = queue_invD [OF receive(4)]
  have out: "ph i = Out" by (rule None_phase [of "sys_ring x"]) (use d(5) [of i] receive(2) in simp)
  have "queue_inv (ph(i := Receive_check b)) ms (x\<lparr>sys_code := (sys_code x)(i := code_at (sys_ring x) (Receive_check b))\<rparr>)"
    by (rule queue_inv_local [OF receive(4,1)]) (use receive(3) out in \<open>simp_all add: weight_def\<close>)
  from refines_event [OF this, of "Receive_called i"] show ?case using out by simp
next
  case (return x i status b)
  note d = queue_invD [OF return(3)]
  have "code_at (sys_ring x) (ph i) = Some (Done status b)" using d(5) [of i] return(2) by simp
  note p = Done_phase [OF this]
  have "queue_inv (ph(i := Out)) ms (x\<lparr>sys_code := (sys_code x)(i := code_at (sys_ring x) Out)\<rparr>)"
    by (rule queue_inv_local [OF return(3,1)]) (use p in \<open>auto simp: weight_def\<close>)
  from refines_event [OF this, of "Returned i status b"] show ?case using p d(7) [of i] by auto
qed (blast intro: fetch_refines store_refines enqueue_refines dequeue_refines)+

end
