(* ===== verification/Queue_Properties.thy ===== *)
theory Queue_Properties
  imports Queue_Steps Ipc_Properties
begin

text \<open>
  Properties of the message queue service: what initialisation establishes, every branch of
  send and receive, linearizability as a bounded FIFO queue under all interleavings, and the
  absence of lost wakeups.
\<close>

section \<open>Initialisation\<close>

text \<open>
  \<open>os_message_queue_init\<close>: a null pointer and a zero message size or capacity are
  refused without touching the queue; otherwise initialisation succeeds, whatever the
  structure held before. The queue is then empty with its indices at slot 0, the mutex is
  free, no item and \<open>capacity\<close> spaces are available. If the storage can hold \<open>capacity\<close>
  messages, the queue represents the empty list.
\<close>

lemma os_message_queue_init_outcome:
  "os_message_queue_init None storage message_size capacity = (OS_MESSAGE_QUEUE_ERROR_NULL_POINTER, None) \<and>
   os_message_queue_init (Some q) None message_size capacity = (OS_MESSAGE_QUEUE_ERROR_NULL_POINTER, Some q) \<and>
   (if message_size = 0 \<or> capacity = 0
    then os_message_queue_init (Some q) (Some bytes) message_size capacity =
           (OS_MESSAGE_QUEUE_ERROR_INVALID_CONFIG, Some q)
    else \<exists>q'. os_message_queue_init (Some q) (Some bytes) message_size capacity = (OS_MESSAGE_QUEUE_OK, Some q') \<and>
      mq_is_initialized q' = OS_MESSAGE_QUEUE_INITIALIZED \<and> mq_message_size q' = message_size \<and>
      mq_capacity q' = capacity \<and> mq_storage q' = bytes \<and> mutex_holder (mq_access_mutex q') = None \<and>
      semaphore_units (mq_available_items q') = 0 \<and>
      sem_maximum_count (mq_available_items q') = capacity \<and>
      semaphore_units (mq_available_spaces q') = unat capacity \<and>
      sem_maximum_count (mq_available_spaces q') = capacity \<and>
      (ring_holds q' [] \<longleftrightarrow> unat capacity * unat message_size \<le> length bytes \<and> length bytes < 2 ^ 32))"
proof -
  show ?thesis
    by (auto simp: os_message_queue_init_def os_mutex_init_def os_semaphore_init_def Let_def mutex_holder_def
        semaphore_units_def ring_holds_def ring_shape_def word_gt_0 bot_fun_def)
qed

section \<open>Every branch of one call\<close>

text \<open>The queue after the message was stored at the tail, and after one was read at the head.\<close>

definition after_send :: "message_ring \<Rightarrow> u8 list \<Rightarrow> message_ring" where
  "after_send q m = q\<lparr>mq_storage := take (unat (mq_tail q) * width q) (mq_storage q) @ m @
      drop (unat (mq_tail q) * width q + width q) (mq_storage q),
     mq_tail := advance (mq_capacity q) (mq_tail q)\<rparr>"

definition after_receive :: "message_ring \<Rightarrow> message_ring" where
  "after_receive q = q\<lparr>mq_head := advance (mq_capacity q) (mq_head q)\<rparr>"

lemma exec_copy_in:
  assumes "ring_holds q ms" "length m = width q"
  shows "fold (\<lambda>i s. s[message_queue_slot_address q (mq_tail q) + i := m ! i]) [0..<width q] (mq_storage q) =
    take (unat (mq_tail q) * width q) (mq_storage q) @ m @
      drop (unat (mq_tail q) * width q + width q) (mq_storage q)"
proof -
  note r = ring_holdsD [OF assms(1)]
  have "message_queue_slot_address q (mq_tail q) = unat (mq_tail q) * width q"
    using slot_address_eq [OF r(1)] r(1) by (simp add: ring_shape_def)
  then show ?thesis
    using fold_write [of "unat (mq_tail q) * width q" "width q" "mq_storage q" m] slot_end(2) [OF r(1,5,6)] assms(2)
    by simp
qed

lemma after_send_holds:
  assumes "ring_holds q ms" "length m = width q" "length ms < slots q"
  shows "ring_holds (after_send q m) (ms @ [m])"
proof -
  note r = ring_holdsD [OF assms(1)]
  let ?d = "unat (mq_tail q) * width q"
  let ?q = "q\<lparr>mq_storage := take ?d (mq_storage q) @ m @ drop (?d + width q) (mq_storage q)\<rparr>"
  have fits: "?d + width q \<le> length (mq_storage q)" by (rule slot_end(2) [OF r(1,5,6)])
  have shape: "ring_shape ?q" using r(1) fits assms(2) by (simp add: ring_shape_def)
  have written: "slot ?q j = (if j = unat (mq_tail q) then m else slot q j)" for j
  proof (cases j "unat (mq_tail q)" rule: linorder_cases)
    case less
    then have "Suc j * width q \<le> ?d" by (intro mult_le_mono1) simp
    from le_Suc_ex [OF this] obtain l where "?d = j * width q + width q + l" by auto
    then show ?thesis using less fits by (simp add: slot_def drop_take)
  next
    case equal
    then show ?thesis using fits assms(2) by (simp add: slot_def)
  next
    case greater
    then have "Suc (unat (mq_tail q)) * width q \<le> j * width q" by (intro mult_le_mono1) simp
    from le_Suc_ex [OF this] obtain l where "j * width q = ?d + width q + l" by auto
    then show ?thesis using greater fits assms(2) by (simp add: slot_def ac_simps)
  qed
  have "ring_holds ?q ms"
    unfolding ring_holds_def
    using shape r(2,3,7) written other_slot [OF _ assms(3) r(4)] r(4) by auto
  from ring_holds_put [OF this] show ?thesis
    using assms(3) written [of "unat (mq_tail q)"] by (simp add: after_send_def)
qed

lemma exec_copy_out:
  assumes "ring_holds q ms" "length b = width q"
  shows "fold (\<lambda>i b. b[i := mq_storage q ! (message_queue_slot_address q (mq_head q) + i)]) [0..<width q] b =
    slot q (unat (mq_head q))"
proof -
  note r = ring_holdsD [OF assms(1)]
  have "message_queue_slot_address q (mq_head q) = unat (mq_head q) * width q"
    using slot_address_eq [OF r(1)] r(1) by (simp add: ring_shape_def)
  then show ?thesis
    using fold_read [of "unat (mq_head q) * width q" "width q" "mq_storage q" b] slot_end(2) [OF r(1,4,6)] assms(2)
    by (simp add: slot_def)
qed

text \<open>
  (C33) Every branch of one \<open>os_message_queue_send\<close>, for any statuses of the inner calls. Every
  error before the copy leaves the queue untouched, and a refused lock gives the unit of space
  back; otherwise the message is appended, whatever unlock and post return. The inner calls
  are made in the order wait, lock, unlock, post, and none follows a failure other than the
  compensation.
\<close>

theorem os_message_queue_send_outcome:
  assumes "ring_holds q ms" "length message = width q" "length ms < slots q"
  shows "queue_exec (os_message_queue_send queue_is_null (Some message)) status q [] =
    (if queue_is_null then (OS_MESSAGE_QUEUE_ERROR_NULL_POINTER, message, q, [])
     else if mq_is_initialized q \<noteq> OS_MESSAGE_QUEUE_INITIALIZED
     then (OS_MESSAGE_QUEUE_ERROR_NOT_INITIALIZED, message, q, [])
     else if status (Semaphore_wait available_spaces) \<noteq> OS_SEMAPHORE_OK
     then (OS_MESSAGE_QUEUE_ERROR_SYNC_OPERATION, message, q, [Semaphore_wait available_spaces])
     else if status (Mutex_lock access_mutex) \<noteq> OS_MUTEX_OK
     then (OS_MESSAGE_QUEUE_ERROR_SYNC_OPERATION, message, q,
           [Semaphore_wait available_spaces, Mutex_lock access_mutex, Semaphore_post available_spaces])
     else if status (Mutex_unlock access_mutex) \<noteq> OS_MUTEX_OK
     then (OS_MESSAGE_QUEUE_ERROR_SYNC_OPERATION, message, after_send q message,
           [Semaphore_wait available_spaces, Mutex_lock access_mutex, Mutex_unlock access_mutex])
     else ((if status (Semaphore_post available_items) \<noteq> OS_SEMAPHORE_OK
            then OS_MESSAGE_QUEUE_ERROR_SYNC_OPERATION else OS_MESSAGE_QUEUE_OK), message, after_send q message,
           [Semaphore_wait available_spaces, Mutex_lock access_mutex, Mutex_unlock access_mutex,
            Semaphore_post available_items])) \<and>
    ring_holds (after_send q message) (ms @ [message]) \<and>
    queue_exec (os_message_queue_send queue_is_null None) status q [] =
      (OS_MESSAGE_QUEUE_ERROR_NULL_POINTER, [], q, [])"
  using after_send_holds [OF assms] exec_copy_in [OF assms(1,2)]
  by (simp add: os_message_queue_send_def queue_exec_copy_in after_send_def advance_def Let_def)

text \<open>
  (C34) Every branch of one \<open>os_message_queue_receive\<close>, in the same way: an error before the
  copy leaves the queue and the caller's buffer untouched, and a refused lock gives the item
  back; otherwise the buffer holds the first message, which has left the queue.
\<close>

theorem os_message_queue_receive_outcome:
  assumes "ring_holds q (m # ms)" "length buffer = width q"
  shows "queue_exec (os_message_queue_receive queue_is_null (Some buffer)) status q [] =
    (if queue_is_null then (OS_MESSAGE_QUEUE_ERROR_NULL_POINTER, buffer, q, [])
     else if mq_is_initialized q \<noteq> OS_MESSAGE_QUEUE_INITIALIZED
     then (OS_MESSAGE_QUEUE_ERROR_NOT_INITIALIZED, buffer, q, [])
     else if status (Semaphore_wait available_items) \<noteq> OS_SEMAPHORE_OK
     then (OS_MESSAGE_QUEUE_ERROR_SYNC_OPERATION, buffer, q, [Semaphore_wait available_items])
     else if status (Mutex_lock access_mutex) \<noteq> OS_MUTEX_OK
     then (OS_MESSAGE_QUEUE_ERROR_SYNC_OPERATION, buffer, q,
           [Semaphore_wait available_items, Mutex_lock access_mutex, Semaphore_post available_items])
     else if status (Mutex_unlock access_mutex) \<noteq> OS_MUTEX_OK
     then (OS_MESSAGE_QUEUE_ERROR_SYNC_OPERATION, m, after_receive q,
           [Semaphore_wait available_items, Mutex_lock access_mutex, Mutex_unlock access_mutex])
     else ((if status (Semaphore_post available_spaces) \<noteq> OS_SEMAPHORE_OK
            then OS_MESSAGE_QUEUE_ERROR_SYNC_OPERATION else OS_MESSAGE_QUEUE_OK), m, after_receive q,
           [Semaphore_wait available_items, Mutex_lock access_mutex, Mutex_unlock access_mutex,
            Semaphore_post available_spaces])) \<and>
    ring_holds (after_receive q) ms \<and>
    queue_exec (os_message_queue_receive queue_is_null None) status q [] =
      (OS_MESSAGE_QUEUE_ERROR_NULL_POINTER, [], q, [])"
  using ring_holds_get [OF assms(1)] exec_copy_out [OF assms]
  by (simp add: os_message_queue_receive_def queue_exec_copy_out after_receive_def advance_def Let_def)

text \<open>A queue of two slots of two bytes that wraps around.\<close>

definition demo_ring :: message_ring where
  "demo_ring = \<lparr>mq_storage = [0, 0, 5, 6], mq_message_size = 2, mq_capacity = 2, mq_head = 1, mq_tail = 0,
     mq_is_initialized = 1\<rparr>"

lemma demo_ring_holds: "ring_holds demo_ring [[5, 6]]"
  by (simp add: ring_holds_def ring_shape_def demo_ring_def slot_def)

theorem os_message_queue_send_outcome_witness:
  "queue_exec (os_message_queue_send False (Some [7, 8])) (\<lambda>_. 0) demo_ring [] =
    (OS_MESSAGE_QUEUE_OK, [7, 8], demo_ring\<lparr>mq_storage := [7, 8, 5, 6], mq_tail := 1\<rparr>,
     [Semaphore_wait 1, Mutex_lock 0, Mutex_unlock 0, Semaphore_post 0])"
  using os_message_queue_send_outcome [OF demo_ring_holds, of "[7, 8]" False "\<lambda>_. 0"]
  by (simp add: demo_ring_def after_send_def advance_def word_le_nat_alt)

theorem os_message_queue_receive_outcome_witness:
  "queue_exec (os_message_queue_receive False (Some [0, 0])) (\<lambda>_. 0) demo_ring [] =
    (OS_MESSAGE_QUEUE_OK, [5, 6], demo_ring\<lparr>mq_head := 0\<rparr>,
     [Semaphore_wait 0, Mutex_lock 0, Mutex_unlock 0, Semaphore_post 1])"
  using os_message_queue_receive_outcome [OF demo_ring_holds, of "[0, 0]" False "\<lambda>_. 0"]
  by (simp add: demo_ring_def after_receive_def advance_def)

section \<open>Executions\<close>

text \<open>
  The system starts with a queue that \<open>os_message_queue_init\<close> initialised, on storage large
  enough for its messages, its objects among those of the system, and no task in a call.
\<close>

definition queue_start :: "os_message_queue_t \<Rightarrow> queue_system \<Rightarrow> bool" where
  "queue_start q x \<longleftrightarrow>
     (\<exists>q0 bytes size capacity. os_message_queue_init (Some q0) (Some bytes) size capacity =
        (OS_MESSAGE_QUEUE_OK, Some q) \<and>
        unat capacity * unat size \<le> length bytes \<and> length bytes < 2 ^ 32) \<and>
     ipc_wf (sys_ipc x) \<and> sys_ring x = message_ring.truncate q \<and>
     ipc_mutexes (sys_ipc x) access_mutex = mq_access_mutex q \<and>
     ipc_semaphores (sys_ipc x) available_items = mq_available_items q \<and>
     ipc_semaphores (sys_ipc x) available_spaces = mq_available_spaces q \<and>
     (\<forall>i. sys_code x i = None \<and> may_enter None (ipc_activity (sys_ipc x) i))"

lemma ring_holds_truncate: "ring_holds (message_ring.truncate q) ms = ring_holds q ms"
  by (simp add: ring_holds_def ring_shape_def slot_def message_ring.truncate_def)

lemma queue_start_inv:
  assumes "queue_start q x"
  shows "queue_inv (\<lambda>_. Out) [] x" "mq_capacity q \<noteq> 0"
proof -
  obtain q0 bytes n capacity where init: "os_message_queue_init (Some q0) (Some bytes) n capacity = (0, Some q)"
    "unat capacity * unat n \<le> length bytes" "length bytes < 2 ^ 32"
    using assms by (auto simp: queue_start_def)
  have fields: "mq_is_initialized q = 1" "mq_capacity q = capacity" "mutex_holder (mq_access_mutex q) = None"
      "semaphore_units (mq_available_items q) = 0" "sem_maximum_count (mq_available_items q) = capacity"
      "semaphore_units (mq_available_spaces q) = unat capacity"
      "sem_maximum_count (mq_available_spaces q) = capacity" "ring_holds q []" "capacity \<noteq> 0"
    using os_message_queue_init_outcome [of None n capacity q0 bytes] init by (auto split: if_splits)
  have "ring_holds (sys_ring x) []" using assms fields(8) by (simp add: queue_start_def ring_holds_truncate)
  moreover have "mq_is_initialized (sys_ring x) = 1" "mq_capacity (sys_ring x) = capacity"
    using assms fields by (simp_all add: queue_start_def message_ring.truncate_def)
  ultimately show "queue_inv (\<lambda>_. Out) [] x"
    using assms fields by (simp add: queue_inv_def queue_start_def count_def)
  show "mq_capacity q \<noteq> 0" using fields by simp
qed

lemma queue_run_inv:
  assumes "queue_start q x0" "queue_run x0 es x"
  shows "\<exists>ph ms. queue_inv ph ms x \<and> mq_capacity (sys_ring x) = mq_capacity q \<and>
    spec_run (unat (mq_capacity q)) es ([], \<lambda>_. Idle) = Some (abstract ph ms)"
  using assms(2)
proof induction
  case start
  then show ?case
    using queue_start_inv(1) [OF assms(1)] assms(1)
    by (intro exI [of _ "\<lambda>_. Out"] exI [of _ "[]"]) (simp add: queue_start_def message_ring.truncate_def)
next
  case (step es x e x')
  then obtain ph ms where inv: "queue_inv ph ms x" and cap: "mq_capacity (sys_ring x) = mq_capacity q"
    and spec: "spec_run (unat (mq_capacity q)) es ([], \<lambda>_. Idle) = Some (abstract ph ms)" by blast
  from queue_step_refines [OF step(2) inv] obtain ph' ms' where
    inv': "queue_inv ph' ms' x'" and spec': "spec_run (slots (sys_ring x')) e (abstract ph ms) = Some (abstract ph' ms')"
    by (auto simp: refines_to_def)
  have "mq_capacity (sys_ring x') = mq_capacity (sys_ring x)" using step(2) by cases simp_all
  then show ?case using inv' spec spec' cap by (auto simp: spec_run_append)
qed

text \<open>
  (C1) Linearizability: under every interleaving of the tasks' steps, byte copies and
  preemptions included, the history of a queue is one of the abstract bounded FIFO queue.
  Every call takes effect once, atomically, between its call and its return; the storage
  holds the abstract content at every moment.
\<close>

theorem message_queue_linearizable:
  assumes "queue_start q x0" "queue_run x0 es x"
  shows "\<exists>ms pr. spec_run (unat (mq_capacity q)) es ([], \<lambda>_. Idle) = Some (ms, pr) \<and>
    ring_holds (sys_ring x) ms"
  using queue_run_inv [OF assms] queue_invD(2) by blast

text \<open>The messages in the order in which they entered and left the queue.\<close>

fun enqueued :: "queue_event list \<Rightarrow> u8 list list" where
  "enqueued [] = []"
| "enqueued (Enqueued i m # es) = m # enqueued es"
| "enqueued (e # es) = enqueued es"

fun dequeued :: "queue_event list \<Rightarrow> u8 list list" where
  "dequeued [] = []"
| "dequeued (Dequeued i m # es) = m # dequeued es"
| "dequeued (e # es) = dequeued es"

lemma spec_fifo:
  "spec_run c es (ms, pr) = Some (ms', pr') \<Longrightarrow> length ms \<le> c \<Longrightarrow>
    ms @ enqueued es = dequeued es @ ms' \<and> length ms' \<le> c"
proof (induction es arbitrary: ms pr)
  case (Cons e es)
  then obtain ms1 pr1 where s: "spec_step c e (ms, pr) = Some (ms1, pr1)" "spec_run c es (ms1, pr1) = Some (ms', pr')"
    by (auto split: option.splits)
  show ?case
    using Cons.IH [OF s(2)] s(1) Cons.prems(2) by (cases e; cases ms) (auto split: if_splits)
qed simp

text \<open>
  (C30) FIFO without loss, duplication or overrun: in every execution the messages taken out
  are, in order, the first of the messages put in; the rest are in the queue, in order, and
  they are never more than its capacity.
\<close>

theorem message_queue_fifo:
  assumes "queue_start q x0" "queue_run x0 es x"
  shows "\<exists>ms. enqueued es = dequeued es @ ms \<and> length ms \<le> unat (mq_capacity q) \<and> ring_holds (sys_ring x) ms"
proof -
  obtain ms pr where s: "spec_run (unat (mq_capacity q)) es ([], \<lambda>_. Idle) = Some (ms, pr)"
    "ring_holds (sys_ring x) ms"
    using queue_run_inv [OF assms] queue_invD(2) by blast
  then show ?thesis using spec_fifo [OF s(1)] by auto
qed

lemma spec_statuses:
  "spec_run c es (ms, pr) = Some a \<Longrightarrow> Returned i status m \<in> set es \<Longrightarrow>
    status = (if i = 0 then OS_MESSAGE_QUEUE_ERROR_SYNC_OPERATION else OS_MESSAGE_QUEUE_OK)"
proof (induction es arbitrary: ms pr)
  case (Cons e es)
  then obtain ms1 pr1 where s: "spec_step c e (ms, pr) = Some (ms1, pr1)" "spec_run c es (ms1, pr1) = Some a"
    by (auto split: option.splits)
  show ?case
    using Cons.IH [OF s(2)] s(1) Cons.prems(2) by (cases e) (auto split: if_splits)
qed simp

text \<open>Every call of an application task that returns succeeds; the idle task is always refused.\<close>

lemma run_statuses:
  assumes "queue_start q x0" "queue_run x0 es x" "Returned i status m \<in> set es"
  shows "status = (if i = 0 then OS_MESSAGE_QUEUE_ERROR_SYNC_OPERATION else OS_MESSAGE_QUEUE_OK)"
proof -
  obtain a where "spec_run (unat (mq_capacity q)) es ([], \<lambda>_. Idle) = Some a"
    using queue_run_inv [OF assms(1,2)] by blast
  from spec_statuses [OF this assms(3)] show ?thesis .
qed

text \<open>Where the BLOCKED tasks are when no other task is in the service.\<close>

lemma quiet_blocked:
  assumes "queue_start q x0" "queue_run x0 es x"
    and "quiet x" "task_blocked (sys_ipc x) i" "sys_code x i \<noteq> None"
  shows "\<exists>ms pr. spec_run (unat (mq_capacity q)) es ([], \<lambda>_. Idle) = Some (ms, pr) \<and>
    (ipc_activity (sys_ipc x) i = Waiting available_items \<and> ms = [] \<and> pr i = Receiving \<or>
     ipc_activity (sys_ipc x) i = Waiting available_spaces \<and> length ms = unat (mq_capacity q) \<and>
       (\<exists>m. pr i = Sending m))"
proof -
  obtain ph ms where inv: "queue_inv ph ms x" and cap: "mq_capacity (sys_ring x) = mq_capacity q"
    and spec: "spec_run (unat (mq_capacity q)) es ([], \<lambda>_. Idle) = Some (abstract ph ms)"
    using queue_run_inv [OF assms(1,2)] by blast
  note d = queue_invD [OF inv]
  have act: "ipc_activity (sys_ipc x) i = Waiting 1 \<and> (\<exists>m. ph i = Send_wait m) \<or>
      ipc_activity (sys_ipc x) i = Waiting 0 \<and> (\<exists>m. ph i = Receive_wait m)"
    using quiet_activity [OF inv assms(3,5)] quiet_mutex [OF inv assms(3), of i] by auto
  have "\<not> sem_count (ipc_semaphores (sys_ipc x) s) > 0" if "ipc_activity (sys_ipc x) i = Waiting s" for s
    using semaphore_object.no_lost_wakeup [OF ipc_wfD(3) [OF d(1), of s], of i] that assms(4) by auto
  then have "unat (sem_count (ipc_semaphores (sys_ipc x) s)) = 0" if "ipc_activity (sys_ipc x) i = Waiting s" for s
    using that by (simp add: word_gt_0 unat_eq_0)
  then show ?thesis
    using act quiet_units [OF inv assms(3)] cap spec by auto
qed

text \<open>
  (C31) No lost wakeup at the queue. Consider any reachable state in which every task is
  outside the queue service or BLOCKED inside one of its calls. Then no task is BLOCKED on
  the queue's mutex; if a task is BLOCKED in receive the queue is empty, and if a task is
  BLOCKED in send the queue is full. A receiver and a sender are never both stuck.
\<close>

theorem blocked_queue_is_empty_or_full:
  assumes "queue_start q x0" "queue_run x0 es x"
    and "quiet x" "task_blocked (sys_ipc x) i" "sys_code x i \<noteq> None"
  shows "ipc_activity (sys_ipc x) i = Waiting available_items \<and> enqueued es = dequeued es \<or>
    ipc_activity (sys_ipc x) i = Waiting available_spaces \<and>
      length (enqueued es) = length (dequeued es) + unat (mq_capacity q)"
  using quiet_blocked [OF assms] spec_fifo [of "unat (mq_capacity q)" es "[]" "\<lambda>_. Idle"] by fastforce

section \<open>The size of messages\<close>

text \<open>In the abstract queue messages keep the size with which they are sent.\<close>

fun message_in :: "progress \<Rightarrow> u8 list set" where
  "message_in (Sending m) = {m}"
| "message_in (Sent m) = {m}"
| "message_in (Got m) = {m}"
| "message_in p = {}"

definition sized :: "nat \<Rightarrow> u8 list list \<times> (nat \<Rightarrow> progress) \<Rightarrow> bool" where
  "sized n a \<longleftrightarrow> (\<forall>m \<in> set (fst a) \<union> (\<Union>i. message_in (snd a i)). length m = n)"

lemma sized_step:
  assumes "spec_step c e a = Some a'" "sized n a" "\<forall>i m. e = Send_called i m \<longrightarrow> length m = n"
  shows "sized n a'" "e = Returned i status m \<Longrightarrow> i \<noteq> 0 \<Longrightarrow> length m = n"
proof -
  obtain ms pr where a: "a = (ms, pr)" by (cases a)
  have msgs: "\<And>m. m \<in> set ms \<Longrightarrow> length m = n" "\<And>j m. m \<in> message_in (pr j) \<Longrightarrow> length m = n"
    using assms(2) by (auto simp: sized_def a)
  show "sized n a'"
  proof (cases e)
    case (Send_called i m)
    then show ?thesis using assms(1,3) msgs by (auto simp: a sized_def split: if_splits)
  next
    case (Enqueued i m)
    then have "pr i = Sending m" "a' = (ms @ [m], pr(i := Sent m))" using assms(1) by (simp_all add: a split: if_splits)
    then show ?thesis using msgs(1) msgs(2) [of _ i] msgs(2) by (auto simp: sized_def split: if_splits)
  next
    case (Dequeued i m)
    then obtain rest where "ms = m # rest" "a' = (rest, pr(i := Got m))"
      using assms(1) by (cases ms) (simp_all add: a split: if_splits)
    then show ?thesis using msgs by (auto simp: sized_def split: if_splits)
  qed (use assms(1) msgs in \<open>auto simp: a sized_def split: if_splits\<close>)
  show "e = Returned i status m \<Longrightarrow> i \<noteq> 0 \<Longrightarrow> length m = n"
    using assms(1) msgs(2) [of m i] by (auto simp: a split: if_splits)
qed

lemma sized_run:
  assumes "spec_run c es a = Some a'" "sized n a" "\<forall>i m. Send_called i m \<in> set es \<longrightarrow> length m = n"
    "Returned i status m \<in> set es" "i \<noteq> 0"
  shows "length m = n"
  using assms
proof (induction es arbitrary: a)
  case (Cons e es)
  then obtain a1 where a1: "spec_step c e a = Some a1" "spec_run c es a1 = Some a'" by (auto split: option.splits)
  have sends: "\<forall>i m. e = Send_called i m \<longrightarrow> length m = n" "\<forall>i m. Send_called i m \<in> set es \<longrightarrow> length m = n"
    using Cons.prems(3) by auto
  note one = sized_step [OF a1(1) Cons.prems(2) sends(1)]
  show ?case
    using Cons.IH [OF a1(2) one(1) sends(2)] one(2) Cons.prems(4,5) by auto
qed simp

lemma queue_run_sizes:
  assumes "queue_run x0 es x"
  shows "mq_message_size (sys_ring x) = mq_message_size (sys_ring x0) \<and>
    (\<forall>i m. Send_called i m \<in> set es \<longrightarrow> length m = unat (mq_message_size (sys_ring x0)))"
  using assms
proof induction
  case (step es x e x')
  from step(2) show ?case using step.IH by cases auto
qed simp

lemma run_message_size:
  assumes "queue_start q x0" "queue_run x0 es x"
  shows "mq_message_size (sys_ring x) = mq_message_size q" "mq_message_size (sys_ring x0) = mq_message_size q"
  using queue_run_sizes [OF assms(2)] assms(1) by (simp_all add: queue_start_def message_ring.truncate_def)

lemma returned_size:
  assumes "queue_start q x0" "queue_run x0 es x" "Returned i status m \<in> set es" "i \<noteq> 0"
  shows "length m = unat (mq_message_size q)"
proof -
  obtain a where "spec_run (unat (mq_capacity q)) es ([], \<lambda>_. Idle) = Some a"
    using queue_run_inv [OF assms(1,2)] by blast
  from sized_run [OF this _ _ assms(3,4)] show ?thesis
    using queue_run_sizes [OF assms(2)] run_message_size(2) [OF assms(1,2)] by (auto simp: sized_def)
qed

end
