(* ===== verification/Queue_Completion.thy ===== *)
theory Queue_Completion
  imports Queue_Properties
begin

text \<open>
  Calls of the message queue that need not wait return: a send when a space is available and
  the mutex is free, a receive when an item is available. The run is built step by step, and
  gives the concrete executions that show the other properties are not vacuous.
\<close>

section \<open>Calls of the services that need not wait\<close>

definition on_cpu :: "ipc \<Rightarrow> nat \<Rightarrow> bool" where
  "on_cpu k i \<longleftrightarrow> ipc_wf k \<and> running_task k i \<and> ipc_activity k i = Outside"

lemma on_cpuD:
  assumes "on_cpu k i"
  shows "ipc_wf k" "running_task k i" "ipc_activity k i = Outside" "thread_active k" "i = current_index k" "i \<noteq> 0"
  using assms unfolding on_cpu_def running_task_def by blast+

lemma on_cpu_step:
  assumes "ipc_step k e k'" "ipc_wf k" "thread_active k'" "current_index k' = i" "i \<noteq> 0" "ipc_activity k' i = Outside"
  shows "on_cpu k' i"
proof -
  have wf: "ipc_wf k'" by (rule ipc_step_wf [OF assms(1,2)])
  then show ?thesis
    unfolding on_cpu_def running_task_def using ipc_wfD(1) [OF wf] assms(3,4,5,6) by blast
qed

lemma wait_free:
  assumes "on_cpu k i" "sem_count (ipc_semaphores k s) > 0"
  shows "\<exists>k1 k2. ipc_step k [] k1 \<and> ipc_activity k1 = (ipc_activity k)(i := Waiting s) \<and>
    ipc_step k1 [Waited i s OS_SEMAPHORE_OK] k2 \<and> on_cpu k2 i \<and> ipc_mutexes k2 = ipc_mutexes k"
proof -
  note d = on_cpuD [OF assms(1)]
  let ?k1 = "k\<lparr>ipc_activity := (ipc_activity k)(i := Waiting s)\<rparr>"
  have enter: "ipc_step k [] ?k1"
    by (rule ipc_step.wait_call [OF d(4,5,3)]) (use prologue_ok(2) [OF d(1,5), of s] d(6) in simp)
  note wf = ipc_step_wf [OF enter d(1)]
  have active: "thread_active ?k1" using d(4) by (simp add: thread_active_def)
  have run: "running_task ?k1 i" using ipc_wfD(1) [OF wf] d(5,6) active by (simp add: running_task_def)
  have init: "sem_is_initialized (ipc_semaphores k s) = 1" by (rule semaphore_okD(1) [OF ipc_wfD(3) [OF d(1)]])
  obtain x where pass: "semaphore_wait_iteration (of_nat i) (ipc_semaphores k s) ?k1 = (Return OS_SEMAPHORE_OK, x, ?k1)"
    using semaphore_wait_iteration_eq [OF run, of "ipc_semaphores k s"] init assms(2) by (simp split: if_splits)
  have id: "g_current_task_id ?k1 = of_nat i" by (rule running_taskD(3) [OF run])
  let ?k2 = "?k1\<lparr>ipc_semaphores := (ipc_semaphores k)(s := x), ipc_activity := (ipc_activity ?k1)(i := Outside)\<rparr>"
  have return: "ipc_step ?k1 [Waited i s OS_SEMAPHORE_OK] ?k2"
    using ipc_step.wait_pass [of ?k1 i s "Return OS_SEMAPHORE_OK" x ?k1] active d(5) pass id by simp
  have "on_cpu ?k2 i"
    by (rule on_cpu_step [OF return wf]) (use d active in \<open>simp_all add: thread_active_def\<close>)
  then show ?thesis using enter return by (intro exI [of _ ?k1] exI [of _ ?k2]) simp
qed

lemma lock_free:
  assumes "on_cpu k i" "mx_is_locked (ipc_mutexes k m) = 0"
  shows "\<exists>k1 k2. ipc_step k [] k1 \<and> ipc_activity k1 = (ipc_activity k)(i := Locking m) \<and>
    ipc_step k1 [Locked i m OS_MUTEX_OK] k2 \<and> on_cpu k2 i"
proof -
  note d = on_cpuD [OF assms(1)]
  let ?k1 = "k\<lparr>ipc_activity := (ipc_activity k)(i := Locking m)\<rparr>"
  have enter: "ipc_step k [] ?k1"
    by (rule ipc_step.lock_call [OF d(4,5,3)]) (use prologue_ok(1) [OF d(1,5), of m] d(6) in simp)
  note wf = ipc_step_wf [OF enter d(1)]
  have active: "thread_active ?k1" using d(4) by (simp add: thread_active_def)
  have run: "running_task ?k1 i" using ipc_wfD(1) [OF wf] d(5,6) active by (simp add: running_task_def)
  have init: "mx_is_initialized (ipc_mutexes k m) = 1" by (rule mutex_okD(1) [OF ipc_wfD(2) [OF d(1)]])
  obtain x where pass: "mutex_lock_iteration (of_nat i) (ipc_mutexes k m) ?k1 = (Return OS_MUTEX_OK, x, ?k1)"
    using mutex_lock_iteration_eq [OF run, of "ipc_mutexes k m"] init assms(2) by (simp split: if_splits)
  have id: "g_current_task_id ?k1 = of_nat i" by (rule running_taskD(3) [OF run])
  let ?k2 = "?k1\<lparr>ipc_mutexes := (ipc_mutexes k)(m := x), ipc_activity := (ipc_activity ?k1)(i := Outside)\<rparr>"
  have return: "ipc_step ?k1 [Locked i m OS_MUTEX_OK] ?k2"
    using ipc_step.lock_pass [of ?k1 i m "Return OS_MUTEX_OK" x ?k1] active d(5) pass id by simp
  have "on_cpu ?k2 i"
    by (rule on_cpu_step [OF return wf]) (use d active in \<open>simp_all add: thread_active_def\<close>)
  then show ?thesis using enter return by (intro exI [of _ ?k1] exI [of _ ?k2]) simp
qed

lemma unlock_returns:
  assumes "on_cpu k i"
  shows "\<exists>k' status. ipc_step k [Unlocked i m status] k' \<and> on_cpu k' i"
proof -
  note d = on_cpuD [OF assms]
  obtain status mo k1 where u: "os_mutex_unlock (Some (ipc_mutexes k m)) k = (status, mo, k1)" by (metis prod_cases3)
  have out: "i \<notin> {j. ipc_activity k j = Locking m}" using d(3) by simp
  obtain x where x: "mo = Some x" and k1: "k1 = k \<or> (\<exists>j. task_blocked k j \<and> k1 = readied j k)"
    using unlock_ok [OF d(2) ipc_wfD(2) [OF d(1), of m] out u] by auto
  let ?k' = "k1\<lparr>ipc_mutexes := (ipc_mutexes k)(m := x)\<rparr>"
  have step: "ipc_step k [Unlocked i m status] ?k'" by (rule ipc_step.unlock [OF d(4,5,3)]) (use u x in simp)
  have "on_cpu ?k' i"
    by (rule on_cpu_step [OF step d(1)]) (use d k1 in \<open>auto simp: thread_active_def readied_def\<close>)
  then show ?thesis using step by blast
qed

lemma post_returns:
  assumes "on_cpu k i"
  shows "\<exists>k' status. ipc_step k [Posted i s status] k' \<and> on_cpu k' i"
proof -
  note d = on_cpuD [OF assms]
  obtain status xo k1 where u: "os_semaphore_post (Some (ipc_semaphores k s)) k = (status, xo, k1)" by (metis prod_cases3)
  have out: "i \<notin> {j. ipc_activity k j = Waiting s}" using d(3) by simp
  obtain x where x: "xo = Some x" and k1: "k1 = k \<or> (\<exists>j. task_blocked k j \<and> k1 = readied j k)"
    using post_ok [OF d(2) ipc_wfD(3) [OF d(1), of s] out u] by auto
  let ?k' = "k1\<lparr>ipc_semaphores := (ipc_semaphores k)(s := x)\<rparr>"
  have step: "ipc_step k [Posted i s status] ?k'" by (rule ipc_step.post [OF d(4,5,3)]) (use u x in simp)
  have "on_cpu ?k' i"
    by (rule on_cpu_step [OF step d(1)]) (use d k1 in \<open>auto simp: thread_active_def readied_def\<close>)
  then show ?thesis using step by blast
qed

section \<open>The steps of one task in a row\<close>

definition at_code :: "queue_system \<Rightarrow> nat \<Rightarrow> ipc \<Rightarrow> message_ring \<Rightarrow> code option \<Rightarrow> queue_system" where
  "at_code x i k q c = x\<lparr>sys_ipc := k, sys_ring := q, sys_code := (sys_code x)(i := c)\<rparr>"

lemma at_code_simps [simp]:
  "sys_ipc (at_code x i k q c) = k" "sys_ring (at_code x i k q c) = q" "sys_code (at_code x i k q c) i = c"
  "sys_code (at_code x i k q c) = (sys_code x)(i := c)"
  by (simp_all add: at_code_def)

lemma at_code_update [simp]:
  "(at_code x i k q c)\<lparr>sys_code := (sys_code x)(i := c')\<rparr> = at_code x i k q c'"
  "(at_code x i k q c)\<lparr>sys_ring := q', sys_code := (sys_code x)(i := c')\<rparr> = at_code x i k q' c'"
  "(at_code x i k q c)\<lparr>sys_ipc := k', sys_code := (sys_code x)(i := c')\<rparr> = at_code x i k' q c'"
  "(at_code x i k q c)\<lparr>sys_ipc := k'\<rparr> = at_code x i k' q c"
  by (simp_all add: at_code_def)

lemma at_queue_at_code: "on_cpu k i \<Longrightarrow> at_queue (at_code x i k q c) i"
  using on_cpuD [of k i] by (simp add: at_queue_def)

lemma run_get:
  assumes "queue_run x0 es (at_code x i k q (Some (Get f)))" "on_cpu k i"
  shows "queue_run x0 es (at_code x i k q (Some (f q)))"
  using queue_run.step [OF assms(1) queue_step.fetch [OF at_queue_at_code [OF assms(2)], of x q "Some (Get f)" f]] by simp

lemma run_copy_in:
  assumes "queue_run x0 es (at_code x i k q (Some (message_queue_copy_in is a m c)))" "on_cpu k i"
  shows "queue_run x0 es (at_code x i k (q\<lparr>mq_storage := fold (\<lambda>i s. s[a + i := m ! i]) is (mq_storage q)\<rparr>) (Some c))"
  using assms(1)
proof (induction "is" arbitrary: q)
  case (Cons j js)
  let ?c = "message_queue_copy_in js a m c"
  have "queue_run x0 (es @ []) (at_code x i k (q\<lparr>mq_storage := (mq_storage q)[a + j := m ! j]\<rparr>) (Some ?c))"
    using queue_run.step [OF Cons.prems queue_step.store
        [OF at_queue_at_code [OF assms(2)], of x q _ "a + j" "m ! j" ?c]] by simp
  then show ?case using Cons.IH [of "q\<lparr>mq_storage := (mq_storage q)[a + j := m ! j]\<rparr>"] by simp
qed simp

lemma run_copy_out:
  assumes "queue_run x0 es (at_code x i k q (Some (message_queue_copy_out is a b c)))" "on_cpu k i"
  shows "queue_run x0 es (at_code x i k q (Some (c (fold (\<lambda>i b. b[i := mq_storage q ! (a + i)]) is b))))"
  using assms(1)
proof (induction "is" arbitrary: b)
  case (Cons j js)
  then show ?case using run_get [OF _ assms(2)] by fastforce
qed simp

text \<open>An inner call that returns at once: the task enters the wait and leaves it, or only posts.\<close>

lemma run_wait:
  assumes "queue_run x0 es (at_code x i k q (Some (Call (Semaphore_wait s) f)))" "on_cpu k i"
    and "sem_count (ipc_semaphores k s) > 0"
    and "\<And>j. j \<noteq> i \<Longrightarrow> may_enter (sys_code x j) (ipc_activity k j)"
  shows "\<exists>k'. queue_run x0 es (at_code x i k' q (Some (f OS_SEMAPHORE_OK))) \<and> on_cpu k' i \<and>
    ipc_mutexes k' = ipc_mutexes k \<and> (\<forall>j. j \<noteq> i \<longrightarrow> ipc_activity k' j = ipc_activity k j)"
proof -
  from wait_free [OF assms(2,3)] obtain k1 k2 where
    k: "ipc_step k [] k1" "ipc_activity k1 = (ipc_activity k)(i := Waiting s)"
      "ipc_step k1 [Waited i s OS_SEMAPHORE_OK] k2" "on_cpu k2 i" "ipc_mutexes k2 = ipc_mutexes k" by blast
  let ?c = "Some (Call (Semaphore_wait s) f)"
  have wf: "ipc_wf k1" by (rule ipc_step_wf [OF k(1) on_cpuD(1) [OF assms(2)]])
  have "queue_run x0 (es @ []) ((at_code x i k q ?c)\<lparr>sys_ipc := k1\<rparr>)"
    by (rule queue_run.step [OF assms(1) queue_step.internal]) (use k(1,2) assms(4) in auto)
  then have "queue_run x0 es (at_code x i k1 q ?c)" by simp
  from queue_run.step [OF this queue_step.inner_call, of "Semaphore_wait s" i OS_SEMAPHORE_OK k2 f]
  have "queue_run x0 es (at_code x i k2 q (Some (f OS_SEMAPHORE_OK)))" using k(3) by simp
  then show ?thesis using k(2,4,5) ipc_step_return(3) [OF k(3) wf] by auto
qed

lemma run_lock:
  assumes "queue_run x0 es (at_code x i k q (Some (Call (Mutex_lock m) f)))" "on_cpu k i"
    and "mx_is_locked (ipc_mutexes k m) = 0"
    and "\<And>j. j \<noteq> i \<Longrightarrow> may_enter (sys_code x j) (ipc_activity k j)"
  shows "\<exists>k'. queue_run x0 es (at_code x i k' q (Some (f OS_MUTEX_OK))) \<and> on_cpu k' i"
proof -
  from lock_free [OF assms(2,3)] obtain k1 k2 where
    k: "ipc_step k [] k1" "ipc_activity k1 = (ipc_activity k)(i := Locking m)"
      "ipc_step k1 [Locked i m OS_MUTEX_OK] k2" "on_cpu k2 i" by blast
  let ?c = "Some (Call (Mutex_lock m) f)"
  have "queue_run x0 (es @ []) ((at_code x i k q ?c)\<lparr>sys_ipc := k1\<rparr>)"
    by (rule queue_run.step [OF assms(1) queue_step.internal]) (use k(1,2) assms(4) in auto)
  then have "queue_run x0 es (at_code x i k1 q ?c)" by simp
  from queue_run.step [OF this queue_step.inner_call, of "Mutex_lock m" i OS_MUTEX_OK k2 f]
  have "queue_run x0 es (at_code x i k2 q (Some (f OS_MUTEX_OK)))" using k(3) by simp
  then show ?thesis using k(4) by blast
qed

lemma run_unlock:
  assumes "queue_run x0 es (at_code x i k q (Some (Call (Mutex_unlock m) f)))" "on_cpu k i"
  shows "\<exists>k' status. queue_run x0 es (at_code x i k' q (Some (f status))) \<and> on_cpu k' i"
proof -
  obtain k' status where k: "ipc_step k [Unlocked i m status] k'" "on_cpu k' i"
    using unlock_returns [OF assms(2), of m] by blast
  from queue_run.step [OF assms(1) queue_step.inner_call, of "Mutex_unlock m" i status k' f]
  show ?thesis using k by auto
qed

lemma run_post:
  assumes "queue_run x0 es (at_code x i k q (Some (Call (Semaphore_post s) f)))" "on_cpu k i"
  shows "\<exists>k' status. queue_run x0 es (at_code x i k' q (Some (f status))) \<and> on_cpu k' i"
proof -
  obtain k' status where k: "ipc_step k [Posted i s status] k'" "on_cpu k' i"
    using post_returns [OF assms(2), of s] by blast
  from queue_run.step [OF assms(1) queue_step.inner_call, of "Semaphore_post s" i status k' f]
  show ?thesis using k by auto
qed

lemma run_return:
  assumes "queue_run x0 es (at_code x i k q (Some (Done status b)))" "on_cpu k i"
  shows "queue_run x0 (es @ [Returned i status b]) (at_code x i k q None)"
  using queue_run.step [OF assms(1) queue_step.return [OF at_queue_at_code [OF assms(2)], of x q _ status b]] by simp

text \<open>The end of both operations: unlock, post, return.\<close>

lemma run_finish:
  assumes "queue_run x0 es (at_code x i k q (Some (Call (Mutex_unlock m) (\<lambda>u. if u \<noteq> OS_MUTEX_OK then Done e b
      else Call (Semaphore_post s) (\<lambda>p. if p \<noteq> OS_SEMAPHORE_OK then Done e b else Done OS_MESSAGE_QUEUE_OK b)))))"
    and "on_cpu k i"
  shows "\<exists>status x'. queue_run x0 (es @ [Returned i status b]) x'"
proof -
  from run_unlock [OF assms] obtain k1 u where
    u: "queue_run x0 es (at_code x i k1 q (Some (if u \<noteq> OS_MUTEX_OK then Done e b
      else Call (Semaphore_post s) (\<lambda>p. if p \<noteq> 0 then Done e b else Done 0 b))))" "on_cpu k1 i" by blast
  show ?thesis
  proof (cases "u = 0")
    case True
    then have "queue_run x0 es (at_code x i k1 q (Some (Call (Semaphore_post s) (\<lambda>p. if p \<noteq> 0 then Done e b else Done 0 b))))"
      using u(1) by simp
    from run_post [OF this u(2)] obtain k2 p where
      p: "queue_run x0 es (at_code x i k2 q (Some (if p \<noteq> OS_SEMAPHORE_OK then Done e b else Done 0 b)))" "on_cpu k2 i" by blast
    then show ?thesis using run_return [of x0 es x i k2 q "if p \<noteq> 0 then e else 0" b] by (cases "p = 0") auto
  next
    case False
    then show ?thesis using u run_return [of x0 es x i k1 q e b] by auto
  qed
qed

section \<open>Calls that need not wait complete\<close>

lemma run_call:
  assumes "queue_run x0 es (at_code x i k q (Some (Get (\<lambda>q. if mq_is_initialized q \<noteq> 1 then d
      else Call (Semaphore_wait s) (\<lambda>w. if w \<noteq> OS_SEMAPHORE_OK then d1 else
        Call (Mutex_lock m) (\<lambda>l. if l \<noteq> OS_MUTEX_OK then d2 else c))))))"
    and "on_cpu k i" "mq_is_initialized q = 1" "sem_count (ipc_semaphores k s) > 0"
    and "mx_is_locked (ipc_mutexes k m) = 0" "\<And>j. j \<noteq> i \<Longrightarrow> may_enter (sys_code x j) (ipc_activity k j)"
  shows "\<exists>k'. queue_run x0 es (at_code x i k' q (Some c)) \<and> on_cpu k' i"
proof -
  let ?l = "Call (Mutex_lock m) (\<lambda>l. if l \<noteq> 0 then d2 else c)"
  have "queue_run x0 es (at_code x i k q (Some (Call (Semaphore_wait s) (\<lambda>w. if w \<noteq> 0 then d1 else ?l))))"
    using run_get [OF assms(1,2)] assms(3) by simp
  from run_wait [OF this assms(2,4,6)] obtain k1 where
    w: "queue_run x0 es (at_code x i k1 q (Some ?l))" "on_cpu k1 i" "ipc_mutexes k1 = ipc_mutexes k"
      "\<forall>j. j \<noteq> i \<longrightarrow> ipc_activity k1 j = ipc_activity k j" by auto
  show ?thesis using run_lock [OF w(1,2)] w(3,4) assms(5,6) by simp
qed

lemma enter_call:
  assumes "queue_run x0 es x" "queue_start q x0" "running_task (sys_ipc x) i"
    and "ipc_activity (sys_ipc x) i = Outside"
  shows "on_cpu (sys_ipc x) i" "at_queue x i" "mq_is_initialized (sys_ring x) = 1"
    "may_enter (sys_code x j) (ipc_activity (sys_ipc x) j)" "\<exists>ms. ring_holds (sys_ring x) ms"
proof -
  obtain ph ms where inv: "queue_inv ph ms x" using queue_run_inv [OF assms(2,1)] by blast
  note d = queue_invD [OF inv]
  show "on_cpu (sys_ipc x) i" "at_queue x i"
    using d(1) assms(3,4) running_taskD(2) [OF assms(3)]
    unfolding on_cpu_def at_queue_def running_task_def by blast+
  show "mq_is_initialized (sys_ring x) = 1" "may_enter (sys_code x j) (ipc_activity (sys_ipc x) j)" by (rule d(3,8))+
  show "\<exists>ms. ring_holds (sys_ring x) ms" using d(2) by blast
qed

lemma send_completes:
  assumes "queue_start q x0" "queue_run x0 es x" "running_task (sys_ipc x) i" "ipc_activity (sys_ipc x) i = Outside"
    and "sys_code x i = None" "length m = unat (mq_message_size (sys_ring x))"
    and "sem_count (ipc_semaphores (sys_ipc x) available_spaces) > 0"
      "mx_is_locked (ipc_mutexes (sys_ipc x) access_mutex) = OS_MUTEX_UNLOCKED"
  shows "\<exists>x'. queue_run x0 (es @ [Send_called i m, Enqueued i m, Returned i OS_MESSAGE_QUEUE_OK m]) x'"
proof -
  note en = enter_call [OF assms(2,1,3,4)]
  have idle: "i \<noteq> 0" using running_taskD(4) [OF assms(3)] by simp
  let ?r = "sys_ring x" and ?es = "es @ [Send_called i m]"
  have "queue_run x0 ?es (at_code x i (sys_ipc x) ?r (Some (os_message_queue_send False (Some m))))"
    using queue_run.step [OF assms(2) queue_step.send [OF en(2) assms(5,6)]] by (simp add: at_code_def)
  from run_call [OF this [unfolded send_code send_wait_code_def send_lock_code_def] en(1,3) assms(7,8) en(4)]
  obtain k where k: "queue_run x0 ?es (at_code x i k ?r (Some (send_address_code m)))" "on_cpu k i" by blast
  from run_copy_in [OF run_get [OF k(1) [unfolded send_address_code_def] k(2)] k(2)]
  obtain s where "queue_run x0 ?es (at_code x i k (?r\<lparr>mq_storage := s\<rparr>) (Some (send_next_code m)))" by blast
  note after = run_get [OF this [unfolded send_next_code_def] k(2)]
  from queue_run.step [OF after queue_step.enqueue [OF at_queue_at_code [OF k(2)]]]
  obtain r where "queue_run x0 (?es @ [Enqueued i m]) (at_code x i k r (Some (send_unlock_code m)))" by auto
  from run_finish [OF this [unfolded send_unlock_code_def send_post_code_def] k(2)]
  obtain status x' where r: "queue_run x0 ((?es @ [Enqueued i m]) @ [Returned i status m]) x'" by blast
  then have "status = OS_MESSAGE_QUEUE_OK" using run_statuses [OF assms(1) r, of i status m] idle by simp
  then show ?thesis using r by auto
qed

lemma receive_completes:
  assumes "queue_start q x0" "queue_run x0 es x" "running_task (sys_ipc x) i" "ipc_activity (sys_ipc x) i = Outside"
    and "sys_code x i = None" "length (b :: u8 list) = unat (mq_message_size (sys_ring x))"
    and "sem_count (ipc_semaphores (sys_ipc x) available_items) > 0"
      "mx_is_locked (ipc_mutexes (sys_ipc x) access_mutex) = OS_MUTEX_UNLOCKED"
  shows "\<exists>m x'. queue_run x0 (es @ [Receive_called i, Dequeued i m, Returned i OS_MESSAGE_QUEUE_OK m]) x'"
proof -
  note en = enter_call [OF assms(2,1,3,4)]
  have idle: "i \<noteq> 0" using running_taskD(4) [OF assms(3)] by simp
  let ?r = "sys_ring x" and ?es = "es @ [Receive_called i]"
  have "queue_run x0 ?es (at_code x i (sys_ipc x) ?r (Some (os_message_queue_receive False (Some b))))"
    using queue_run.step [OF assms(2) queue_step.receive [OF en(2) assms(5,6)]] by (simp add: at_code_def)
  from run_call [OF this [unfolded receive_code receive_wait_code_def receive_lock_code_def] en(1,3) assms(7,8) en(4)]
  obtain k where k: "queue_run x0 ?es (at_code x i k ?r (Some (receive_address_code b)))" "on_cpu k i" by blast
  from run_copy_out [OF run_get [OF k(1) [unfolded receive_address_code_def] k(2)] k(2)]
  obtain m where "queue_run x0 ?es (at_code x i k ?r (Some (receive_next_code m)))" by blast
  note after = run_get [OF this [unfolded receive_next_code_def] k(2)]
  from queue_run.step [OF after queue_step.dequeue [OF at_queue_at_code [OF k(2)]]]
  obtain r where "queue_run x0 (?es @ [Dequeued i m]) (at_code x i k r (Some (receive_unlock_code m)))" by auto
  from run_finish [OF this [unfolded receive_unlock_code_def receive_post_code_def] k(2)]
  obtain status x' where r: "queue_run x0 ((?es @ [Dequeued i m]) @ [Returned i status m]) x'" by blast
  then have "status = OS_MESSAGE_QUEUE_OK" using run_statuses [OF assms(1) r, of i status m] idle by simp
  then show ?thesis using r by auto
qed

text \<open>
  (C32) A call that need not wait completes: when a task runs outside any call, the mutex is
  free and a space (an item) is available, there is an execution in which its send (its
  receive) runs to the end, moves exactly one message and returns \<open>OS_MESSAGE_QUEUE_OK\<close>.
  Together with linearizability: the received message is the oldest one in the queue.
\<close>

theorem uncontended_calls_complete:
  assumes "queue_start q x0" "queue_run x0 es x" "running_task (sys_ipc x) i" "ipc_activity (sys_ipc x) i = Outside"
    and "sys_code x i = None" "length (m :: u8 list) = unat (mq_message_size (sys_ring x))"
    and "mx_is_locked (ipc_mutexes (sys_ipc x) access_mutex) = OS_MUTEX_UNLOCKED"
  shows "(sem_count (ipc_semaphores (sys_ipc x) available_spaces) > 0 \<longrightarrow>
      (\<exists>x'. queue_run x0 (es @ [Send_called i m, Enqueued i m, Returned i OS_MESSAGE_QUEUE_OK m]) x')) \<and>
    (sem_count (ipc_semaphores (sys_ipc x) available_items) > 0 \<longrightarrow>
      (\<exists>m' x'. queue_run x0 (es @ [Receive_called i, Dequeued i m', Returned i OS_MESSAGE_QUEUE_OK m']) x'))"
  using send_completes [OF assms(1-6) _ assms(7)] receive_completes [OF assms(1-6) _ assms(7)] by blast

section \<open>A concrete queue\<close>

definition demo_queue :: os_message_queue_t where
  "demo_queue = \<lparr>mq_storage = [0, 0, 0, 0], mq_message_size = 2, mq_capacity = 2, mq_head = 0, mq_tail = 0,
     mq_is_initialized = 1, mq_access_mutex = demo_mutex,
     mq_available_items = demo_semaphore\<lparr>sem_count := 0\<rparr>,
     mq_available_spaces = demo_semaphore\<lparr>sem_count := 2\<rparr>\<rparr>"

definition demo_system :: queue_system where
  "demo_system = \<lparr>sys_ipc = demo_ipc\<lparr>ipc_semaphores := (\<lambda>_. demo_semaphore)
       (0 := mq_available_items demo_queue, 1 := mq_available_spaces demo_queue)\<rparr>,
     sys_ring = message_ring.truncate demo_queue, sys_code = \<lambda>_. None\<rparr>"

lemma demo_queue_init:
  "os_message_queue_init (Some demo_queue) (Some [0, 0, 0, 0]) 2 2 = (OS_MESSAGE_QUEUE_OK, Some demo_queue)"
  by (simp add: os_message_queue_init_def os_mutex_init_def os_semaphore_init_def demo_queue_def demo_mutex_def
      demo_semaphore_def)

lemma demo_system_ipc:
  "ipc_wf (sys_ipc demo_system)" "running_task (sys_ipc demo_system) 1"
  "ipc_activity (sys_ipc demo_system) i = Outside"
proof -
  have "0 < task_total demo_ipc" using demo_kernel_tasks(1) by simp
  then have sems: "semaphore_ok (task_total demo_ipc) (task_blocked demo_ipc) {} (demo_semaphore\<lparr>sem_count := c\<rparr>)"
    if "c \<le> 2" for c
    using that by (simp add: semaphore_ok_def demo_semaphore_def)
  show wf: "ipc_wf (sys_ipc demo_system)"
    using demo_ipc_wf(1) sems [of 0] sems [of 2] by (simp add: demo_system_def demo_queue_def ipc_wf_def ipc_ok_def)
  show "running_task (sys_ipc demo_system) 1"
    using ipc_wfD(1) [OF wf] running_taskD(2) [OF demo_ipc_running]
    by (simp add: running_task_def thread_active_def demo_system_def)
  show "ipc_activity (sys_ipc demo_system) i = Outside" by (simp add: demo_system_def)
qed

lemma demo_system_start: "queue_start demo_queue demo_system"
  unfolding queue_start_def
proof (intro conjI)
  show "\<exists>q0 bytes size capacity. os_message_queue_init (Some q0) (Some bytes) size capacity =
      (OS_MESSAGE_QUEUE_OK, Some demo_queue) \<and> unat capacity * unat size \<le> length bytes \<and> length bytes < 2 ^ 32"
    using demo_queue_init by (intro exI [of _ demo_queue] exI [of _ "[0, 0, 0, 0]"] exI [of _ 2]) simp
qed (use demo_system_ipc(1,3) in \<open>simp_all add: demo_system_def demo_queue_def\<close>)

lemma demo_send: "\<exists>x. queue_run demo_system [Send_called 1 [7, 8], Enqueued 1 [7, 8], Returned 1 0 [7, 8]] x"
proof -
  have "queue_run demo_system [] demo_system" by (rule queue_run.start)
  from send_completes [OF demo_system_start this demo_system_ipc(2,3), of "[7, 8]"]
  show ?thesis by (simp add: demo_system_def demo_queue_def message_ring.truncate_def demo_mutex_def)
qed

theorem uncontended_calls_complete_witness:
  "\<exists>x'. queue_run demo_system [Send_called 1 [7, 8], Enqueued 1 [7, 8], Returned 1 OS_MESSAGE_QUEUE_OK [7, 8]] x'"
  using uncontended_calls_complete [OF demo_system_start queue_run.start demo_system_ipc(2,3), of "[7, 8]"]
  by (simp add: demo_system_def demo_queue_def message_ring.truncate_def demo_mutex_def)

theorem message_queue_linearizable_witness:
  "\<exists>x. queue_run demo_system [Send_called 1 [7, 8], Enqueued 1 [7, 8], Returned 1 0 [7, 8]] x \<and>
     ring_holds (sys_ring x) [[7, 8]]"
proof -
  obtain x where x: "queue_run demo_system [Send_called 1 [7, 8], Enqueued 1 [7, 8], Returned 1 0 [7, 8]] x"
    using demo_send by blast
  from message_queue_linearizable [OF demo_system_start this] x show ?thesis
    by (auto simp: demo_queue_def)
qed

theorem message_queue_fifo_witness:
  "\<exists>x ms. queue_run demo_system [Send_called 1 [7, 8], Enqueued 1 [7, 8], Returned 1 0 [7, 8]] x \<and>
     ring_holds (sys_ring x) ms \<and> ms = [[7, 8]] \<and> length ms \<le> 2"
proof -
  obtain x where x: "queue_run demo_system [Send_called 1 [7, 8], Enqueued 1 [7, 8], Returned 1 0 [7, 8]] x"
    using demo_send by blast
  from message_queue_fifo [OF demo_system_start this] x show ?thesis
    by (auto simp: demo_queue_def)
qed

text \<open>Task 1 receives from the empty queue and is BLOCKED.\<close>

lemma demo_receive:
  "\<exists>x. queue_run demo_system [Receive_called 1] x \<and> quiet x \<and> task_blocked (sys_ipc x) 1 \<and> sys_code x 1 \<noteq> None"
proof -
  note start = demo_system_start and ipc = demo_system_ipc
  let ?k = "sys_ipc demo_system" and ?r = "sys_ring demo_system"
  note en = enter_call [OF queue_run.start start ipc(2,3)]
  note d = on_cpuD [OF en(1)]
  have "length [0, 0 :: u8] = unat (mq_message_size ?r)" "sys_code demo_system 1 = None"
    by (simp_all add: demo_system_def demo_queue_def message_ring.truncate_def)
  from queue_run.step [OF queue_run.start queue_step.receive [OF en(2) this(2,1)]]
  have "queue_run demo_system [Receive_called 1] (at_code demo_system 1 ?k ?r (Some (os_message_queue_receive False (Some [0, 0]))))"
    by (simp add: at_code_def)
  from run_get [OF this [unfolded receive_code] en(1)]
  have run: "queue_run demo_system [Receive_called 1] (at_code demo_system 1 ?k ?r (Some (receive_wait_code [0, 0])))"
    using en(3) by simp
  let ?k1 = "?k\<lparr>ipc_activity := (ipc_activity ?k)(1 := Waiting 0)\<rparr>"
  have enter: "ipc_step ?k [] ?k1"
    by (rule ipc_step.wait_call [OF d(4,5,3)]) (use prologue_ok(2) [OF d(1,5), of 0] in simp)
  have active: "thread_active ?k1" using d(4) by (simp add: thread_active_def)
  have r1: "running_task ?k1 1"
    using ipc_wfD(1) [OF ipc_step_wf [OF enter d(1)]] d(5) active by (simp add: running_task_def)
  have empty: "sem_is_initialized (ipc_semaphores ?k 0) = 1" "sem_count (ipc_semaphores ?k 0) = 0"
      "\<not> semaphore_granted (ipc_semaphores ?k 0) 1"
    by (simp_all add: demo_system_def demo_queue_def demo_semaphore_def)
  then obtain s where pass: "semaphore_wait_iteration (g_current_task_id ?k1) (ipc_semaphores ?k1 0) ?k1 =
      (Again, s, blocked_caller 1 ?k1)"
    using semaphore_wait_iteration_eq [OF r1, of "ipc_semaphores ?k 0"] running_taskD(3) [OF r1] by simp
  from ipc_step.wait_pass [OF active _ _ pass] d(5) obtain k2 where
    k2: "ipc_step ?k1 [] k2" "task_blocked k2 = task_blocked (blocked_caller 1 ?k1)"
      "ipc_activity k2 = (ipc_activity ?k)(1 := Waiting 0)" by fastforce
  let ?c = "Some (receive_wait_code [0, 0])"
  have "queue_run demo_system ([Receive_called 1] @ []) ((at_code demo_system 1 ?k ?r ?c)\<lparr>sys_ipc := ?k1\<rparr>)"
    by (rule queue_run.step [OF run queue_step.internal]) (use enter en(4) in \<open>auto simp: receive_wait_code_def\<close>)
  then have run1: "queue_run demo_system [Receive_called 1] (at_code demo_system 1 ?k1 ?r ?c)" by simp
  have "queue_run demo_system ([Receive_called 1] @ []) ((at_code demo_system 1 ?k1 ?r ?c)\<lparr>sys_ipc := k2\<rparr>)"
    by (rule queue_run.step [OF run1 queue_step.internal]) (use k2 en(4) in \<open>auto simp: receive_wait_code_def\<close>)
  then have "queue_run demo_system [Receive_called 1] (at_code demo_system 1 k2 ?r ?c)" by simp
  moreover have "task_blocked k2 1" using k2(2) blocked_caller_blocked [OF r1] by simp
  moreover have "sys_code demo_system j = None" for j by (simp add: demo_system_def)
  ultimately show ?thesis
    by (intro exI [of _ "at_code demo_system 1 k2 ?r ?c"]) (simp add: quiet_def)
qed

theorem blocked_queue_is_empty_or_full_witness:
  "\<exists>x. queue_run demo_system [Receive_called 1] x \<and> ipc_activity (sys_ipc x) 1 = Waiting available_items"
proof -
  obtain x where x: "queue_run demo_system [Receive_called 1] x" "quiet x" "task_blocked (sys_ipc x) 1" "sys_code x 1 \<noteq> None"
    using demo_receive by blast
  from blocked_queue_is_empty_or_full [OF demo_system_start x] x(1) show ?thesis by (auto simp: demo_queue_def)
qed

end
