(* ===== verification/Board.thy ===== *)
theory Board
  imports Kernel_Prelude "HOL-Library.Char_ord"
begin

text \<open>
  The memory-mapped registers of the TM4C123 as the drivers use them: a register file, indexed
  by address, and the characters that were written to the UART's data register. A polling loop
  of the code is \<open>wait_while\<close>; what the hardware does to its status registers between two polls
  is the parameter \<open>hw\<close>, and a loop that never ends is \<open>None\<close>.
\<close>

section \<open>Registers\<close>

record board =
  mmio :: "u32 \<Rightarrow> u32"
  uart_output :: string

definition reg_write :: "u32 \<Rightarrow> u32 \<Rightarrow> board \<Rightarrow> board" where
  "reg_write a v b = b\<lparr>mmio := (mmio b)(a := v)\<rparr>"

definition reg_or :: "u32 \<Rightarrow> u32 \<Rightarrow> board \<Rightarrow> board" where
  "reg_or a v b = reg_write a (mmio b a OR v) b"

definition reg_clear :: "u32 \<Rightarrow> u32 \<Rightarrow> board \<Rightarrow> board" where
  "reg_clear a v b = reg_write a (mmio b a AND NOT v) b"

definition reg_xor :: "u32 \<Rightarrow> u32 \<Rightarrow> board \<Rightarrow> board" where
  "reg_xor a v b = reg_write a (mmio b a XOR v) b"

lemmas reg_defs = reg_write_def reg_or_def reg_clear_def reg_xor_def

lemma reg_output [simp]:
  "uart_output (reg_write a v b) = uart_output b" "uart_output (reg_or a v b) = uart_output b"
  "uart_output (reg_clear a v b) = uart_output b" "uart_output (reg_xor a v b) = uart_output b"
  by (simp_all add: reg_defs)

lemma mmio_reg [simp]:
  "mmio (reg_write a v b) = (mmio b)(a := v)" "mmio (reg_or a v b) = (mmio b)(a := mmio b a OR v)"
  "mmio (reg_clear a v b) = (mmio b)(a := mmio b a AND NOT v)"
  "mmio (reg_xor a v b) = (mmio b)(a := mmio b a XOR v)"
  by (simp_all add: reg_defs)

text \<open>The registers that the drivers poll.\<close>

abbreviation (input) SYSCTL_RIS_R :: u32 where "SYSCTL_RIS_R \<equiv> 0x400FE050"
abbreviation (input) SYSCTL_PRGPIO_R :: u32 where "SYSCTL_PRGPIO_R \<equiv> 0x400FEA08"
abbreviation (input) SYSCTL_PRUART_R :: u32 where "SYSCTL_PRUART_R \<equiv> 0x400FEA18"
abbreviation (input) UART0_FR_R :: u32 where "UART0_FR_R \<equiv> 0x4000C018"

abbreviation (input) SYSCTL_RCGCGPIO_R :: u32 where "SYSCTL_RCGCGPIO_R \<equiv> 0x400FE608"
abbreviation (input) SYSCTL_RCGCUART_R :: u32 where "SYSCTL_RCGCUART_R \<equiv> 0x400FE618"

definition status_registers :: "u32 set" where
  "status_registers = {SYSCTL_RIS_R, SYSCTL_PRGPIO_R, SYSCTL_PRUART_R, UART0_FR_R}"

text \<open>
  The documented behaviour that the drivers rely on: the hardware changes only status
  registers on its own; a peripheral whose clock is enabled becomes ready; the transmit FIFO
  drains.
\<close>

definition only_status :: "(board \<Rightarrow> board) \<Rightarrow> bool" where
  "only_status hw \<longleftrightarrow> (\<forall>b. uart_output (hw b) = uart_output b \<and>
     (\<forall>a. a \<notin> status_registers \<longrightarrow> mmio (hw b) a = mmio b a))"

definition clocks_start :: "(board \<Rightarrow> board) \<Rightarrow> bool" where
  "clocks_start hw \<longleftrightarrow> (\<forall>b i. (bit (mmio b SYSCTL_RCGCGPIO_R) i \<longrightarrow>
       (\<exists>n. bit (mmio ((hw ^^ n) b) SYSCTL_PRGPIO_R) i)) \<and>
     (bit (mmio b SYSCTL_RCGCUART_R) i \<longrightarrow> (\<exists>n. bit (mmio ((hw ^^ n) b) SYSCTL_PRUART_R) i)))"

definition fifo_drains :: "(board \<Rightarrow> board) \<Rightarrow> bool" where
  "fifo_drains hw \<longleftrightarrow> (\<forall>b. \<exists>n. \<not> bit (mmio ((hw ^^ n) b) UART0_FR_R) 5)"

section \<open>Polling\<close>

partial_function (option) wait_while ::
  "(board \<Rightarrow> board) \<Rightarrow> u32 \<Rightarrow> (u32 \<Rightarrow> bool) \<Rightarrow> board \<Rightarrow> board option"
where
  "wait_while hw a busy b = (if busy (mmio b a) then wait_while hw a busy (hw b) else Some b)"

text \<open>Two states that differ in status registers only.\<close>

definition same_board :: "board \<Rightarrow> board \<Rightarrow> bool" where
  "same_board b b' \<longleftrightarrow> uart_output b' = uart_output b \<and> (\<forall>a. a \<notin> status_registers \<longrightarrow> mmio b' a = mmio b a)"

lemma same_board_refl [simp]: "same_board b b"
  by (simp add: same_board_def)

lemma same_board_iterate: "only_status hw \<Longrightarrow> same_board b ((hw ^^ n) b)"
  by (induction n) (simp_all add: same_board_def only_status_def)

text \<open>The loop ends at the first poll that finds the register ready.\<close>

lemma wait_while_ends:
  assumes "\<not> busy (mmio ((hw ^^ n) b) a)"
  shows "\<exists>m \<le> n. wait_while hw a busy b = Some ((hw ^^ m) b) \<and> \<not> busy (mmio ((hw ^^ m) b) a)"
  using assms
proof (induction n arbitrary: b)
  case 0
  then show ?case by (simp add: wait_while.simps)
next
  case (Suc n)
  show ?case
  proof (cases "busy (mmio b a)")
    case True
    have "\<not> busy (mmio ((hw ^^ n) (hw b)) a)" using Suc.prems by (simp add: funpow_swap1)
    from Suc.IH [OF this] obtain m where
      m: "m \<le> n" "wait_while hw a busy (hw b) = Some ((hw ^^ m) (hw b))" "\<not> busy (mmio ((hw ^^ m) (hw b)) a)"
      by blast
    then show ?thesis
      using True by (intro exI [of _ "Suc m"]) (simp add: wait_while.simps [of _ _ _ b] funpow_swap1)
  next
    case False
    then show ?thesis by (intro exI [of _ 0]) (simp add: wait_while.simps)
  qed
qed

lemma wait_while_same:
  assumes "only_status hw" "\<exists>n. \<not> busy (mmio ((hw ^^ n) b) a)"
  shows "\<exists>b'. wait_while hw a busy b = Some b' \<and> same_board b b' \<and> \<not> busy (mmio b' a)"
  using wait_while_ends [of busy] assms same_board_iterate [OF assms(1)] by blast

section \<open>A concrete board\<close>

definition demo_hardware :: "board \<Rightarrow> board" where
  "demo_hardware b = b\<lparr>mmio := (mmio b)(SYSCTL_RIS_R := 0x40, SYSCTL_PRGPIO_R := mmio b SYSCTL_RCGCGPIO_R,
     SYSCTL_PRUART_R := mmio b SYSCTL_RCGCUART_R, UART0_FR_R := 0)\<rparr>"

definition demo_board :: board where
  "demo_board = \<lparr>mmio = \<lambda>_. 0, uart_output = []\<rparr>"

lemma demo_hardware_ok: "only_status demo_hardware" "clocks_start demo_hardware" "fifo_drains demo_hardware"
proof -
  show "only_status demo_hardware" by (simp add: only_status_def demo_hardware_def status_registers_def)
  show "clocks_start demo_hardware"
    unfolding clocks_start_def by (intro allI conjI impI exI [of _ 1]) (simp_all add: demo_hardware_def)
  show "fifo_drains demo_hardware"
    unfolding fifo_drains_def by (intro allI exI [of _ 1]) (simp add: demo_hardware_def)
qed

end
