(* ===== verification/Console.thy ===== *)
theory Console
  imports Board
begin

text \<open>
  The UART driver (\<open>drivers/uart.c\<close>) and the kernel's console output (\<open>kernel/printk.c\<close>).
  A C string is a list of characters, read up to its first NUL.
\<close>

section \<open>Registers of uart.c\<close>

abbreviation (input) SYSCTL_UART0_CLOCK :: u32 where "SYSCTL_UART0_CLOCK \<equiv> 1"
abbreviation (input) SYSCTL_GPIOA_CLOCK :: u32 where "SYSCTL_GPIOA_CLOCK \<equiv> 1"
abbreviation (input) UART0_BAUD_RATE :: u32 where "UART0_BAUD_RATE \<equiv> 115200"
abbreviation (input) UART0_DR_R :: u32 where "UART0_DR_R \<equiv> 0x4000C000"
abbreviation (input) UART0_IBRD_R :: u32 where "UART0_IBRD_R \<equiv> 0x4000C024"
abbreviation (input) UART0_FBRD_R :: u32 where "UART0_FBRD_R \<equiv> 0x4000C028"
abbreviation (input) UART0_LCRH_R :: u32 where "UART0_LCRH_R \<equiv> 0x4000C02C"
abbreviation (input) UART0_CTL_R :: u32 where "UART0_CTL_R \<equiv> 0x4000C030"
abbreviation (input) UART0_CC_R :: u32 where "UART0_CC_R \<equiv> 0x4000CFC8"
abbreviation (input) GPIO_PORTA_AFSEL_R :: u32 where "GPIO_PORTA_AFSEL_R \<equiv> 0x40004420"
abbreviation (input) GPIO_PORTA_DEN_R :: u32 where "GPIO_PORTA_DEN_R \<equiv> 0x4000451C"
abbreviation (input) GPIO_PORTA_AMSEL_R :: u32 where "GPIO_PORTA_AMSEL_R \<equiv> 0x40004528"
abbreviation (input) GPIO_PORTA_PCTL_R :: u32 where "GPIO_PORTA_PCTL_R \<equiv> 0x4000452C"
abbreviation (input) GPIO_PA0 :: u32 where "GPIO_PA0 \<equiv> 0x1"
abbreviation (input) GPIO_PA1 :: u32 where "GPIO_PA1 \<equiv> 0x2"
abbreviation (input) UART_FR_TXFF :: u32 where "UART_FR_TXFF \<equiv> 0x20"
abbreviation (input) UART_CTL_UARTEN :: u32 where "UART_CTL_UARTEN \<equiv> 0x1"
abbreviation (input) UART_CTL_TXE :: u32 where "UART_CTL_TXE \<equiv> 0x100"
abbreviation (input) UART_CTL_RXE :: u32 where "UART_CTL_RXE \<equiv> 0x200"
abbreviation (input) UART_LCRH_FEN :: u32 where "UART_LCRH_FEN \<equiv> 0x10"
abbreviation (input) UART_LCRH_WLEN_8 :: u32 where "UART_LCRH_WLEN_8 \<equiv> 0x60"

section \<open>uart.c\<close>

text \<open>The baud rate divisors that \<open>uart0_init\<close> computes: integer part and 64ths.\<close>

definition uart0_divisors :: "u32 \<Rightarrow> u32 \<times> u32" where
  "uart0_divisors system_clock_hz =
     (let baud_divisor = 16 * UART0_BAUD_RATE;
          integer_divisor = system_clock_hz div baud_divisor;
          remainder = system_clock_hz mod baud_divisor;
          fractional_divisor = (remainder * 64 + baud_divisor div 2) div baud_divisor
      in if fractional_divisor = 64 then (integer_divisor + 1, 0)
         else (integer_divisor, fractional_divisor))"

text \<open>The argument \<open>clock_hz\<close> is the value of \<open>system_get_clock_hz()\<close>.\<close>

definition uart0_init :: "(board \<Rightarrow> board) \<Rightarrow> u32 \<Rightarrow> board \<Rightarrow> board option" where
  "uart0_init hw clock_hz b =
     (let b1 = reg_or SYSCTL_RCGCUART_R SYSCTL_UART0_CLOCK b;
          b2 = reg_or SYSCTL_RCGCGPIO_R SYSCTL_GPIOA_CLOCK b1
      in
      Option.bind (wait_while hw SYSCTL_PRUART_R (\<lambda>v. v AND SYSCTL_UART0_CLOCK = 0) b2) (\<lambda>b3.
      Option.bind (wait_while hw SYSCTL_PRGPIO_R (\<lambda>v. v AND SYSCTL_GPIOA_CLOCK = 0) b3) (\<lambda>b4.
        let b5 = reg_clear UART0_CTL_R UART_CTL_UARTEN b4;
            b6 = reg_write UART0_CC_R 0 b5;
            (integer_divisor, fractional_divisor) = uart0_divisors clock_hz;
            b7 = reg_write UART0_IBRD_R integer_divisor b6;
            b8 = reg_write UART0_FBRD_R fractional_divisor b7;
            b9 = reg_write UART0_LCRH_R (UART_LCRH_WLEN_8 OR UART_LCRH_FEN) b8;
            b10 = reg_or GPIO_PORTA_AFSEL_R (GPIO_PA0 OR GPIO_PA1) b9;
            b11 = reg_clear GPIO_PORTA_PCTL_R 0x000000FF b10;
            b12 = reg_or GPIO_PORTA_PCTL_R 0x00000011 b11;
            b13 = reg_clear GPIO_PORTA_AMSEL_R (GPIO_PA0 OR GPIO_PA1) b12;
            b14 = reg_or GPIO_PORTA_DEN_R (GPIO_PA0 OR GPIO_PA1) b13
        in Some (reg_write UART0_CTL_R (UART_CTL_UARTEN OR UART_CTL_TXE OR UART_CTL_RXE) b14))))"

text \<open>A write to the data register hands the character to the transmitter.\<close>

definition uart0_write_char :: "(board \<Rightarrow> board) \<Rightarrow> char \<Rightarrow> board \<Rightarrow> board option" where
  "uart0_write_char hw c b =
     Option.bind (wait_while hw UART0_FR_R (\<lambda>v. v AND UART_FR_TXFF \<noteq> 0) b) (\<lambda>b1.
       Some ((reg_write UART0_DR_R (of_char c) b1)\<lparr>uart_output := uart_output b1 @ [c]\<rparr>))"

fun uart0_write_string :: "(board \<Rightarrow> board) \<Rightarrow> string \<Rightarrow> board \<Rightarrow> board option" where
  "uart0_write_string hw [] b = Some b"
| "uart0_write_string hw (c # str) b =
     (if c = CHR 0x00 then Some b
      else
        Option.bind (if c = CHR 0x0A then uart0_write_char hw (CHR 0x0D) b else Some b) (\<lambda>b1.
        Option.bind (uart0_write_char hw c b1) (\<lambda>b2. uart0_write_string hw str b2)))"

section \<open>printk.c\<close>

definition kernel_print :: "(board \<Rightarrow> board) \<Rightarrow> string \<Rightarrow> board \<Rightarrow> board option" where
  "kernel_print hw msg b = uart0_write_string hw msg b"

text \<open>The first loop of \<open>kernel_print_uint32\<close> fills the buffer from the last digit on.\<close>

function digit_loop :: "u32 \<Rightarrow> char list \<Rightarrow> u32 \<Rightarrow> char list \<times> u32" where
  "digit_loop value buffer index =
     (if value > 0
      then digit_loop (value div 10) (buffer[unat index := char_of (unat (0x30 + value mod 10))]) (index + 1)
      else (buffer, index))"
  by auto
termination
proof (relation "measure (\<lambda>(value, buffer, index). unat value)")
  fix v :: u32 and b :: "char list" and i :: u32
  assume "v > 0"
  then show "((v div 10, b[unat i := char_of (unat (0x30 + v mod 10))], i + 1), v, b, i)
      \<in> measure (\<lambda>(value, buffer, index). unat value)"
    by (simp add: unat_div_distrib unat_gt_0 word_gt_0)
qed simp

declare digit_loop.simps [simp del]

text \<open>The second loop writes it backwards.\<close>

fun print_buffer :: "(board \<Rightarrow> board) \<Rightarrow> char list \<Rightarrow> nat \<Rightarrow> board \<Rightarrow> board option" where
  "print_buffer hw buffer 0 b = Some b"
| "print_buffer hw buffer (Suc index) b =
     Option.bind (uart0_write_char hw (buffer ! index) b) (print_buffer hw buffer index)"

text \<open>The eleven characters of the buffer are uninitialised: they are an argument.\<close>

definition kernel_print_uint32 :: "(board \<Rightarrow> board) \<Rightarrow> char list \<Rightarrow> u32 \<Rightarrow> board \<Rightarrow> board option" where
  "kernel_print_uint32 hw buffer value b =
     (if value = 0 then uart0_write_char hw (CHR ''0'') b
      else case digit_loop value buffer 0 of (buffer1, index) \<Rightarrow> print_buffer hw buffer1 (unat index) b)"

end
