(* ===== verification/Console_Properties.thy ===== *)
theory Console_Properties
  imports Console
begin

text \<open>
  Properties of the console: the programmed baud rate is the closest one, strings are written
  completely with line ends translated, numbers in decimal.
\<close>

section \<open>Writing\<close>

lemma and_bit_tests:
  "v AND 0x20 \<noteq> 0 \<longleftrightarrow> bit v 5" "v AND 1 = 0 \<longleftrightarrow> \<not> bit v 0" "v AND 0x40 = 0 \<longleftrightarrow> \<not> bit v 6" for v :: u32
  using and_task_bit [of 5 v] and_task_bit [of 0 v] and_task_bit [of 6 v] by (simp_all add: task_bit_def)

text \<open>The output grew by \<open>s\<close>, and nothing but status registers and the data register changed.\<close>

definition wrote :: "board \<Rightarrow> string \<Rightarrow> board \<Rightarrow> bool" where
  "wrote b s b' \<longleftrightarrow> uart_output b' = uart_output b @ s \<and>
     (\<forall>a. a \<notin> status_registers \<longrightarrow> a \<noteq> UART0_DR_R \<longrightarrow> mmio b' a = mmio b a)"

lemma wrote_refl [simp]: "wrote b [] b"
  by (simp add: wrote_def)

lemma wrote_trans: "wrote b s b' \<Longrightarrow> wrote b' s' b'' \<Longrightarrow> wrote b (s @ s') b''"
  by (simp add: wrote_def)

lemma uart0_write_char_wrote:
  assumes "only_status hw" "fifo_drains hw"
  shows "\<exists>b'. uart0_write_char hw c b = Some b' \<and> wrote b [c] b'"
proof -
  have "\<exists>n. \<not> mmio ((hw ^^ n) b) UART0_FR_R AND UART_FR_TXFF \<noteq> 0"
    unfolding and_bit_tests using assms(2) by (simp add: fifo_drains_def)
  from wait_while_same [OF assms(1) this] obtain b1 where
    "wait_while hw UART0_FR_R (\<lambda>v. v AND UART_FR_TXFF \<noteq> 0) b = Some b1" "same_board b b1" by blast
  then show ?thesis by (simp add: uart0_write_char_def wrote_def same_board_def)
qed

text \<open>What a terminal receives for a C string.\<close>

fun crlf :: "string \<Rightarrow> string" where
  "crlf [] = []"
| "crlf (c # str) = (if c = CHR 0x00 then [] else if c = CHR 0x0A then CHR 0x0D # c # crlf str else c # crlf str)"

lemma uart0_write_string_wrote:
  assumes "only_status hw" "fifo_drains hw"
  shows "\<exists>b'. uart0_write_string hw str b = Some b' \<and> wrote b (crlf str) b'"
proof (induction str arbitrary: b)
  case (Cons c str)
  have char: "\<exists>b'. uart0_write_char hw d b = Some b' \<and> wrote b [d] b'" for d b
    by (rule uart0_write_char_wrote [OF assms])
  obtain b1 where b1: "(if c = CHR 0x0A then uart0_write_char hw (CHR 0x0D) b else Some b) = Some b1"
      "wrote b (if c = CHR 0x0A then [CHR 0x0D] else []) b1"
    using char [of "CHR 0x0D" b] by (cases "c = CHR 0x0A") auto
  obtain b2 where b2: "uart0_write_char hw c b1 = Some b2" "wrote b1 [c] b2" using char by blast
  obtain b3 where b3: "uart0_write_string hw str b2 = Some b3" "wrote b2 (crlf str) b3" using Cons.IH by blast
  show ?case
    using b1(1) b2(1) b3(1) wrote_trans [OF wrote_trans [OF b1(2) b2(2)] b3(2)] by auto
qed simp

section \<open>Decimal numbers\<close>

text \<open>The reference: decimal digits, most significant first.\<close>

fun decimal :: "nat \<Rightarrow> string" where
  "decimal n = (if n < 10 then [char_of (48 + n)] else decimal (n div 10) @ [char_of (48 + n mod 10)])"

declare decimal.simps [simp del]

definition decimal_value :: "string \<Rightarrow> nat" where
  "decimal_value s = foldl (\<lambda>n c. 10 * n + (of_char c - 48)) 0 s"

lemma decimal_value_append: "decimal_value (s @ [c]) = 10 * decimal_value s + (of_char c - 48)"
  by (simp add: decimal_value_def)

lemma digit_char: "d < 10 \<Longrightarrow> of_char (char_of (48 + d) :: char) = (48 + d :: nat)"
  by simp

lemma decimal_round_trip: "decimal_value (decimal n) = n"
proof (induction n rule: decimal.induct)
  case (1 n)
  show ?case
  proof (cases "n < 10")
    case True
    then show ?thesis by (simp add: decimal.simps [of n] decimal_value_def)
  next
    case False
    then show ?thesis
      using 1 [OF False] digit_char [of "n mod 10"] by (simp add: decimal.simps [of n] decimal_value_append)
  qed
qed

lemma decimal_length: "n < 10 ^ Suc k \<Longrightarrow> length (decimal n) \<le> Suc k"
proof (induction k arbitrary: n)
  case 0
  then show ?case by (simp add: decimal.simps)
next
  case (Suc k)
  have "n div 10 < 10 ^ Suc k" using Suc.prems by (simp add: less_mult_imp_div_less mult.commute)
  from Suc.IH [OF this] show ?case by (simp add: decimal.simps [of n])
qed

lemma decimal_head: "n \<noteq> 0 \<Longrightarrow> hd (decimal n) \<noteq> CHR ''0''"
proof (induction n rule: decimal.induct)
  case (1 n)
  show ?case
  proof (cases "n < 10")
    case True
    have "(char_of (48 + n) :: char) \<noteq> CHR ''0''"
    proof
      assume "(char_of (48 + n) :: char) = CHR ''0''"
      from arg_cong [OF this, of "of_char :: char \<Rightarrow> nat"] show False
        unfolding digit_char [OF True] using "1.prems" by simp
    qed
    then show ?thesis using True by (simp add: decimal.simps [of n])
  next
    case False
    have "decimal m \<noteq> []" for m by (simp add: decimal.simps [of m])
    moreover have "n div 10 \<noteq> 0" using False by simp
    ultimately show ?thesis using "1.IH" [OF False] False by (simp add: decimal.simps [of n])
  qed
qed

lemma digit_loop_spec:
  assumes "v > 0" "unat i + length (decimal (unat v)) \<le> length buf" "length buf < 2 ^ 32"
  shows "case digit_loop v buf i of (buf', j) \<Rightarrow> length buf' = length buf \<and>
    unat j = unat i + length (decimal (unat v)) \<and> take (unat i) buf' = take (unat i) buf \<and>
    rev (drop (unat i) (take (unat j) buf')) = decimal (unat v)"
  using assms
proof (induction v buf i rule: digit_loop.induct)
  case (1 v buf i)
  let ?d = "char_of (unat (0x30 + v mod 10)) :: char" and ?n = "unat v"
  let ?buf = "buf[unat i := ?d]"
  have d: "?d = char_of (48 + ?n mod 10)" by (simp add: unat_word_ariths unat_mod_distrib)
  have dec: "decimal ?n = (if ?n < 10 then [] else decimal (?n div 10)) @ [?d]"
    unfolding d by (subst decimal.simps) simp
  have i: "unat i < length buf" using "1.prems"(2) dec by (auto split: if_splits)
  then have step: "unat (i + 1) = Suc (unat i)" using "1.prems"(3) by (simp add: unat_word_ariths)
  have loop: "digit_loop v buf i = digit_loop (v div 10) ?buf (i + 1)"
    using "1.prems"(1) by (simp add: digit_loop.simps [of v])
  have div: "unat (v div 10) = ?n div 10" by (simp add: unat_div_distrib)
  show ?case
  proof (cases "?n < 10")
    case True
    then have "v div 10 = 0" using div by (simp add: unat_eq_0 [symmetric])
    then have "digit_loop v buf i = (?buf, i + 1)" using loop by (simp add: digit_loop.simps [of 0])
    then show ?thesis using True dec i step by (simp add: take_Suc_conv_app_nth)
  next
    case False
    then have pos: "v div 10 > 0" using div by (simp add: word_gt_0 unat_eq_0 [symmetric])
    have room: "unat (i + 1) + length (decimal (unat (v div 10))) \<le> length ?buf"
      using "1.prems"(2) dec False step div by simp
    obtain buf' j where r: "digit_loop (v div 10) ?buf (i + 1) = (buf', j)" by fastforce
    have len: "length ?buf < 2 ^ 32" using "1.prems"(3) by simp
    have
      "length buf' = length buf \<and> unat j = Suc (unat i) + length (decimal (?n div 10)) \<and>
        take (Suc (unat i)) buf' = take (Suc (unat i)) ?buf \<and>
        rev (drop (Suc (unat i)) (take (unat j) buf')) = decimal (?n div 10)"
      using "1.IH" [OF "1.prems"(1) pos room len] unfolding r step div prod.case length_list_update by blast
    then have ih: "length buf' = length buf" "unat j = Suc (unat i) + length (decimal (?n div 10))"
        "take (Suc (unat i)) buf' = take (Suc (unat i)) ?buf"
        "rev (drop (Suc (unat i)) (take (unat j) buf')) = decimal (?n div 10)"
      by blast+
    have nth: "buf' ! unat i = ?d"
      using arg_cong [OF ih(3), of "\<lambda>xs. xs ! unat i"] i ih(1) by simp
    have before: "take (unat i) buf' = take (unat i) buf"
      using arg_cong [OF ih(3), of "take (unat i)"] by simp
    have "drop (unat i) (take (unat j) buf') = ?d # drop (Suc (unat i)) (take (unat j) buf')"
      using ih(1,2) i nth Cons_nth_drop_Suc [of "unat i" "take (unat j) buf'"] by simp
    then show ?thesis using loop r ih before dec False by simp
  qed
qed

lemma print_buffer_wrote:
  assumes "only_status hw" "fifo_drains hw" "n \<le> length buf"
  shows "\<exists>b'. print_buffer hw buf n b = Some b' \<and> wrote b (rev (take n buf)) b'"
  using assms(3)
proof (induction n arbitrary: b)
  case (Suc n)
  obtain b1 where b1: "uart0_write_char hw (buf ! n) b = Some b1" "wrote b [buf ! n] b1"
    using uart0_write_char_wrote [OF assms(1,2)] by blast
  obtain b2 where b2: "print_buffer hw buf n b1 = Some b2" "wrote b1 (rev (take n buf)) b2"
    using Suc.IH [of b1] Suc.prems by auto
  show ?case
    using b1(1) b2(1) wrote_trans [OF b1(2) b2(2)] Suc.prems by (simp add: take_Suc_conv_app_nth)
qed simp

lemma decimal_u32_length: "length (decimal (unat v)) \<le> 10" for v :: u32
  using decimal_length [of "unat v" 9] unat_u32_less [of v] by simp

lemma kernel_print_uint32_wrote:
  assumes "only_status hw" "fifo_drains hw" "length buf = 11"
  shows "\<exists>b'. kernel_print_uint32 hw buf v b = Some b' \<and> wrote b (decimal (unat v)) b'"
proof (cases "v = 0")
  case True
  have "(char_of (48 :: nat) :: char) = CHR ''0''"
    by (subst of_char_eq_iff [symmetric, where 'a = nat]) simp
  then have "decimal 0 = ''0''" by (simp add: decimal.simps [of 0])
  then show ?thesis
    using uart0_write_char_wrote [OF assms(1,2), of "CHR ''0''" b] True by (simp add: kernel_print_uint32_def)
next
  case False
  obtain buf' j where r: "digit_loop v buf 0 = (buf', j)" by fastforce
  have "v > 0" "unat (0 :: u32) + length (decimal (unat v)) \<le> length buf" "length buf < 2 ^ 32"
    using False decimal_u32_length [of v] assms(3) by (simp_all add: word_gt_0)
  from digit_loop_spec [OF this, unfolded r prod.case unat_0 add_0_left drop_0]
  have d: "length buf' = length buf" "unat j = length (decimal (unat v))" "rev (take (unat j) buf') = decimal (unat v)"
    by blast+
  have "\<exists>b'. print_buffer hw buf' (unat j) b = Some b' \<and> wrote b (rev (take (unat j) buf')) b'"
    by (rule print_buffer_wrote [OF assms(1,2)]) (use d(1,2) assms(3) decimal_u32_length [of v] in simp)
  then show ?thesis unfolding d(3) using False r by (simp add: kernel_print_uint32_def)
qed

section \<open>Properties\<close>

lemma kernel_print_output:
  assumes "only_status hw" "fifo_drains hw"
  shows "\<exists>b'. kernel_print hw str b = Some b' \<and> wrote b (crlf str) b'"
  using uart0_write_string_wrote [OF assms] by (simp add: kernel_print_def)

lemma kernel_print_uint32_output:
  assumes "only_status hw" "fifo_drains hw" "length buffer = 11"
  shows "\<exists>b' s. kernel_print_uint32 hw buffer v b = Some b' \<and> wrote b s b' \<and>
    s = decimal (unat v) \<and> decimal_value s = unat v \<and> length s \<le> 10 \<and>
    (v \<noteq> 0 \<longrightarrow> hd s \<noteq> CHR ''0'')"
  using kernel_print_uint32_wrote [OF assms] decimal_round_trip [of "unat v"] decimal_u32_length [of v]
    decimal_head [of "unat v"] by (auto simp: unat_eq_0)

text \<open>
  (C36) The console prints what it is given. If the transmit FIFO drains, \<open>kernel_print\<close> returns
  and the UART has received exactly the characters of the string up to its NUL, each newline
  preceded by a carriage return; no other register has changed. \<open>kernel_print_uint32\<close> returns for
  every 32-bit value, whatever its uninitialised buffer holds, after writing at most ten digits,
  which agree with the reference \<open>decimal\<close>, read back as the value, and have no leading zero;
  its loop therefore stays inside the buffer of eleven characters.
\<close>

theorem console_output:
  assumes "only_status hw" "fifo_drains hw" "length buffer = 11"
  shows "(\<exists>b'. kernel_print hw str b = Some b' \<and> wrote b (crlf str) b') \<and>
    (\<exists>b' s. kernel_print_uint32 hw buffer v b = Some b' \<and> wrote b s b' \<and>
       s = decimal (unat v) \<and> decimal_value s = unat v \<and> length s \<le> 10 \<and> (v \<noteq> 0 \<longrightarrow> hd s \<noteq> CHR ''0''))"
  using kernel_print_output [OF assms(1,2)] kernel_print_uint32_output [OF assms] by blast

lemma closest_fraction:
  fixes q f r :: nat
  assumes "f * 1843200 \<le> r * 64 + 921600" "r * 64 + 921600 < f * 1843200 + 1843200"
  shows "2 * \<bar>int ((64 * q + f) * (16 * 115200)) - 64 * (int q * 1843200 + int r)\<bar> \<le> 16 * 115200"
  using assms by simp

text \<open>
  (C37) Baud rate: for every system clock the divisors programmed by the driver are the ones
  closest to the clock divided by 16 times the baud rate, in 64ths, and the fraction fits its
  six bits; no intermediate result wraps around. At the default 80 MHz the integer part is
  43 and the fraction 26.
\<close>

theorem uart0_divisors_closest:
  "case uart0_divisors clock_hz of (integer_divisor, fractional_divisor) \<Rightarrow>
     unat fractional_divisor < 64 \<and>
     2 * \<bar>int ((64 * unat integer_divisor + unat fractional_divisor) * (16 * 115200)) - 64 * uint clock_hz\<bar> \<le> 16 * 115200 \<and>
     (clock_hz = 80000000 \<longrightarrow> integer_divisor = 43 \<and> fractional_divisor = 26)"
proof -
  let ?d = "1843200 :: nat"
  let ?q = "unat clock_hz div ?d" and ?r = "unat clock_hz mod ?d"
  let ?f = "(?r * 64 + 921600) div ?d"
  let ?F = "(clock_hz mod 1843200 * 64 + 921600) div 1843200" and ?Q = "clock_hz div 1843200"
  have r: "?r < ?d" by simp
  have "unat (clock_hz mod 1843200) = ?r" and q: "unat ?Q = ?q"
    by (simp_all add: unat_mod_distrib unat_div_distrib)
  moreover have "?r * 64 + 921600 < 2 ^ 32" using r by simp
  ultimately have f: "unat ?F = ?f" by (simp add: unat_div_distrib unat_word_ariths)
  have f64: "?F = 64 \<longleftrightarrow> ?f = 64" unfolding f [symmetric] by (simp add: u32_eq_iff_unat)
  have small: "?q < 2331" using unat_u32_less [of clock_hz] by (simp add: less_mult_imp_div_less)
  have q1: "unat (?Q + 1) = ?q + 1" using q small by (simp add: unat_word_ariths)
  have hz: "uint clock_hz = int ?q * 1843200 + int ?r"
    by (metis (no_types, lifting) div_mult_mod_eq of_nat_add of_nat_mult of_nat_numeral uint_nat)
  have divs: "uart0_divisors clock_hz = (if ?f = 64 then (?Q + 1, 0) else (?Q, ?F))"
    using f64 by (simp add: uart0_divisors_def)
  have bounds: "?f * ?d \<le> ?r * 64 + 921600" "?r * 64 + 921600 < ?f * ?d + ?d"
    using div_mult_mod_eq [of "?r * 64 + 921600" ?d] mod_less_divisor [of ?d "?r * 64 + 921600"] by linarith+
  show ?thesis
  proof (cases "?f = 64")
    case True
    have "uint (?Q + 1) = int ?q + 1" using q1 by (simp add: uint_nat)
    moreover have "clock_hz \<noteq> 80000000" using True by auto
    ultimately show ?thesis unfolding divs using True bounds r hz by simp
  next
    case False
    then have "?f < 64" using bounds r by linarith
    moreover have "clock_hz = 80000000 \<longrightarrow> ?Q = 43 \<and> ?F = 26" by simp
    ultimately show ?thesis
      unfolding divs hz using False closest_fraction [OF bounds, of ?q] by (simp only: if_False prod.case q f)
  qed
qed

theorem uart0_divisors_closest_witness:
  "uart0_divisors 80000000 = (43, 26)"
  using uart0_divisors_closest [of 80000000] by (cases "uart0_divisors 80000000") simp

theorem console_output_witness:
  "map_option uart_output (kernel_print demo_hardware [CHR ''O'', CHR ''K'', CHR 0x0A] demo_board) =
     Some [CHR ''O'', CHR ''K'', CHR 0x0D, CHR 0x0A] \<and>
   (\<exists>s. map_option uart_output (kernel_print_uint32 demo_hardware (replicate 11 (CHR 0x00)) 80000000 demo_board) = Some s \<and>
     decimal_value s = 80000000)"
  using console_output [OF demo_hardware_ok(1,3), of "replicate 11 (CHR 0x00)" "[CHR ''O'', CHR ''K'', CHR 0x0A]" demo_board 80000000]
  by (auto simp: wrote_def demo_board_def)

end
