(* ===== verification/Gpio.thy ===== *)
theory Gpio
  imports Board
begin

text \<open>
  The GPIO driver (\<open>drivers/gpio.c\<close>): the three LEDs on port F.
\<close>

abbreviation (input) GPIO_PORTF_DATA_R :: u32 where "GPIO_PORTF_DATA_R \<equiv> 0x400253FC"
abbreviation (input) GPIO_PORTF_DIR_R :: u32 where "GPIO_PORTF_DIR_R \<equiv> 0x40025400"
abbreviation (input) GPIO_PORTF_DEN_R :: u32 where "GPIO_PORTF_DEN_R \<equiv> 0x4002551C"
abbreviation (input) GPIO_PORTF_AFSEL_R :: u32 where "GPIO_PORTF_AFSEL_R \<equiv> 0x40025420"
abbreviation (input) GPIO_PORTF_AMSEL_R :: u32 where "GPIO_PORTF_AMSEL_R \<equiv> 0x40025528"
abbreviation (input) GPIO_PORTF_PCTL_R :: u32 where "GPIO_PORTF_PCTL_R \<equiv> 0x4002552C"
abbreviation (input) GPIO_PORTF_CLOCK :: u32 where "GPIO_PORTF_CLOCK \<equiv> 0x20"
abbreviation (input) RED_LED :: u32 where "RED_LED \<equiv> 0x2"
abbreviation (input) BLUE_LED :: u32 where "BLUE_LED \<equiv> 0x4"
abbreviation (input) GREEN_LED :: u32 where "GREEN_LED \<equiv> 0x8"

definition RGB_LEDS :: u32 where
  "RGB_LEDS = RED_LED OR BLUE_LED OR GREEN_LED"

definition gpio_init :: "(board \<Rightarrow> board) \<Rightarrow> board \<Rightarrow> board option" where
  "gpio_init hw b =
     Option.bind (wait_while hw SYSCTL_PRGPIO_R (\<lambda>v. v AND GPIO_PORTF_CLOCK = 0)
         (reg_or SYSCTL_RCGCGPIO_R GPIO_PORTF_CLOCK b)) (\<lambda>b1.
       let b2 = reg_clear GPIO_PORTF_AFSEL_R RGB_LEDS b1;
           b3 = reg_clear GPIO_PORTF_AMSEL_R RGB_LEDS b2;
           b4 = reg_clear GPIO_PORTF_PCTL_R 0x000000F0 b3;
           b5 = reg_or GPIO_PORTF_DIR_R RGB_LEDS b4;
           b6 = reg_or GPIO_PORTF_DEN_R RGB_LEDS b5
       in Some (reg_clear GPIO_PORTF_DATA_R RGB_LEDS b6))"

definition gpio_toggle_red_led :: "board \<Rightarrow> board" where
  "gpio_toggle_red_led b = reg_xor GPIO_PORTF_DATA_R RED_LED b"

definition gpio_red_led_on :: "board \<Rightarrow> board" where
  "gpio_red_led_on b = reg_or GPIO_PORTF_DATA_R RED_LED b"

definition gpio_red_led_off :: "board \<Rightarrow> board" where
  "gpio_red_led_off b = reg_clear GPIO_PORTF_DATA_R RED_LED b"

definition gpio_green_led_on :: "board \<Rightarrow> board" where
  "gpio_green_led_on b = reg_or GPIO_PORTF_DATA_R GREEN_LED b"

definition gpio_green_led_off :: "board \<Rightarrow> board" where
  "gpio_green_led_off b = reg_clear GPIO_PORTF_DATA_R GREEN_LED b"

definition gpio_toggle_green_led :: "board \<Rightarrow> board" where
  "gpio_toggle_green_led b = reg_xor GPIO_PORTF_DATA_R GREEN_LED b"

definition gpio_toggle_blue_led :: "board \<Rightarrow> board" where
  "gpio_toggle_blue_led b = reg_xor GPIO_PORTF_DATA_R BLUE_LED b"

definition gpio_blue_led_on :: "board \<Rightarrow> board" where
  "gpio_blue_led_on b = reg_or GPIO_PORTF_DATA_R BLUE_LED b"

definition gpio_blue_led_off :: "board \<Rightarrow> board" where
  "gpio_blue_led_off b = reg_clear GPIO_PORTF_DATA_R BLUE_LED b"

lemmas gpio_led_defs = gpio_toggle_red_led_def gpio_red_led_on_def gpio_red_led_off_def
  gpio_green_led_on_def gpio_green_led_off_def gpio_toggle_green_led_def
  gpio_toggle_blue_led_def gpio_blue_led_on_def gpio_blue_led_off_def

section \<open>Properties\<close>

text \<open>The LED bits as single-bit masks.\<close>

lemma led_masks:
  "(0x2 :: u32) = task_bit 1" "(0x4 :: u32) = task_bit 2" "(0x8 :: u32) = task_bit 3" "(0x20 :: u32) = task_bit 5"
  by (simp_all add: task_bit_def)

lemma bit_RGB_LEDS: "bit RGB_LEDS i \<longleftrightarrow> i \<in> {1, 2, 3}"
  unfolding RGB_LEDS_def led_masks by (auto simp: bit_or_iff bit_task_bit)

definition led :: "nat \<Rightarrow> board \<Rightarrow> bool" where
  "led i b = bit (mmio b GPIO_PORTF_DATA_R) i"

lemma gpio_init_ends:
  assumes "only_status hw" "clocks_start hw"
  shows "\<exists>b'. gpio_init hw b = Some b' \<and> uart_output b' = uart_output b \<and>
    (\<forall>i. led i b' \<longleftrightarrow> i \<notin> {1, 2, 3} \<and> led i b) \<and>
    (\<forall>i. bit (mmio b' GPIO_PORTF_DIR_R) i \<longleftrightarrow> i \<in> {1, 2, 3} \<or> bit (mmio b GPIO_PORTF_DIR_R) i) \<and>
    (\<forall>i. bit (mmio b' GPIO_PORTF_DEN_R) i \<longleftrightarrow> i \<in> {1, 2, 3} \<or> bit (mmio b GPIO_PORTF_DEN_R) i) \<and>
    (\<forall>i. bit (mmio b' GPIO_PORTF_AFSEL_R) i \<longleftrightarrow> i \<notin> {1, 2, 3} \<and> bit (mmio b GPIO_PORTF_AFSEL_R) i) \<and>
    (\<forall>i. bit (mmio b' GPIO_PORTF_AMSEL_R) i \<longleftrightarrow> i \<notin> {1, 2, 3} \<and> bit (mmio b GPIO_PORTF_AMSEL_R) i)"
proof -
  let ?b = "reg_or SYSCTL_RCGCGPIO_R GPIO_PORTF_CLOCK b"
  have busy: "(v AND GPIO_PORTF_CLOCK = 0) \<longleftrightarrow> \<not> bit v 5" for v :: u32
    unfolding led_masks by (rule and_task_bit) simp
  have "bit (mmio ?b SYSCTL_RCGCGPIO_R) 5" unfolding led_masks by (simp add: bit_or_iff bit_task_bit)
  then have "\<exists>n. \<not> (mmio ((hw ^^ n) ?b) SYSCTL_PRGPIO_R AND GPIO_PORTF_CLOCK = 0)"
    unfolding busy using assms(2) by (auto simp: clocks_start_def)
  from wait_while_same [OF assms(1) this] obtain b1 where
    b1: "wait_while hw SYSCTL_PRGPIO_R (\<lambda>v. v AND GPIO_PORTF_CLOCK = 0) ?b = Some b1" "same_board ?b b1" by blast
  then have regs: "mmio b1 a = mmio b a" if "a \<notin> status_registers" "a \<noteq> SYSCTL_RCGCGPIO_R" for a
    using that by (simp add: same_board_def)
  have out: "uart_output b1 = uart_output b" using b1(2) by (simp add: same_board_def)
  have bits: "bit (v AND NOT RGB_LEDS) i \<longleftrightarrow> i \<notin> {1, 2, 3} \<and> bit v i" for v :: u32 and i
    using bit_RGB_LEDS [of i] by (cases "i < 32") (auto simp: bit_and_iff bit_not_iff dest: u32_bit_less)
  have ors: "bit (v OR RGB_LEDS) i \<longleftrightarrow> i \<in> {1, 2, 3} \<or> bit v i" for v :: u32 and i
    using bit_RGB_LEDS [of i] by (auto simp: bit_or_iff)
  show ?thesis
    unfolding gpio_init_def b1(1) Let_def led_def
    by (simp add: out regs status_registers_def bits ors)
qed

text \<open>
  (C38) The LED operations: switching one LED on or off or toggling it changes exactly its own
  bit of the port's data register and no other register; toggling twice restores the board.
  \<open>gpio_init\<close> makes the three pins digital outputs without analog or alternate function and
  switches the three LEDs off.
\<close>

theorem gpio_leds:
  assumes "only_status hw" "clocks_start hw"
  shows "(\<forall>i. led i (gpio_red_led_on b) = (i = 1 \<or> led i b) \<and> led i (gpio_red_led_off b) = (i \<noteq> 1 \<and> led i b) \<and>
      led i (gpio_toggle_red_led b) = (led i b \<noteq> (i = 1)) \<and>
      led i (gpio_blue_led_on b) = (i = 2 \<or> led i b) \<and> led i (gpio_blue_led_off b) = (i \<noteq> 2 \<and> led i b) \<and>
      led i (gpio_toggle_blue_led b) = (led i b \<noteq> (i = 2)) \<and>
      led i (gpio_green_led_on b) = (i = 3 \<or> led i b) \<and> led i (gpio_green_led_off b) = (i \<noteq> 3 \<and> led i b) \<and>
      led i (gpio_toggle_green_led b) = (led i b \<noteq> (i = 3))) \<and>
    (\<forall>op \<in> {gpio_red_led_on, gpio_red_led_off, gpio_toggle_red_led, gpio_blue_led_on, gpio_blue_led_off,
        gpio_toggle_blue_led, gpio_green_led_on, gpio_green_led_off, gpio_toggle_green_led}.
      uart_output (op b) = uart_output b \<and> (\<forall>a. a \<noteq> GPIO_PORTF_DATA_R \<longrightarrow> mmio (op b) a = mmio b a)) \<and>
    (\<forall>op \<in> {gpio_toggle_red_led, gpio_toggle_blue_led, gpio_toggle_green_led}. op (op b) = b) \<and>
    (\<exists>b'. gpio_init hw b = Some b' \<and> (\<forall>i \<in> {1, 2, 3}. \<not> led i b' \<and> bit (mmio b' GPIO_PORTF_DIR_R) i \<and>
      bit (mmio b' GPIO_PORTF_DEN_R) i \<and> \<not> bit (mmio b' GPIO_PORTF_AFSEL_R) i \<and>
      \<not> bit (mmio b' GPIO_PORTF_AMSEL_R) i))"
proof (intro conjI)
  show "\<forall>i. led i (gpio_red_led_on b) = (i = 1 \<or> led i b) \<and> led i (gpio_red_led_off b) = (i \<noteq> 1 \<and> led i b) \<and>
      led i (gpio_toggle_red_led b) = (led i b \<noteq> (i = 1)) \<and>
      led i (gpio_blue_led_on b) = (i = 2 \<or> led i b) \<and> led i (gpio_blue_led_off b) = (i \<noteq> 2 \<and> led i b) \<and>
      led i (gpio_toggle_blue_led b) = (led i b \<noteq> (i = 2)) \<and>
      led i (gpio_green_led_on b) = (i = 3 \<or> led i b) \<and> led i (gpio_green_led_off b) = (i \<noteq> 3 \<and> led i b) \<and>
      led i (gpio_toggle_green_led b) = (led i b \<noteq> (i = 3))"
    unfolding gpio_led_defs led_masks led_def
    by (auto simp: bit_or_iff bit_xor_iff bit_task_bit bit_clear_task_bit)
  have twice: "reg_xor a v (reg_xor a v b) = b" for a v
    by (simp add: reg_defs fun_upd_idem xor.assoc)
  show "\<forall>op \<in> {gpio_toggle_red_led, gpio_toggle_blue_led, gpio_toggle_green_led}. op (op b) = b"
    by (simp add: gpio_led_defs twice)
qed (use gpio_init_ends [OF assms, of b] in \<open>auto simp: gpio_led_defs\<close>)

theorem gpio_leds_witness:
  "\<exists>b'. gpio_init demo_hardware demo_board = Some b' \<and> \<not> led 1 b' \<and> led 1 (gpio_toggle_red_led b')"
  using gpio_leds [OF demo_hardware_ok(1,2), of demo_board]
    gpio_leds [OF demo_hardware_ok(1,2), of "the (gpio_init demo_hardware demo_board)"] by auto

end
