(* ===== verification/System_Clock.thy ===== *)
theory System_Clock
  imports Board
begin

text \<open>
  The system clock (\<open>system/system.c\<close>, \<open>system/system.h\<close>): \<open>SystemInit\<close> programs the PLL for the
  frequency \<open>SYSTEM_CLOCK_HZ\<close>, a build option and here the parameter \<open>clock_hz\<close>, and switches
  over to the PLL if it locks in time. The preprocessor's checks of the option are
  \<open>system_clock_config_ok\<close>.
\<close>

section \<open>Registers and constants\<close>

abbreviation (input) SYSCTL_RCC_R :: u32 where "SYSCTL_RCC_R \<equiv> 0x400FE060"
abbreviation (input) SYSCTL_RCC2_R :: u32 where "SYSCTL_RCC2_R \<equiv> 0x400FE070"
abbreviation (input) SYSCTL_FLASHCFG_R :: u32 where "SYSCTL_FLASHCFG_R \<equiv> 0x400FEFC8"
abbreviation (input) SYSCTL_RIS_PLLLRIS :: u32 where "SYSCTL_RIS_PLLLRIS \<equiv> 0x40"
abbreviation (input) SYSCTL_RCC_MOSCDIS :: u32 where "SYSCTL_RCC_MOSCDIS \<equiv> 0x1"
abbreviation (input) SYSCTL_RCC_XTAL_M :: u32 where "SYSCTL_RCC_XTAL_M \<equiv> 0x000007C0"
abbreviation (input) SYSCTL_RCC_XTAL_16MHZ :: u32 where "SYSCTL_RCC_XTAL_16MHZ \<equiv> 0x00000540"
abbreviation (input) SYSCTL_RCC2_USERCC2 :: u32 where "SYSCTL_RCC2_USERCC2 \<equiv> 0x80000000"
abbreviation (input) SYSCTL_RCC2_DIV400 :: u32 where "SYSCTL_RCC2_DIV400 \<equiv> 0x40000000"
abbreviation (input) SYSCTL_RCC2_SYSDIV2_M :: u32 where "SYSCTL_RCC2_SYSDIV2_M \<equiv> 0x1FC00000"
abbreviation (input) SYSCTL_RCC2_PWRDN2 :: u32 where "SYSCTL_RCC2_PWRDN2 \<equiv> 0x2000"
abbreviation (input) SYSCTL_RCC2_BYPASS2 :: u32 where "SYSCTL_RCC2_BYPASS2 \<equiv> 0x800"
abbreviation (input) SYSCTL_RCC2_OSCSRC2_M :: u32 where "SYSCTL_RCC2_OSCSRC2_M \<equiv> 0x00000070"
abbreviation (input) SYSCTL_FLASHCFG_FWS_M :: u32 where "SYSCTL_FLASHCFG_FWS_M \<equiv> 0x0000000F"
abbreviation (input) SYSTEM_PLL_VCO_HZ :: u32 where "SYSTEM_PLL_VCO_HZ \<equiv> 400000000"
abbreviation (input) SYSTEM_PLL_LOCK_TIMEOUT :: u32 where "SYSTEM_PLL_LOCK_TIMEOUT \<equiv> 1000000"

definition SYSTEM_PLL_DIVIDER :: "u32 \<Rightarrow> u32" where
  "SYSTEM_PLL_DIVIDER clock_hz = SYSTEM_PLL_VCO_HZ div clock_hz"

definition SYSTEM_SYSDIV2_VALUE :: "u32 \<Rightarrow> u32" where
  "SYSTEM_SYSDIV2_VALUE clock_hz = SYSTEM_PLL_DIVIDER clock_hz - 1"

definition SYSTEM_FLASH_WAIT_STATES :: "u32 \<Rightarrow> u32" where
  "SYSTEM_FLASH_WAIT_STATES clock_hz =
     (if clock_hz > 50000000 then 2 else if clock_hz > 25000000 then 1 else 0)"

text \<open>The \<open>#error\<close> checks.\<close>

definition system_clock_config_ok :: "u32 \<Rightarrow> bool" where
  "system_clock_config_ok clock_hz \<longleftrightarrow>
     \<not> clock_hz > 80000000 \<and> \<not> clock_hz < 3125000 \<and> \<not> SYSTEM_PLL_VCO_HZ mod clock_hz \<noteq> 0 \<and>
     \<not> SYSTEM_PLL_DIVIDER clock_hz < 5 \<and> \<not> SYSTEM_PLL_DIVIDER clock_hz > 128"

definition system_get_clock_hz :: "u32 \<Rightarrow> u32" where
  "system_get_clock_hz clock_hz = clock_hz"

section \<open>SystemInit\<close>

function pll_wait :: "(board \<Rightarrow> board) \<Rightarrow> u32 \<Rightarrow> board \<Rightarrow> u32 \<times> board" where
  "pll_wait hw sysinit_timeout b =
     (if mmio b SYSCTL_RIS_R AND SYSCTL_RIS_PLLLRIS = 0 \<and> sysinit_timeout > 0
      then pll_wait hw (sysinit_timeout - 1) (hw b)
      else (sysinit_timeout, b))"
  by auto
termination
proof (relation "measure (\<lambda>(hw, t, b). unat t)")
  fix hw :: "board \<Rightarrow> board" and t :: u32 and b :: board
  assume "mmio b SYSCTL_RIS_R AND SYSCTL_RIS_PLLLRIS = 0 \<and> t > 0"
  then have "0 < unat t" by (simp add: unat_gt_0 word_gt_0)
  then show "((hw, t - 1, hw b), hw, t, b) \<in> measure (\<lambda>(hw, t, b). unat t)"
    by (simp add: unat_u32_diff)
qed simp

declare pll_wait.simps [simp del]

text \<open>The registers before the wait.\<close>

definition pll_configured :: "u32 \<Rightarrow> board \<Rightarrow> board" where
  "pll_configured clock_hz b =
     (let b1 = reg_or SYSCTL_RCC2_R SYSCTL_RCC2_USERCC2 b;
          b2 = reg_or SYSCTL_RCC2_R SYSCTL_RCC2_BYPASS2 b1;
          b3 = reg_clear SYSCTL_RCC_R SYSCTL_RCC_MOSCDIS b2;
          b4 = reg_clear SYSCTL_RCC_R SYSCTL_RCC_XTAL_M b3;
          b5 = reg_or SYSCTL_RCC_R SYSCTL_RCC_XTAL_16MHZ b4;
          b6 = reg_clear SYSCTL_RCC2_R SYSCTL_RCC2_OSCSRC2_M b5;
          b7 = reg_clear SYSCTL_RCC2_R SYSCTL_RCC2_PWRDN2 b6;
          b8 = reg_or SYSCTL_RCC2_R SYSCTL_RCC2_DIV400 b7;
          b9 = reg_clear SYSCTL_RCC2_R SYSCTL_RCC2_SYSDIV2_M b8;
          b10 = reg_or SYSCTL_RCC2_R (push_bit 22 (SYSTEM_SYSDIV2_VALUE clock_hz)) b9
      in reg_write SYSCTL_FLASHCFG_R
           ((mmio b10 SYSCTL_FLASHCFG_R AND NOT SYSCTL_FLASHCFG_FWS_M) OR SYSTEM_FLASH_WAIT_STATES clock_hz) b10)"

definition SystemInit :: "(board \<Rightarrow> board) \<Rightarrow> u32 \<Rightarrow> board \<Rightarrow> board" where
  "SystemInit hw clock_hz b =
     (case pll_wait hw SYSTEM_PLL_LOCK_TIMEOUT (pll_configured clock_hz b) of
        (sysinit_timeout, b1) \<Rightarrow>
          if sysinit_timeout > 0 then reg_clear SYSCTL_RCC2_R SYSCTL_RCC2_BYPASS2 b1 else b1)"

section \<open>The wait for the PLL\<close>

text \<open>The poll number \<open>k\<close> (from 0) finds the PLL locked.\<close>

definition locked_at :: "(board \<Rightarrow> board) \<Rightarrow> board \<Rightarrow> nat \<Rightarrow> bool" where
  "locked_at hw b k \<longleftrightarrow> bit (mmio ((hw ^^ k) b) SYSCTL_RIS_R) 6"

lemma lock_test: "v AND SYSCTL_RIS_PLLLRIS = 0 \<longleftrightarrow> \<not> bit v 6" for v :: u32
  using and_task_bit [of 6 v] by (simp add: task_bit_def)

lemma pll_wait_result:
  "case pll_wait hw t b of (t', b') \<Rightarrow>
     (t' > 0 \<longleftrightarrow> (\<exists>k < unat t. locked_at hw b k)) \<and> (\<exists>n \<le> unat t. b' = (hw ^^ n) b)"
proof (induction hw t b rule: pll_wait.induct)
  case (1 hw t b)
  have shift: "locked_at hw (hw b) k = locked_at hw b (Suc k)" for k
    by (simp add: locked_at_def funpow_swap1)
  show ?case
  proof (cases "\<not> locked_at hw b 0 \<and> t > 0")
    case True
    then have go: "mmio b SYSCTL_RIS_R AND SYSCTL_RIS_PLLLRIS = 0 \<and> t > 0"
      unfolding lock_test by (simp add: locked_at_def)
    then have loop: "pll_wait hw t b = pll_wait hw (t - 1) (hw b)" by (simp add: pll_wait.simps [of hw t])
    have t: "unat t = Suc (unat (t - 1))" using True unat_minus_one [of t] by (simp add: word_gt_0 unat_gt_0)
    obtain t' b' where r: "pll_wait hw (t - 1) (hw b) = (t', b')" by fastforce
    have ih: "t' > 0 \<longleftrightarrow> (\<exists>k < unat (t - 1). locked_at hw b (Suc k))" "\<exists>n \<le> unat (t - 1). b' = (hw ^^ n) (hw b)"
      using "1.IH" [OF go] by (simp_all add: r shift)
    have "(\<exists>k < unat t. locked_at hw b k) \<longleftrightarrow> (\<exists>k < unat (t - 1). locked_at hw b (Suc k))"
      unfolding t using True by (auto simp: less_Suc_eq_0_disj)
    moreover obtain n where "n \<le> unat (t - 1)" "b' = (hw ^^ Suc n) b" using ih(2) by (auto simp: funpow_swap1)
    ultimately show ?thesis unfolding loop r prod.case using ih(1) t by (metis Suc_le_mono)
  next
    case False
    then have stop: "pll_wait hw t b = (t, b)"
      using lock_test [of "mmio b SYSCTL_RIS_R"] by (auto simp: pll_wait.simps [of hw t] locked_at_def)
    have "t > 0 \<longleftrightarrow> (\<exists>k < unat t. locked_at hw b k)"
      using False by (auto simp: word_gt_0 unat_gt_0 intro!: exI [of _ 0])
    then show ?thesis unfolding stop prod.case by (intro conjI exI [of _ 0]) simp_all
  qed
qed

section \<open>The programmed clock\<close>

lemma clock_masks:
  "SYSCTL_RCC2_SYSDIV2_M = push_bit 22 (mask 7)" "SYSCTL_RCC2_BYPASS2 = task_bit 11"
  "SYSCTL_RCC2_PWRDN2 = task_bit 13" "SYSCTL_RCC2_OSCSRC2_M = push_bit 4 (mask 3)"
  "SYSCTL_RCC2_DIV400 = task_bit 30" "SYSCTL_RCC2_USERCC2 = task_bit 31"
  "SYSCTL_RCC_XTAL_M = push_bit 6 (mask 5)" "SYSCTL_RCC_MOSCDIS = task_bit 0"
  "SYSCTL_FLASHCFG_FWS_M = mask 4" "SYSCTL_RCC_XTAL_16MHZ = push_bit 6 0x15"
  by (simp_all add: task_bit_def mask_eq_exp_minus_1)

lemma divider:
  assumes "system_clock_config_ok clock_hz"
  shows "unat (SYSTEM_SYSDIV2_VALUE clock_hz) < 128"
    "(unat (SYSTEM_SYSDIV2_VALUE clock_hz) + 1) * unat clock_hz = 400000000"
proof -
  let ?d = "SYSTEM_PLL_DIVIDER clock_hz"
  have ok: "400000000 mod clock_hz = 0" "5 \<le> unat ?d" "unat ?d \<le> 128"
    using assms by (simp_all add: system_clock_config_ok_def word_less_nat_alt not_less)
  have v: "unat (SYSTEM_SYSDIV2_VALUE clock_hz) = unat ?d - 1"
    using ok(2) by (simp add: SYSTEM_SYSDIV2_VALUE_def unat_u32_diff)
  have "400000000 mod unat clock_hz = 0"
    using arg_cong [OF ok(1), of unat] by (simp add: unat_mod_distrib)
  then have "unat ?d * unat clock_hz = 400000000"
    by (simp add: SYSTEM_PLL_DIVIDER_def unat_div_distrib mod_0_imp_dvd)
  then show "unat (SYSTEM_SYSDIV2_VALUE clock_hz) < 128"
    "(unat (SYSTEM_SYSDIV2_VALUE clock_hz) + 1) * unat clock_hz = 400000000"
    using v ok by simp_all
qed

text \<open>The configured registers, with the masks left as they are.\<close>

lemma clock_registers:
  "SYSCTL_RCC2_R \<noteq> SYSCTL_RCC_R" "SYSCTL_RCC_R \<noteq> SYSCTL_RCC2_R" "SYSCTL_RCC2_R \<noteq> SYSCTL_FLASHCFG_R"
  "SYSCTL_FLASHCFG_R \<noteq> SYSCTL_RCC2_R" "SYSCTL_RCC_R \<noteq> SYSCTL_FLASHCFG_R" "SYSCTL_FLASHCFG_R \<noteq> SYSCTL_RCC_R"
  by simp_all

lemma configured:
  "mmio (pll_configured clock_hz b) SYSCTL_RCC2_R =
     (((((mmio b SYSCTL_RCC2_R OR SYSCTL_RCC2_USERCC2) OR SYSCTL_RCC2_BYPASS2) AND NOT SYSCTL_RCC2_OSCSRC2_M)
       AND NOT SYSCTL_RCC2_PWRDN2 OR SYSCTL_RCC2_DIV400) AND NOT SYSCTL_RCC2_SYSDIV2_M)
     OR push_bit 22 (SYSTEM_SYSDIV2_VALUE clock_hz)"
  "mmio (pll_configured clock_hz b) SYSCTL_RCC_R =
     ((mmio b SYSCTL_RCC_R AND NOT SYSCTL_RCC_MOSCDIS) AND NOT SYSCTL_RCC_XTAL_M) OR SYSCTL_RCC_XTAL_16MHZ"
  "mmio (pll_configured clock_hz b) SYSCTL_FLASHCFG_R =
     (mmio b SYSCTL_FLASHCFG_R AND NOT SYSCTL_FLASHCFG_FWS_M) OR SYSTEM_FLASH_WAIT_STATES clock_hz"
  by (simp_all only: pll_configured_def Let_def mmio_reg fun_upd_apply clock_registers if_True if_False refl)

lemma small_bits: "unat v < 2 ^ k \<Longrightarrow> bit v n \<Longrightarrow> n < k" for v :: u32
proof -
  assume "unat v < 2 ^ k" "bit v n"
  then have "take_bit k (unat v) = unat v" by (simp add: take_bit_nat_eq_self_iff)
  then have "take_bit k v = v" by (metis unsigned_take_bit_eq word_unat_eq_iff)
  then show "n < k" using \<open>bit v n\<close> by (metis bit_take_bit_iff)
qed

lemma configured_rcc2:
  assumes "unat (SYSTEM_SYSDIV2_VALUE clock_hz) < 2 ^ 7" "i < 32"
  shows "bit (mmio (pll_configured clock_hz b) SYSCTL_RCC2_R) i \<longleftrightarrow>
    (if 22 \<le> i \<and> i < 29 then bit (SYSTEM_SYSDIV2_VALUE clock_hz) (i - 22)
     else i = 31 \<or> i = 30 \<or> i = 11 \<or> i \<notin> {4, 5, 6, 13} \<and> bit (mmio b SYSCTL_RCC2_R) i)"
  unfolding configured clock_masks
  using small_bits [OF assms(1), of "i - 22"] assms(2)
  by (auto simp: bit_or_iff bit_and_iff bit_not_iff bit_task_bit bit_push_bit_iff bit_mask_iff)

lemma configured_rcc:
  "take_bit 5 (drop_bit 6 (mmio (pll_configured clock_hz b) SYSCTL_RCC_R)) = 0x15"
  "\<not> bit (mmio (pll_configured clock_hz b) SYSCTL_RCC_R) 0"
proof -
  show "take_bit 5 (drop_bit 6 (mmio (pll_configured clock_hz b) SYSCTL_RCC_R)) = 0x15"
    unfolding configured clock_masks
    by (rule bit_word_eqI)
      (use small_bits [of "0x15" 5] in \<open>auto simp: bit_take_bit_iff bit_drop_bit_eq bit_or_iff bit_and_iff bit_not_iff
         bit_push_bit_iff bit_mask_iff bit_task_bit\<close>)
  show "\<not> bit (mmio (pll_configured clock_hz b) SYSCTL_RCC_R) 0"
    unfolding configured clock_masks by (simp add: bit_or_iff bit_and_iff bit_not_iff bit_task_bit bit_push_bit_iff)
qed

lemma configured_flash:
  "take_bit 4 (mmio (pll_configured clock_hz b) SYSCTL_FLASHCFG_R) = SYSTEM_FLASH_WAIT_STATES clock_hz"
proof -
  have "unat (SYSTEM_FLASH_WAIT_STATES clock_hz) < 2 ^ 4" by (simp add: SYSTEM_FLASH_WAIT_STATES_def)
  from small_bits [OF this] show ?thesis
    unfolding configured clock_masks
    by (intro bit_word_eqI) (auto simp: bit_take_bit_iff bit_or_iff bit_and_iff bit_not_iff bit_mask_iff)
qed

text \<open>What is left of the configuration when \<open>SystemInit\<close> returns.\<close>

lemma SystemInit_registers:
  assumes "only_status hw"
  shows "bit (mmio (SystemInit hw clock_hz b) SYSCTL_RCC2_R) i \<longleftrightarrow>
      (i = 11 \<longrightarrow> \<not> (\<exists>k < 1000000. locked_at hw (pll_configured clock_hz b) k)) \<and>
      bit (mmio (pll_configured clock_hz b) SYSCTL_RCC2_R) i"
    "mmio (SystemInit hw clock_hz b) SYSCTL_RCC_R = mmio (pll_configured clock_hz b) SYSCTL_RCC_R"
    "mmio (SystemInit hw clock_hz b) SYSCTL_FLASHCFG_R = mmio (pll_configured clock_hz b) SYSCTL_FLASHCFG_R"
proof -
  let ?b0 = "pll_configured clock_hz b"
  obtain t b1 where w: "pll_wait hw SYSTEM_PLL_LOCK_TIMEOUT ?b0 = (t, b1)" by fastforce
  obtain n where n: "b1 = (hw ^^ n) ?b0" and t: "t > 0 \<longleftrightarrow> (\<exists>k < 1000000. locked_at hw ?b0 k)"
    using pll_wait_result [where hw = hw and t = SYSTEM_PLL_LOCK_TIMEOUT and b = ?b0] unfolding w by auto
  have same: "mmio b1 a = mmio ?b0 a" if "a \<notin> status_registers" for a
    using same_board_iterate [OF assms, of ?b0 n] that by (simp add: n same_board_def)
  have regs: "mmio b1 SYSCTL_RCC2_R = mmio ?b0 SYSCTL_RCC2_R" "mmio b1 SYSCTL_RCC_R = mmio ?b0 SYSCTL_RCC_R"
      "mmio b1 SYSCTL_FLASHCFG_R = mmio ?b0 SYSCTL_FLASHCFG_R"
    by (rule same, simp add: status_registers_def)+
  have init: "SystemInit hw clock_hz b = (if t > 0 then reg_clear SYSCTL_RCC2_R SYSCTL_RCC2_BYPASS2 b1 else b1)"
    by (simp add: SystemInit_def w)
  show "bit (mmio (SystemInit hw clock_hz b) SYSCTL_RCC2_R) i \<longleftrightarrow>
      (i = 11 \<longrightarrow> \<not> (\<exists>k < 1000000. locked_at hw (pll_configured clock_hz b) k)) \<and>
      bit (mmio (pll_configured clock_hz b) SYSCTL_RCC2_R) i"
    unfolding init clock_masks(2) t [symmetric] using regs(1) by (auto simp: bit_clear_task_bit)
  show "mmio (SystemInit hw clock_hz b) SYSCTL_RCC_R = mmio (pll_configured clock_hz b) SYSCTL_RCC_R"
    "mmio (SystemInit hw clock_hz b) SYSCTL_FLASHCFG_R = mmio (pll_configured clock_hz b) SYSCTL_FLASHCFG_R"
    unfolding init using regs by auto
qed

lemma SystemInit_output:
  assumes "only_status hw"
  shows "uart_output (SystemInit hw clock_hz b) = uart_output b"
proof -
  let ?b0 = "pll_configured clock_hz b"
  obtain t b1 where w: "pll_wait hw SYSTEM_PLL_LOCK_TIMEOUT ?b0 = (t, b1)" by fastforce
  then obtain n where "b1 = (hw ^^ n) ?b0"
    using pll_wait_result [where hw = hw and t = SYSTEM_PLL_LOCK_TIMEOUT and b = ?b0] by auto
  then have "uart_output b1 = uart_output ?b0"
    using same_board_iterate [OF assms, of ?b0 n] by (simp add: same_board_def)
  moreover have "uart_output ?b0 = uart_output b" by (simp add: pll_configured_def Let_def)
  ultimately show ?thesis by (simp add: SystemInit_def w)
qed

lemma SystemInit_divider:
  assumes "system_clock_config_ok clock_hz" "only_status hw"
  shows "take_bit 7 (drop_bit 22 (mmio (SystemInit hw clock_hz b) SYSCTL_RCC2_R)) = SYSTEM_SYSDIV2_VALUE clock_hz"
    "take_bit 3 (drop_bit 4 (mmio (SystemInit hw clock_hz b) SYSCTL_RCC2_R)) = 0"
proof -
  have v: "unat (SYSTEM_SYSDIV2_VALUE clock_hz) < 2 ^ 7" using divider(1) [OF assms(1)] by simp
  note rcc2 = SystemInit_registers(1) [OF assms(2), of clock_hz b]
  show "take_bit 7 (drop_bit 22 (mmio (SystemInit hw clock_hz b) SYSCTL_RCC2_R)) = SYSTEM_SYSDIV2_VALUE clock_hz"
  proof (rule bit_word_eqI)
    fix i
    show "bit (take_bit 7 (drop_bit 22 (mmio (SystemInit hw clock_hz b) SYSCTL_RCC2_R))) i \<longleftrightarrow>
        bit (SYSTEM_SYSDIV2_VALUE clock_hz) i"
      using small_bits [OF v, of i] configured_rcc2 [OF v, of "22 + i" b]
      by (auto simp: bit_take_bit_iff bit_drop_bit_eq rcc2)
  qed
  show "take_bit 3 (drop_bit 4 (mmio (SystemInit hw clock_hz b) SYSCTL_RCC2_R)) = 0"
  proof (rule bit_word_eqI)
    fix i :: nat
    have "i < 3 \<Longrightarrow> 4 + i \<in> {4, 5, 6}" by auto
    then show "bit (take_bit 3 (drop_bit 4 (mmio (SystemInit hw clock_hz b) SYSCTL_RCC2_R))) i \<longleftrightarrow> bit (0 :: u32) i"
      using configured_rcc2 [OF v, of "4 + i" b] by (auto simp: bit_take_bit_iff bit_drop_bit_eq rcc2)
  qed
qed

text \<open>
  (C39) \<open>SystemInit\<close> always returns, after at most a million polls, and programs the requested
  clock: with a build option that passes the preprocessor's checks, the 7-bit divider field
  holds exactly the value that divides the 400 MHz PLL to \<open>clock_hz\<close>, the crystal is selected as
  16 MHz, and the flash wait states fit the frequency. The processor is switched from the
  oscillator to the PLL exactly if one of the first million polls found the PLL locked, and
  never before the flash wait states are set.
\<close>

theorem SystemInit_clock:
  assumes "system_clock_config_ok clock_hz" "only_status hw"
  shows "let b0 = pll_configured clock_hz b; b' = SystemInit hw clock_hz b; rcc2 = mmio b' SYSCTL_RCC2_R in
    (unat (take_bit 7 (drop_bit 22 rcc2)) + 1) * unat clock_hz = 400000000 \<and>
    bit rcc2 31 \<and> bit rcc2 30 \<and> \<not> bit rcc2 13 \<and> take_bit 3 (drop_bit 4 rcc2) = 0 \<and>
    (bit rcc2 11 \<longleftrightarrow> \<not> (\<exists>k < 1000000. locked_at hw b0 k)) \<and>
    take_bit 5 (drop_bit 6 (mmio b' SYSCTL_RCC_R)) = 0x15 \<and> \<not> bit (mmio b' SYSCTL_RCC_R) 0 \<and>
    take_bit 4 (mmio b0 SYSCTL_FLASHCFG_R) = SYSTEM_FLASH_WAIT_STATES clock_hz \<and>
    mmio b' SYSCTL_FLASHCFG_R = mmio b0 SYSCTL_FLASHCFG_R"
proof -
  have v: "unat (SYSTEM_SYSDIV2_VALUE clock_hz) < 2 ^ 7" using divider(1) [OF assms(1)] by simp
  note bits = configured_rcc2 [OF v]
  show ?thesis
    unfolding Let_def SystemInit_registers [OF assms(2)] SystemInit_divider [OF assms] divider(2) [OF assms(1)]
      configured_flash configured_rcc
    using bits [of 31 b] bits [of 30 b] bits [of 13 b] bits [of 11 b] configured_rcc(2) [of clock_hz b] by simp
qed

theorem SystemInit_clock_witness:
  "let rcc2 = mmio (SystemInit demo_hardware 80000000 demo_board) SYSCTL_RCC2_R in
   take_bit 7 (drop_bit 22 rcc2) = 4 \<and> \<not> bit rcc2 11"
proof -
  have ok: "system_clock_config_ok 80000000"
    by (simp add: system_clock_config_ok_def SYSTEM_PLL_DIVIDER_def word_less_nat_alt)
  have "locked_at demo_hardware (pll_configured 80000000 demo_board) 1"
    by (simp add: locked_at_def demo_hardware_def)
  moreover have "(1 :: nat) < 1000000" by simp
  ultimately have "\<exists>k < 1000000. locked_at demo_hardware (pll_configured 80000000 demo_board) k" by blast
  then show ?thesis
    using SystemInit_clock [OF ok demo_hardware_ok(1), of demo_board] by (simp add: Let_def word_unat_eq_iff)
qed

end
