(* ===== verification/Kernel_Main.thy ===== *)
theory Kernel_Main
  imports Message_Queue Scheduler_Properties Console_Properties Gpio System_Clock "HOL-Library.Monad_Syntax"
begin

text \<open>
  \<open>kernel_main\<close> (\<open>kernel/kernel.c\<close>): the start of the system, from the first driver call to the
  first instruction of the first task. The state extends the kernel by the board and the
  static objects of \<open>kernel.c\<close>. The timer runs from \<open>systick_init\<close> on: its interrupts arrive
  while the console output is written, as many as the environment says. They are taken after
  each output as a whole (one call of a print function), not between two of its characters or
  between two calls that print nothing. A start that stops in one of the endless error loops, or
  a handler that does, is \<open>None\<close>.
\<close>

section \<open>State, configuration, environment\<close>

record os_state = kernel +
  os_board :: board
  g_console_mutex :: os_mutex_t
  g_resource_semaphore :: os_semaphore_t
  g_message_queue_storage :: "u8 list"
  g_message_queue :: os_message_queue_t

text \<open>
  The four programs that the \<open>#define\<close>s select; the \<open>#error\<close> directives exclude every other
  combination. The queue demo has a stress test with fast producers, a slow consumer and a
  small queue. The delivered configuration is \<open>Message_queue_demo False\<close>.
\<close>

datatype demo = Sleep_test | Mutex_demo | Semaphore_demo | Message_queue_demo bool

fun queue_demo :: "demo \<Rightarrow> bool" where
  "queue_demo (Message_queue_demo stress) = True"
| "queue_demo _ = False"

fun stress_test :: "demo \<Rightarrow> bool" where
  "stress_test (Message_queue_demo stress) = stress"
| "stress_test _ = False"

definition KERNEL_MESSAGE_QUEUE_CAPACITY :: "demo \<Rightarrow> u32" where
  "KERNEL_MESSAGE_QUEUE_CAPACITY demo = (if stress_test demo then 2 else 4)"

abbreviation (input) KERNEL_SEMAPHORE_RESOURCE_CAPACITY :: u32 where "KERNEL_SEMAPHORE_RESOURCE_CAPACITY \<equiv> 2"

text \<open>\<open>sizeof(kernel_queue_message_t)\<close>: three words.\<close>

abbreviation (input) QUEUE_MESSAGE_SIZE :: u32 where "QUEUE_MESSAGE_SIZE \<equiv> 12"

text \<open>The addresses of the three task functions.\<close>

record task_entries =
  app_task_1_addr :: u32
  app_task_2_addr :: u32
  app_task_3_addr :: u32

text \<open>
  What the hardware does between two polls, how many timer ticks pass during which output,
  and what the uninitialised buffer of \<open>kernel_print_uint32\<close> holds.
\<close>

record boot_env =
  env_hw :: "board \<Rightarrow> board"
  env_ticks :: "nat \<Rightarrow> nat"
  env_buffer :: "nat \<Rightarrow> char list"

section \<open>Console output of the start\<close>

datatype console_item = Text string | Number u32

fun print_output :: "boot_env \<Rightarrow> nat \<Rightarrow> console_item \<Rightarrow> board \<Rightarrow> board option" where
  "print_output env p (Text msg) b = kernel_print (env_hw env) msg b"
| "print_output env p (Number v) b = kernel_print_uint32 (env_hw env) (env_buffer env p) v b"

text \<open>
  Consecutive calls of the two print functions, each followed by the timer interrupts that
  arrived during it; \<open>p\<close> numbers the outputs of the start.
\<close>

fun print_all :: "boot_env \<Rightarrow> nat \<Rightarrow> console_item list \<Rightarrow> 'a os_state_scheme \<Rightarrow> 'a os_state_scheme option" where
  "print_all env p [] st = Some st"
| "print_all env p (out # outs) st = do {
     b \<leftarrow> print_output env p out (os_board st);
     print_all env (Suc p) outs ((systick_handler ^^ env_ticks env p) (st\<lparr>os_board := b\<rparr>))
   }"

section \<open>kernel\_main\<close>

text \<open>\<open>os_start_first_task\<close>: the SVC instruction, then an endless loop that is never reached.\<close>

definition os_start_first_task :: "'a kernel_scheme \<Rightarrow> 'a kernel_scheme option" where
  "os_start_first_task k = SVC_Handler k"

text \<open>The parts of \<open>kernel_main\<close>, in the order of the code: the drivers and the welcome text.\<close>

definition start_drivers :: "boot_env \<Rightarrow> u32 \<Rightarrow> 'a os_state_scheme \<Rightarrow> 'a os_state_scheme option" where
  "start_drivers env clock_hz st = do {
     b1 \<leftarrow> gpio_init (env_hw env) (os_board st);
     b2 \<leftarrow> uart0_init (env_hw env) (system_get_clock_hz clock_hz) b1;
     let (systick_status, st1) = systick_init (system_get_clock_hz clock_hz) (st\<lparr>os_board := b2\<rparr>);
     print_all env 0
       [Text ''WELCOME to MELK OS\<newline>'',
        Text ''[OK] Booting..\<newline>'',
        Text ''[OK] PLL System clock configured\<newline>'',
        Text ''[OK] GPIO configured explicitly\<newline>'',
        Text ''[OK] UART0 configured\<newline>'',
        (if systick_status = SYSTICK_OK then Text ''[OK] SysTick configured for 1 ms tick\<newline>''
         else Text ''[ERROR] SysTick configuration failed\<newline>''),
        Text '' System clock Hz: '', Number (system_get_clock_hz clock_hz), Text ''\<newline>'',
        Text '' OS ticks per second: '', Number OS_TICKS_PER_SECOND, Text ''\<newline>''] st1
   }"

text \<open>After a failure message the code loops forever.\<close>

definition print_and_stop :: "boot_env \<Rightarrow> nat \<Rightarrow> string \<Rightarrow> 'a os_state_scheme \<Rightarrow> 'a os_state_scheme option" where
  "print_and_stop env p msg st = do { _ \<leftarrow> print_all env p [Text msg] st; None }"

definition start_console_mutex :: "boot_env \<Rightarrow> 'a os_state_scheme \<Rightarrow> 'a os_state_scheme option" where
  "start_console_mutex env st =
     (let (mutex_status, mutex) = os_mutex_init (Some (g_console_mutex st));
          st1 = st\<lparr>g_console_mutex := the mutex\<rparr>
      in if mutex_status = OS_MUTEX_OK
         then print_all env 20 [Text ''[OK] Console mutex initialized\<newline>''] st1
         else print_and_stop env 20 ''[ERROR] Console mutex initialization failed\<newline>'' st1)"

definition start_resource_semaphore ::
  "boot_env \<Rightarrow> demo \<Rightarrow> 'a os_state_scheme \<Rightarrow> 'a os_state_scheme option"
where
  "start_resource_semaphore env demo st =
     (if demo = Semaphore_demo then
        let (semaphore_status, semaphore) = os_semaphore_init (Some (g_resource_semaphore st))
              KERNEL_SEMAPHORE_RESOURCE_CAPACITY KERNEL_SEMAPHORE_RESOURCE_CAPACITY;
            st1 = st\<lparr>g_resource_semaphore := the semaphore\<rparr>
        in if semaphore_status = OS_SEMAPHORE_OK
           then print_all env 30 [Text ''[OK] Counting semaphore initialized with 2 resource slots\<newline>''] st1
           else print_and_stop env 30 ''[ERROR] Counting semaphore initialization failed\<newline>'' st1
      else Some st)"

definition start_message_queue ::
  "boot_env \<Rightarrow> demo \<Rightarrow> 'a os_state_scheme \<Rightarrow> 'a os_state_scheme option"
where
  "start_message_queue env demo st =
     (if queue_demo demo then
        let (message_queue_status, queue) = os_message_queue_init (Some (g_message_queue st))
              (Some (g_message_queue_storage st)) QUEUE_MESSAGE_SIZE (KERNEL_MESSAGE_QUEUE_CAPACITY demo);
            st1 = st\<lparr>g_message_queue := the queue\<rparr>
        in if message_queue_status = OS_MESSAGE_QUEUE_OK
           then print_all env 40 [Text ''[OK] Message queue initialized with capacity '',
                  Number (KERNEL_MESSAGE_QUEUE_CAPACITY demo), Text ''\<newline>''] st1
           else print_and_stop env 40 ''[ERROR] Message queue initialization failed\<newline>'' st1
      else Some st)"

definition create_app_tasks ::
  "link_layout \<Rightarrow> task_entries \<Rightarrow> boot_env \<Rightarrow> 'a os_state_scheme \<Rightarrow> 'a os_state_scheme option"
where
  "create_app_tasks L app env st =
     (let (task1_id, st1) = task_create L (Some ''app_task_1'') (app_task_1_addr app) 0 st;
          (task2_id, st2) = task_create L (Some ''app_task_2'') (app_task_2_addr app) 0 st1;
          (task3_id, st3) = task_create L (Some ''app_task_3'') (app_task_3_addr app) 0 st2
      in print_all env 50
           [Text ''[OK] Task system initialized\<newline>'',
            Text '' Created tasks: '', Number (task_get_count st3), Text ''\<newline>'',
            Text '' app_task_1 id: '', Number (word_of_int task1_id), Text ''\<newline>'',
            Text '' app_task_2 id: '', Number (word_of_int task2_id), Text ''\<newline>'',
            Text '' app_task_3 id: '', Number (word_of_int task3_id), Text ''\<newline>''] st3)"

definition start_scheduler :: "boot_env \<Rightarrow> 'a os_state_scheme \<Rightarrow> 'a os_state_scheme option" where
  "start_scheduler env st =
     (let (scheduler_status, st1) = os_scheduler_start (os_context_switch_init (os_scheduler_init st))
      in if scheduler_status = SCHEDULER_OK
         then print_all env 70 [Text ''[OK] Preemptive scheduler initialized\<newline>''] st1
         else print_and_stop env 70 ''[ERROR] Preemptive scheduler failed to start\<newline>'' st1)"

definition kernel_main ::
  "link_layout \<Rightarrow> task_entries \<Rightarrow> boot_env \<Rightarrow> demo \<Rightarrow> u32 \<Rightarrow> 'a os_state_scheme \<Rightarrow> 'a os_state_scheme option"
where
  "kernel_main L app env demo clock_hz st = do {
     st1 \<leftarrow> start_drivers env clock_hz st;
     st2 \<leftarrow> start_console_mutex env (task_system_init L st1);
     st3 \<leftarrow> start_resource_semaphore env demo st2;
     st4 \<leftarrow> start_message_queue env demo st3;
     st5 \<leftarrow> create_app_tasks L app env st4;
     st6 \<leftarrow> start_scheduler env st5;
     st7 \<leftarrow> print_all env 80 [Text ''[OK] Starting first real task using PSP\<newline>'']
              (os_scheduler_enable_preemption st6);
     os_start_first_task st7
   }"

end
