(* ===== verification/Boot.thy ===== *)
theory Boot
  imports Kernel_Main
begin

text \<open>
  The startup code (\<open>boot/boot_tm4c123gh6pm.c\<close>): the vector table, the handlers that stop the
  system, and \<open>Reset_Handler\<close>, which prepares the static variables and enters \<open>kernel_main\<close>.
\<close>

section \<open>The vector table\<close>

text \<open>An entry of the table: one of the handlers, the initial stack pointer, or 0.\<close>

datatype isr =
    Stack_top | Reset | NMI | HardFault | MemManage | BusFault | UsageFault | Reserved
  | SVC | DebugMon | PendSV | SysTick | IntDefault

definition g_pfnVectors :: "isr list" where
  "g_pfnVectors =
     [Stack_top, Reset, NMI, HardFault, MemManage, BusFault, UsageFault, Reserved,
      Reserved, Reserved, Reserved, SVC, DebugMon, Reserved, PendSV, SysTick,
      IntDefault, IntDefault, IntDefault, IntDefault, IntDefault, IntDefault, IntDefault, IntDefault,
      IntDefault, IntDefault, IntDefault, IntDefault, IntDefault, IntDefault, IntDefault, IntDefault,
      IntDefault, IntDefault, IntDefault, IntDefault, IntDefault, IntDefault, IntDefault, IntDefault,
      IntDefault, IntDefault, IntDefault, IntDefault, IntDefault, IntDefault, IntDefault, IntDefault,
      IntDefault, IntDefault, IntDefault, IntDefault, IntDefault, IntDefault, IntDefault, IntDefault,
      IntDefault, Reserved, Reserved, IntDefault, IntDefault, IntDefault, IntDefault, IntDefault,
      IntDefault, IntDefault, IntDefault, IntDefault, Reserved, Reserved, IntDefault, IntDefault,
      IntDefault, IntDefault, IntDefault, IntDefault, IntDefault, IntDefault, IntDefault, IntDefault,
      Reserved, Reserved, Reserved, Reserved, IntDefault, IntDefault, IntDefault, IntDefault,
      Reserved, Reserved, Reserved, Reserved, Reserved, Reserved, Reserved, Reserved,
      Reserved, Reserved, Reserved, Reserved, Reserved, Reserved, Reserved, Reserved,
      Reserved, Reserved, Reserved, Reserved, IntDefault, IntDefault, IntDefault, IntDefault,
      IntDefault, IntDefault, IntDefault, IntDefault, IntDefault, IntDefault, IntDefault, IntDefault,
      IntDefault, IntDefault, IntDefault, Reserved, Reserved, IntDefault, IntDefault, IntDefault,
      IntDefault, IntDefault, Reserved, Reserved, IntDefault, IntDefault, IntDefault, IntDefault,
      IntDefault, IntDefault, IntDefault, IntDefault, IntDefault, IntDefault, IntDefault, IntDefault,
      IntDefault, IntDefault, IntDefault, IntDefault, IntDefault, IntDefault, IntDefault, IntDefault,
      IntDefault, IntDefault, IntDefault]"

section \<open>Handlers that stop the system\<close>

text \<open>\<open>while (1) { }\<close>: no result.\<close>

partial_function (option) IntDefaultHandler :: "'a kernel_scheme \<Rightarrow> 'a kernel_scheme option" where
  "IntDefaultHandler k = IntDefaultHandler k"

definition NMI_Handler :: "'a kernel_scheme \<Rightarrow> 'a kernel_scheme option" where
  "NMI_Handler k = IntDefaultHandler k"

definition HardFault_Handler :: "'a kernel_scheme \<Rightarrow> 'a kernel_scheme option" where
  "HardFault_Handler k = IntDefaultHandler k"

definition MemManage_Handler :: "'a kernel_scheme \<Rightarrow> 'a kernel_scheme option" where
  "MemManage_Handler k = IntDefaultHandler k"

definition BusFault_Handler :: "'a kernel_scheme \<Rightarrow> 'a kernel_scheme option" where
  "BusFault_Handler k = IntDefaultHandler k"

definition UsageFault_Handler :: "'a kernel_scheme \<Rightarrow> 'a kernel_scheme option" where
  "UsageFault_Handler k = IntDefaultHandler k"

definition DebugMon_Handler :: "'a kernel_scheme \<Rightarrow> 'a kernel_scheme option" where
  "DebugMon_Handler k = IntDefaultHandler k"

text \<open>
  Exception \<open>n\<close> runs entry \<open>n\<close> of the table. Entries without code (the stack pointer, reserved
  slots) lead to a fault, and the reset entry restarts the system: \<open>None\<close>.
\<close>

definition take_exception :: "nat \<Rightarrow> 'a kernel_scheme \<Rightarrow> 'a kernel_scheme option" where
  "take_exception n k =
     (if n < length g_pfnVectors then
        case g_pfnVectors ! n of
          NMI \<Rightarrow> NMI_Handler k
        | HardFault \<Rightarrow> HardFault_Handler k
        | MemManage \<Rightarrow> MemManage_Handler k
        | BusFault \<Rightarrow> BusFault_Handler k
        | UsageFault \<Rightarrow> UsageFault_Handler k
        | SVC \<Rightarrow> SVC_Handler k
        | DebugMon \<Rightarrow> DebugMon_Handler k
        | PendSV \<Rightarrow> PendSV_Handler k
        | SysTick \<Rightarrow> Some (systick_handler k)
        | IntDefault \<Rightarrow> IntDefaultHandler k
        | _ \<Rightarrow> None
      else None)"

section \<open>Reset\<close>

text \<open>The symbols of the linker command file.\<close>

record linker_symbols =
  lk_sidata :: u32
  lk_sdata :: u32
  lk_edata :: u32
  lk_sbss :: u32
  lk_ebss :: u32

text \<open>The two loops of \<open>Reset_Handler\<close>, over word pointers; \<open>None\<close> is a loop that never ends.\<close>

partial_function (option) copy_data :: "u32 \<Rightarrow> u32 \<Rightarrow> u32 \<Rightarrow> (u32 \<Rightarrow> u32) \<Rightarrow> (u32 \<Rightarrow> u32) option" where
  "copy_data src dst edata mem =
     (if dst < edata then copy_data (src + 4) (dst + 4) edata (mem(dst := mem src)) else Some mem)"

partial_function (option) clear_bss :: "u32 \<Rightarrow> u32 \<Rightarrow> (u32 \<Rightarrow> u32) \<Rightarrow> (u32 \<Rightarrow> u32) option" where
  "clear_bss dst ebss mem =
     (if dst < ebss then clear_bss (dst + 4) ebss (mem(dst := 0)) else Some mem)"

text \<open>
  How the static variables lie in memory is decided by compiler and linker: the parameter
  \<open>statics\<close> reads the system's state from the memory and the board.
\<close>

definition Reset_Handler ::
  "linker_symbols \<Rightarrow> ((u32 \<Rightarrow> u32) \<Rightarrow> board \<Rightarrow> os_state) \<Rightarrow> link_layout \<Rightarrow> task_entries \<Rightarrow> boot_env \<Rightarrow>
     demo \<Rightarrow> u32 \<Rightarrow> (u32 \<Rightarrow> u32) \<Rightarrow> board \<Rightarrow> os_state option"
where
  "Reset_Handler lk statics L app env demo clock_hz mem b = do {
     mem1 \<leftarrow> copy_data (lk_sidata lk) (lk_sdata lk) (lk_edata lk) mem;
     mem2 \<leftarrow> clear_bss (lk_sbss lk) (lk_ebss lk) mem1;
     let b1 = SystemInit (env_hw env) clock_hz b;
     kernel_main L app env demo clock_hz (statics mem2 b1)
   }"

end
