(* ===== verification/Boot_Lemmas.thy ===== *)
theory Boot_Lemmas
  imports Kernel_Main
begin

text \<open>
  Lemmas about the stages of the start: a timer tick before the first task runs only counts,
  the console output of a stage is the text of its items, and the driver initialisations
  return.
\<close>

section \<open>Ticks before the first task\<close>

text \<open>No tick can wake a task or request a switch yet.\<close>

definition unstarted :: "'a kernel_scheme \<Rightarrow> bool" where
  "unstarted k \<longleftrightarrow> g_scheduler_state k \<noteq> SCHEDULER_STATE_RUNNING \<or>
     tasks_wf k \<and> g_context_switch_started k = 0 \<and> (\<forall>i < task_total k. state_of k i \<noteq> TASK_STATE_SLEEPING)"

lemma nobody_sleeps:
  assumes "tasks_wf k" "\<forall>i < task_total k. state_of k i \<noteq> TASK_STATE_SLEEPING"
  shows "map (woken now) (g_task_table k) = g_task_table k"
proof (rule map_idI)
  fix t
  assume "t \<in> set (g_task_table k)"
  then obtain i where i: "i < length (g_task_table k)" "t = task_at k i" by (auto simp: in_set_conv_nth)
  have "length (g_task_table k) = 8" using assms(1) by (simp add: tasks_wf_def table_wf_def)
  then have "tcb_state t \<noteq> TASK_STATE_SLEEPING"
    using tasks_wfD(5) [OF assms(1), of i] assms(2) i by (cases "i < task_total k") auto
  then show "woken now t = t" by (simp add: woken_def wakes_at_def)
qed

lemma unstarted_tick:
  assumes "unstarted k"
  shows "systick_handler k = k\<lparr>g_os_ticks := g_os_ticks k + 1\<rparr>"
proof (cases "g_scheduler_state k = SCHEDULER_STATE_RUNNING")
  case False
  then show ?thesis by (simp add: systick_handler_def systick_tick_def os_scheduler_tick_def)
next
  case True
  let ?k = "k\<lparr>g_os_ticks := g_os_ticks k + 1\<rparr>"
  have wf: "tasks_wf k" "tasks_wf ?k" and quiet: "g_context_switch_started k = 0"
    "\<forall>i < task_total k. state_of k i \<noteq> TASK_STATE_SLEEPING"
    using assms True by (simp_all add: unstarted_def tasks_wf_def table_wf_def)
  have "snd (task_wake_expired_sleeping_tasks (g_os_ticks k + 1) ?k) = ?k"
    unfolding task_wake_expired_eq [OF wf(2)] using nobody_sleeps [OF wf(1) quiet(2)] by simp
  then show ?thesis
    using True quiet(1)
    by (simp add: systick_handler_def os_scheduler_tick_def machine_ops split_beta)
qed

lemma unstarted_cong:
  "unstarted (k\<lparr>g_os_ticks := t\<rparr>) = unstarted k"
  by (simp add: unstarted_def tasks_wf_def table_wf_def)

lemma unstarted_ticks:
  assumes "unstarted k"
  shows "\<exists>t. (systick_handler ^^ n) k = k\<lparr>g_os_ticks := t\<rparr>"
proof (induction n)
  case 0
  have "k = k\<lparr>g_os_ticks := g_os_ticks k\<rparr>" by simp
  then show ?case by (metis funpow_0)
next
  case (Suc n)
  then obtain t where "(systick_handler ^^ n) k = k\<lparr>g_os_ticks := t\<rparr>" by blast
  then show ?case
    using unstarted_tick [of "k\<lparr>g_os_ticks := t\<rparr>"] assms by (auto simp: unstarted_cong)
qed

section \<open>Output\<close>

fun item_text :: "console_item \<Rightarrow> string" where
  "item_text (Text msg) = crlf msg"
| "item_text (Number v) = decimal (unat v)"

text \<open>The tick counter, the timer registers and the board may differ, and nothing else that matters later.\<close>

definition same_kernel :: "'a os_state_scheme \<Rightarrow> 'a os_state_scheme \<Rightarrow> bool" where
  "same_kernel st st' \<longleftrightarrow> g_task_table st' = g_task_table st \<and> g_task_count st' = g_task_count st \<and>
     task_memory st' = task_memory st \<and> cpu_primask st' = cpu_primask st \<and> cpu_ipsr st' = cpu_ipsr st \<and>
     pendsv_pending st' = pendsv_pending st \<and> g_context_switch_started st' = g_context_switch_started st \<and>
     g_current_task_id st' = g_current_task_id st \<and> g_scheduler_state st' = g_scheduler_state st \<and>
     g_preemption_enabled st' = g_preemption_enabled st \<and>
     g_scheduler_tick_count st' = g_scheduler_tick_count st \<and> g_console_mutex st' = g_console_mutex st \<and>
     g_resource_semaphore st' = g_resource_semaphore st \<and>
     g_message_queue_storage st' = g_message_queue_storage st \<and> g_message_queue st' = g_message_queue st"

definition printed :: "string \<Rightarrow> 'a os_state_scheme \<Rightarrow> 'a os_state_scheme \<Rightarrow> bool" where
  "printed s st st' \<longleftrightarrow> same_kernel st st' \<and> uart_output (os_board st') = uart_output (os_board st) @ s"

lemma printed_refl [simp]: "printed [] st st"
  by (simp add: printed_def same_kernel_def)

lemma printed_trans: "printed s st st' \<Longrightarrow> printed s' st' st'' \<Longrightarrow> printed (s @ s') st st''"
  by (simp add: printed_def same_kernel_def)

lemma printed_tick: "wrote (os_board st) s b \<Longrightarrow> printed s st (st\<lparr>os_board := b, g_os_ticks := t\<rparr>)"
  by (simp add: printed_def same_kernel_def wrote_def)

lemma same_kernel_wf:
  assumes "same_kernel st st'"
  shows "tasks_wf st' = tasks_wf st" "stacks_wf L st' = stacks_wf L st" "sched_wf st' = sched_wf st"
    "unstarted st' = unstarted st"
  using assms by (simp_all add: same_kernel_def sched_wf_def tasks_wf_def table_wf_def stacks_wf_def unstarted_def)

definition env_ok :: "boot_env \<Rightarrow> bool" where
  "env_ok env \<longleftrightarrow> only_status (env_hw env) \<and> clocks_start (env_hw env) \<and> fifo_drains (env_hw env) \<and>
     (\<forall>p. length (env_buffer env p) = 11)"

lemma print_output_wrote:
  assumes "env_ok env"
  shows "\<exists>b'. print_output env p out b = Some b' \<and> wrote b (item_text out) b'"
proof (cases out)
  case (Text msg)
  then show ?thesis
    using uart0_write_string_wrote [of "env_hw env" msg b] assms by (simp add: env_ok_def kernel_print_def)
next
  case (Number v)
  then show ?thesis
    using kernel_print_uint32_wrote [of "env_hw env" "env_buffer env p" v b] assms by (simp add: env_ok_def)
qed

lemma print_all_printed:
  assumes "env_ok env" "unstarted st"
  shows "\<exists>st'. print_all env p outs st = Some st' \<and> printed (concat (map item_text outs)) st st'"
  using assms(2)
proof (induction outs arbitrary: p st)
  case Nil
  then show ?case by simp
next
  case (Cons out outs)
  obtain b where b: "print_output env p out (os_board st) = Some b" "wrote (os_board st) (item_text out) b"
    using print_output_wrote [OF assms(1)] by blast
  have u: "unstarted (st\<lparr>os_board := b\<rparr>)"
    using Cons.prems by (simp add: unstarted_def tasks_wf_def table_wf_def)
  from unstarted_ticks [OF u] obtain t where
    t: "(systick_handler ^^ env_ticks env p) (st\<lparr>os_board := b\<rparr>) = st\<lparr>os_board := b, g_os_ticks := t\<rparr>" by blast
  have "unstarted (st\<lparr>os_board := b, g_os_ticks := t\<rparr>)" using u by (simp add: unstarted_cong)
  from Cons.IH [OF this] obtain st' where
    st': "print_all env (Suc p) outs (st\<lparr>os_board := b, g_os_ticks := t\<rparr>) = Some st'"
      "printed (concat (map item_text outs)) (st\<lparr>os_board := b, g_os_ticks := t\<rparr>) st'" by blast
  have "printed (concat (map item_text (out # outs))) st st'"
    using printed_trans [OF printed_tick [OF b(2)] st'(2)] by simp
  then show ?case using st'(1) b(1) t by simp
qed

lemma uart0_init_ends:
  assumes "only_status hw" "clocks_start hw"
  shows "\<exists>b'. uart0_init hw clock_hz b = Some b' \<and> uart_output b' = uart_output b"
proof -
  let ?b = "reg_or SYSCTL_RCGCGPIO_R SYSCTL_GPIOA_CLOCK (reg_or SYSCTL_RCGCUART_R SYSCTL_UART0_CLOCK b)"
  have on: "bit (mmio ?b SYSCTL_RCGCUART_R) 0" "bit (mmio ?b SYSCTL_RCGCGPIO_R) 0" by (simp_all add: bit_or_iff)
  have "\<exists>n. \<not> (mmio ((hw ^^ n) ?b) SYSCTL_PRUART_R AND SYSCTL_UART0_CLOCK = 0)"
    unfolding and_bit_tests using assms(2) on(1) by (simp add: clocks_start_def)
  from wait_while_same [OF assms(1) this] obtain b1 where b1:
    "wait_while hw SYSCTL_PRUART_R (\<lambda>v. v AND SYSCTL_UART0_CLOCK = 0) ?b = Some b1" "same_board ?b b1" by blast
  have "bit (mmio b1 SYSCTL_RCGCGPIO_R) 0"
    using on(2) b1(2) by (simp add: same_board_def status_registers_def)
  then have "\<exists>n. \<not> (mmio ((hw ^^ n) b1) SYSCTL_PRGPIO_R AND SYSCTL_GPIOA_CLOCK = 0)"
    unfolding and_bit_tests using assms(2) by (simp add: clocks_start_def)
  from wait_while_same [OF assms(1) this] obtain b2 where
    "wait_while hw SYSCTL_PRGPIO_R (\<lambda>v. v AND SYSCTL_GPIOA_CLOCK = 0) b1 = Some b2" "same_board b1 b2" by blast
  then show ?thesis
    using b1 by (simp add: uart0_init_def Let_def same_board_def split: prod.split)
qed

section \<open>The tasks\<close>

lemma task_create_shape:
  "\<exists>tab mem n. snd (task_create L name entry argument s) = s\<lparr>g_task_table := tab, task_memory := mem, g_task_count := n\<rparr>"
proof (cases "entry \<noteq> 0 \<and> task_total s < 8")
  case True
  then show ?thesis
    by (auto simp: task_create_eq update_task_def
        intro!: exI [of _ "_ :: task_control_block_t list"] exI [of _ "fst (task_prepare_initial_stack L (task_memory s) (stack_top_addr L (g_task_count s)) entry argument)"] exI [of _ "g_task_count s + 1"])
next
  case False
  have "s = s\<lparr>g_task_table := g_task_table s, task_memory := task_memory s, g_task_count := g_task_count s\<rparr>" by simp
  with False show ?thesis
    by (cases "entry = 0") (metis not_less snd_conv task_create_full task_create_null)+
qed

lemma foldl_update_shape:
  "\<exists>tab. foldl (\<lambda>s i. update_task i (f i) s) s is = s\<lparr>g_task_table := tab\<rparr>"
proof (induction "is" arbitrary: s)
  case Nil
  have "s = s\<lparr>g_task_table := g_task_table s\<rparr>" by simp
  then show ?case by (metis foldl_Nil)
next
  case (Cons i "is")
  then obtain tab where "foldl (\<lambda>s i. update_task i (f i) s) (update_task i (f i) s) is =
      (update_task i (f i) s)\<lparr>g_task_table := tab\<rparr>" by blast
  then show ?case by (auto simp: update_task_def)
qed

lemma task_system_init_shape:
  "\<exists>tab mem n. task_system_init L s = s\<lparr>g_task_table := tab, task_memory := mem, g_task_count := n\<rparr>"
proof -
  let ?s = "foldl (\<lambda>s i. update_task i (reset_tcb i) s) (s\<lparr>g_task_count := 0\<rparr>) [0..<OS_MAX_TASKS]"
  obtain tab where s: "?s = s\<lparr>g_task_count := 0, g_task_table := tab\<rparr>" using foldl_update_shape by blast
  obtain tab' mem n where "task_system_init L s = ?s\<lparr>g_task_table := tab', task_memory := mem, g_task_count := n\<rparr>"
    using task_create_shape unfolding task_system_init_def by blast
  then show ?thesis unfolding s by auto
qed

lemma task_system_init_idle:
  assumes "layout_ok L" "length (g_task_table s) = OS_MAX_TASKS"
  shows "tcb_entry (task_at (task_system_init L s) 0) = idle_task_addr L"
proof -
  let ?s = "foldl (\<lambda>s i. update_task i (reset_tcb i) s) (s\<lparr>g_task_count := 0\<rparr>) [0..<OS_MAX_TASKS]"
  have count: "g_task_count ?s = 0" unfolding foldl_update_task_count by simp
  have len: "length (g_task_table ?s) = 8" using init_table_wf [OF assms(2)] by (simp only: table_wf_def)
  have entry: "idle_task_addr L \<noteq> 0" using assms(1) by (simp add: layout_ok_def)
  then show ?thesis
    unfolding task_system_init_def using count len
    by (subst task_create_eq) (simp_all only: count, simp_all add: created_tcb_def)
qed

lemma task_create_new:
  assumes "table_wf s" "entry \<noteq> 0" "task_total s < 8"
  shows "task_at (snd (task_create L name entry argument s)) (task_total s) =
    created_tcb L name entry argument (g_task_count s) (task_at s (task_total s))"
  using assms by (simp add: task_create_eq table_wf_def)

lemma unat_word_offset: "unat sp + 4 * k < 4294967296 \<Longrightarrow> unat (sp + 4 * of_nat k) = unat sp + 4 * k" for sp :: u32
  by (simp add: unat_word_ariths unat_of_nat)

text \<open>The initial context of a task survives the creation of other tasks.\<close>

lemma task_create_keeps_context:
  assumes "layout_ok L" "unat i < task_total s" "task_total s < 8" "entry \<noteq> 0"
  shows "read_words (task_memory (snd (task_create L name entry argument s)))
      ((stack_top_addr L i AND NOT 7) - 64) 16 =
    read_words (task_memory s) ((stack_top_addr L i AND NOT 7) - 64) 16"
proof (rule read_words_cong)
  fix k :: nat
  assume k: "k < 16"
  let ?sp = "(stack_top_addr L i AND NOT 7) - 64"
  have i: "unat i < 8" using assms by simp
  obtain mem where p: "task_prepare_initial_stack L (\<lambda>_. 0) (stack_top_addr L i) 0 0 = (mem, ?sp)"
    using prepared_stack_pointer by (metis prod.collapse)
  note bounds = prepared_stack_bounds [OF assms(1) i p]
  have range: "unat (stack_top_addr L i) = unat (stack_base_addr L i) + 1024"
      "unat (stack_top_addr L i) \<le> unat (stack_base_addr L (g_task_count s))"
      "unat (stack_top_addr L i) < 0x30000000"
    using assms i by (simp_all add: unat_stack_top unat_stack_base layout_ok_def)
  have "unat (?sp + 4 * of_nat k) = unat ?sp + 4 * k"
    by (rule unat_word_offset) (use bounds range k in linarith)
  then have "unat (?sp + 4 * of_nat k) < unat (stack_base_addr L (g_task_count s))"
    using bounds range k by linarith
  then show "task_memory (snd (task_create L name entry argument s)) (?sp + 4 * of_nat k) =
      task_memory s (?sp + 4 * of_nat k)"
    using task_create_memory(2) [OF assms(1,4,3)] by blast
qed

lemma app_tasks_created:
  assumes "layout_ok L" "tasks_wf s" "stacks_wf L s" "task_total s = 1" "state_of s 0 = TASK_STATE_READY"
    and "e1 \<noteq> 0" "e2 \<noteq> 0" "e3 \<noteq> 0"
    and s1: "task_create L n1 e1 0 s = (id1, s1)" and s2: "task_create L n2 e2 0 s1 = (id2, s2)"
    and s3: "task_create L n3 e3 0 s2 = (id3, s3)"
  shows "tasks_wf s3" "stacks_wf L s3" "task_total s3 = 4" "id1 = 1" "id2 = 2" "id3 = 3"
    "\<forall>i < 4. state_of s3 i = TASK_STATE_READY"
    "map tcb_entry (take 4 (g_task_table s3)) = [tcb_entry (task_at s 0), e1, e2, e3]"
    "tcb_stack_pointer (task_at s3 1) = (stack_top_addr L 1 AND NOT 7) - 64"
    "read_words (task_memory s3) ((stack_top_addr L 1 AND NOT 7) - 64) 16 = rev (initial_frame L e1 0)"
proof -
  have r: "s1 = snd (task_create L n1 e1 0 s)" "s2 = snd (task_create L n2 e2 0 s1)"
      "s3 = snd (task_create L n3 e3 0 s2)" using s1 s2 s3 by simp_all
  have wf: "tasks_wf s1" "tasks_wf s2" "tasks_wf s3"
    using assms(1,2) by (simp_all add: r task_create_wf)
  have total: "task_total s1 = 2" "task_total s2 = 3" "task_total s3 = 4"
    using assms(4,6-8) by (simp_all add: r task_create_total)
  have tw: "table_wf s" "table_wf s1" "table_wf s2" using wf assms(2) by (simp_all add: tasks_wf_def)
  have new: "task_at s1 1 = created_tcb L n1 e1 0 (g_task_count s) (task_at s 1)"
      "task_at s2 2 = created_tcb L n2 e2 0 (g_task_count s1) (task_at s1 2)"
      "task_at s3 3 = created_tcb L n3 e3 0 (g_task_count s2) (task_at s2 3)"
    using task_create_new [OF tw(1) assms(6), of L n1 0] task_create_new [OF tw(2) assms(7), of L n2 0]
      task_create_new [OF tw(3) assms(8), of L n3 0] assms(4) total by (simp_all add: r)
  have old: "task_at s1 0 = task_at s 0" "i < 2 \<Longrightarrow> task_at s2 i = task_at s1 i" "i < 3 \<Longrightarrow> task_at s3 i = task_at s2 i" for i
    using task_create_others [OF tw(1)] task_create_others [OF tw(2)] task_create_others [OF tw(3)]
      assms(4) total by (simp_all add: r)
  show "tasks_wf s3" "task_total s3 = 4" by fact+
  show "stacks_wf L s3"
    unfolding r by (intro task_create_stacks_wf) (use tw assms(3) r in simp_all)
  show "id1 = 1" "id2 = 2" "id3 = 3"
    using s1 s2 s3 assms(4,6-8) total by (auto simp: task_create_eq)
  have entries: "task_at s3 0 = task_at s 0" "task_at s3 1 = task_at s1 1" "task_at s3 2 = task_at s2 2"
    using old(1) old(2) [of 0] old(2) [of 1] old(3) [of 0] old(3) [of 1] old(3) [of 2] by simp_all
  show "\<forall>i < 4. state_of s3 i = TASK_STATE_READY"
    using assms(5) entries new by (auto simp: created_tcb_def numeral_eq_Suc less_Suc_eq)
  have "take 4 (g_task_table s3) = map (task_at s3) [0..<4]"
    using tasks_wfD(1) [OF wf(3)] by (intro nth_equalityI) simp_all
  moreover have "tcb_entry (task_at s3 0) = tcb_entry (task_at s 0)" "tcb_entry (task_at s3 1) = e1"
      "tcb_entry (task_at s3 2) = e2" "tcb_entry (task_at s3 3) = e3"
    unfolding entries new created_tcb_def by simp_all
  moreover have "[0..<4] = [0, 1, 2, 3 :: nat]" by (simp add: upt_rec)
  ultimately show "map tcb_entry (take 4 (g_task_table s3)) = [tcb_entry (task_at s 0), e1, e2, e3]"
    by (simp only: list.map)
  have c: "g_task_count s = 1" using assms(4) by (simp add: u32_eq_iff_unat)
  show "tcb_stack_pointer (task_at s3 1) = (stack_top_addr L 1 AND NOT 7) - 64"
    unfolding entries new c by (simp add: created_tcb_def)
  show "read_words (task_memory s3) ((stack_top_addr L 1 AND NOT 7) - 64) 16 = rev (initial_frame L e1 0)"
    using task_create_memory(1) [OF assms(1,6), of s, where name = n1 and argument = 0] assms(4)
      task_create_keeps_context [OF assms(1) _ _ assms(7), of 1 s1 n2 0]
      task_create_keeps_context [OF assms(1) _ _ assms(8), of 1 s2 n3 0] total c
    by (simp only: r [symmetric])
qed

end
