(* ===== verification/Kernel_Stages.thy ===== *)
theory Kernel_Stages
  imports Boot_Lemmas Queue_Completion
begin

text \<open>
  The stages of \<open>kernel_main\<close>: each one returns, prints its text and leaves the kernel and the
  service objects initialised as far as it goes.
\<close>

section \<open>The stages\<close>

text \<open>Well-formedness does not depend on the fields outside the task system.\<close>

lemma tasks_wf_outside [simp]:
  "tasks_wf (st\<lparr>os_board := b\<rparr>) = tasks_wf st" "tasks_wf (st\<lparr>g_console_mutex := m\<rparr>) = tasks_wf st"
  "tasks_wf (st\<lparr>g_resource_semaphore := s\<rparr>) = tasks_wf st" "tasks_wf (st\<lparr>g_message_queue := q\<rparr>) = tasks_wf st"
  "stacks_wf L (st\<lparr>os_board := b\<rparr>) = stacks_wf L st" "stacks_wf L (st\<lparr>g_console_mutex := m\<rparr>) = stacks_wf L st"
  "stacks_wf L (st\<lparr>g_resource_semaphore := s\<rparr>) = stacks_wf L st"
  "stacks_wf L (st\<lparr>g_message_queue := q\<rparr>) = stacks_wf L st"
  "sched_wf (st\<lparr>os_board := b\<rparr>) = sched_wf st"
  by (simp_all add: sched_wf_def tasks_wf_def table_wf_def stacks_wf_def)

lemma tasks_wf_ticks [simp]:
  "tasks_wf (k\<lparr>g_os_ticks := t\<rparr>) = tasks_wf k" "stacks_wf L (k\<lparr>g_os_ticks := t\<rparr>) = stacks_wf L k"
  by (simp_all add: tasks_wf_def table_wf_def stacks_wf_def)

text \<open>The welcome text depends on the clock; the texts of the later stages do not.\<close>

definition welcome_items :: "u32 \<Rightarrow> console_item list" where
  "welcome_items clock_hz =
     [Text ''WELCOME to MELK OS\<newline>'', Text ''[OK] Booting..\<newline>'', Text ''[OK] PLL System clock configured\<newline>'',
      Text ''[OK] GPIO configured explicitly\<newline>'', Text ''[OK] UART0 configured\<newline>'',
      (if systick_is_valid_clock clock_hz \<noteq> 0 then Text ''[OK] SysTick configured for 1 ms tick\<newline>''
       else Text ''[ERROR] SysTick configuration failed\<newline>''),
      Text '' System clock Hz: '', Number clock_hz, Text ''\<newline>'',
      Text '' OS ticks per second: '', Number OS_TICKS_PER_SECOND, Text ''\<newline>'']"

definition items_text :: "console_item list \<Rightarrow> string" where
  "items_text items = concat (map item_text items)"

lemma systick_init_same:
  assumes "systick_init clock_hz st = (status, st1)"
  shows "(status = SYSTICK_OK \<longleftrightarrow> systick_is_valid_clock clock_hz \<noteq> 0) \<and> printed [] st st1"
  using assms by (auto simp: systick_init_def systick_stop_def Let_def printed_def same_kernel_def split: if_splits)

lemma start_drivers_ends:
  assumes "env_ok env" "g_scheduler_state st \<noteq> SCHEDULER_STATE_RUNNING"
  shows "\<exists>st1. start_drivers env clock_hz st = Some st1 \<and> printed (items_text (welcome_items clock_hz)) st st1"
proof -
  have hw: "only_status (env_hw env)" "clocks_start (env_hw env)" using assms(1) by (simp_all add: env_ok_def)
  obtain b1 where b1: "gpio_init (env_hw env) (os_board st) = Some b1" "uart_output b1 = uart_output (os_board st)"
    using gpio_init_ends [OF hw, of "os_board st"] by (elim exE conjE) (rule that)
  obtain b2 where b2: "uart0_init (env_hw env) clock_hz b1 = Some b2" "uart_output b2 = uart_output b1"
    using uart0_init_ends [OF hw, of clock_hz b1] by blast
  obtain status st1 where init: "systick_init clock_hz (st\<lparr>os_board := b2\<rparr>) = (status, st1)" by fastforce
  from systick_init_same [OF this] have st1: "printed [] (st\<lparr>os_board := b2\<rparr>) st1"
      and status: "status = SYSTICK_OK \<longleftrightarrow> systick_is_valid_clock clock_hz \<noteq> 0" by simp_all
  have st: "printed [] st (st\<lparr>os_board := b2\<rparr>)" using b1 b2 by (simp add: printed_def same_kernel_def)
  have "unstarted st1" using assms(2) st1 by (simp add: unstarted_def printed_def same_kernel_def)
  from print_all_printed [OF assms(1) this, of 0 "welcome_items clock_hz"] obtain st2 where
    st2: "print_all env 0 (welcome_items clock_hz) st1 = Some st2" "printed (items_text (welcome_items clock_hz)) st1 st2"
    by (auto simp: items_text_def)
  have "start_drivers env clock_hz st = Some st2"
    using b1(1) b2(1) init st2(1) by (simp add: start_drivers_def system_get_clock_hz_def welcome_items_def status)
  moreover have "printed (items_text (welcome_items clock_hz)) st st2"
    using printed_trans [OF printed_trans [OF st st1] st2(2)] by simp
  ultimately show ?thesis by blast
qed

text \<open>What the initialisation calls make of the static objects.\<close>

abbreviation fresh_mutex :: "os_mutex_t \<Rightarrow> os_mutex_t" where
  "fresh_mutex m \<equiv> the (snd (os_mutex_init (Some m)))"

abbreviation fresh_semaphore :: "u32 \<Rightarrow> os_semaphore_t \<Rightarrow> os_semaphore_t" where
  "fresh_semaphore n x \<equiv> the (snd (os_semaphore_init (Some x) n n))"

definition fresh_queue :: "demo \<Rightarrow> u8 list \<Rightarrow> os_message_queue_t \<Rightarrow> os_message_queue_t" where
  "fresh_queue demo bytes q = the (snd (os_message_queue_init (Some q) (Some bytes)
     QUEUE_MESSAGE_SIZE (KERNEL_MESSAGE_QUEUE_CAPACITY demo)))"

lemma fresh_queue_init:
  "os_message_queue_init (Some q) (Some bytes) QUEUE_MESSAGE_SIZE (KERNEL_MESSAGE_QUEUE_CAPACITY demo) =
     (OS_MESSAGE_QUEUE_OK, Some (fresh_queue demo bytes q))"
  by (simp add: fresh_queue_def KERNEL_MESSAGE_QUEUE_CAPACITY_def os_message_queue_init_def os_mutex_init_def os_semaphore_init_def)

definition objects_items :: "demo \<Rightarrow> console_item list" where
  "objects_items demo = Text ''[OK] Console mutex initialized\<newline>'' #
     (case demo of
        Semaphore_demo \<Rightarrow> [Text ''[OK] Counting semaphore initialized with 2 resource slots\<newline>'']
      | Message_queue_demo stress \<Rightarrow> [Text ''[OK] Message queue initialized with capacity '',
          Number (KERNEL_MESSAGE_QUEUE_CAPACITY demo), Text ''\<newline>'']
      | _ \<Rightarrow> [])"

definition with_objects :: "demo \<Rightarrow> 'a os_state_scheme \<Rightarrow> 'a os_state_scheme" where
  "with_objects demo st =
     (let st1 = st\<lparr>g_console_mutex := fresh_mutex (g_console_mutex st)\<rparr> in
      case demo of
        Semaphore_demo \<Rightarrow> st1\<lparr>g_resource_semaphore :=
          fresh_semaphore KERNEL_SEMAPHORE_RESOURCE_CAPACITY (g_resource_semaphore st)\<rparr>
      | Message_queue_demo stress \<Rightarrow> st1\<lparr>g_message_queue := fresh_queue demo (g_message_queue_storage st) (g_message_queue st)\<rparr>
      | _ \<Rightarrow> st1)"

lemma print_stage:
  assumes "env_ok env" "unstarted st"
  shows "\<exists>st'. print_all env p items st = Some st' \<and> printed (items_text items) st st'"
  using print_all_printed [OF assms] by (simp add: items_text_def)

lemma items_text_append: "items_text (xs @ ys) = items_text xs @ items_text ys"
  by (simp add: items_text_def)

lemma printed_more:
  assumes "printed (items_text xs) st st1" "printed (items_text ys) (f st1) st2"
    and "same_kernel st st1 \<Longrightarrow> same_kernel (g st) (f st1)"
    and "os_board (f st1) = os_board st1" "os_board (g st) = os_board st"
  shows "printed (items_text (xs @ ys)) (g st) st2"
  using assms by (simp add: printed_def items_text_append same_kernel_def)

lemma start_objects_end:
  assumes "env_ok env" "unstarted st"
  shows "\<exists>st1 st2 st3. start_console_mutex env st = Some st1 \<and> start_resource_semaphore env demo st1 = Some st2 \<and>
    start_message_queue env demo st2 = Some st3 \<and> printed (items_text (objects_items demo)) (with_objects demo st) st3"
proof -
  let ?m = "st\<lparr>g_console_mutex := fresh_mutex (g_console_mutex st)\<rparr>"
  let ?first = "[Text ''[OK] Console mutex initialized\<newline>'']"
  have um: "unstarted ?m" using assms(2) by (simp add: unstarted_def)
  from print_stage [OF assms(1) um] obtain st1 where
    st1: "print_all env 20 ?first ?m = Some st1" "printed (items_text ?first) ?m st1" by blast
  have first: "start_console_mutex env st = Some st1"
    using st1(1) by (simp add: start_console_mutex_def os_mutex_init_def)
  have u1: "unstarted st1" using um same_kernel_wf(4) st1(2) unfolding printed_def by blast
  show ?thesis
  proof (cases demo)
    case Semaphore_demo
    let ?f = "\<lambda>st. st\<lparr>g_resource_semaphore := fresh_semaphore KERNEL_SEMAPHORE_RESOURCE_CAPACITY (g_resource_semaphore st)\<rparr>"
    let ?items = "[Text ''[OK] Counting semaphore initialized with 2 resource slots\<newline>'']"
    have "unstarted (?f st1)" using u1 by (simp add: unstarted_def)
    from print_stage [OF assms(1) this] obtain st2 where
      st2: "print_all env 30 ?items (?f st1) = Some st2" "printed (items_text ?items) (?f st1) st2" by blast
    have "start_resource_semaphore env demo st1 = Some st2" "start_message_queue env demo st2 = Some st2"
      using st2(1) by (simp_all add: Semaphore_demo start_resource_semaphore_def start_message_queue_def os_semaphore_init_def)
    moreover have "printed (items_text (?first @ ?items)) (?f ?m) st2"
      by (rule printed_more [where f = ?f and g = ?f, OF st1(2) st2(2)]) (simp_all add: same_kernel_def)
    moreover have "with_objects demo st = ?f ?m" "objects_items demo = ?first @ ?items"
      by (simp_all add: Semaphore_demo with_objects_def objects_items_def)
    ultimately show ?thesis using first by auto
  next
    case (Message_queue_demo stress)
    let ?f = "\<lambda>st. st\<lparr>g_message_queue := fresh_queue demo (g_message_queue_storage st) (g_message_queue st)\<rparr>"
    let ?items = "[Text ''[OK] Message queue initialized with capacity '', Number (KERNEL_MESSAGE_QUEUE_CAPACITY demo), Text ''\<newline>'']"
    have "unstarted (?f st1)" using u1 by (simp add: unstarted_def)
    from print_stage [OF assms(1) this] obtain st2 where
      st2: "print_all env 40 ?items (?f st1) = Some st2" "printed (items_text ?items) (?f st1) st2" by blast
    have "start_resource_semaphore env demo st1 = Some st1" "start_message_queue env demo st1 = Some st2"
      using st2(1) by (simp_all add: Message_queue_demo start_resource_semaphore_def start_message_queue_def fresh_queue_init)
    moreover have "printed (items_text (?first @ ?items)) (?f ?m) st2"
      by (rule printed_more [where f = ?f and g = ?f, OF st1(2) st2(2)]) (simp_all add: same_kernel_def)
    moreover have "with_objects demo st = ?f ?m" "objects_items demo = ?first @ ?items"
      by (simp_all add: Message_queue_demo with_objects_def objects_items_def)
    ultimately show ?thesis using first by auto
  next
    case Sleep_test
    then have "start_resource_semaphore env demo st1 = Some st1" "start_message_queue env demo st1 = Some st1"
        "with_objects demo st = ?m" "objects_items demo = ?first"
      by (simp_all add: start_resource_semaphore_def start_message_queue_def with_objects_def objects_items_def)
    then show ?thesis using first st1(2) by metis
  next
    case Mutex_demo
    then have "start_resource_semaphore env demo st1 = Some st1" "start_message_queue env demo st1 = Some st1"
        "with_objects demo st = ?m" "objects_items demo = ?first"
      by (simp_all add: start_resource_semaphore_def start_message_queue_def with_objects_def objects_items_def)
    then show ?thesis using first st1(2) by metis
  qed
qed

section \<open>The tasks and the scheduler\<close>

lemma update_task_os [simp]:
  "os_board (update_task i f st) = os_board st" "g_console_mutex (update_task i f st) = g_console_mutex st"
  "g_resource_semaphore (update_task i f st) = g_resource_semaphore st"
  "g_message_queue_storage (update_task i f st) = g_message_queue_storage st"
  "g_message_queue (update_task i f st) = g_message_queue st"
  by (simp_all add: update_task_def)

text \<open>Operations of task.c change the task system only.\<close>

definition same_rest :: "'a os_state_scheme \<Rightarrow> 'a os_state_scheme \<Rightarrow> bool" where
  "same_rest st st' \<longleftrightarrow> cpu_primask st' = cpu_primask st \<and> cpu_ipsr st' = cpu_ipsr st \<and>
     pendsv_pending st' = pendsv_pending st \<and> g_scheduler_state st' = g_scheduler_state st \<and>
     g_console_mutex st' = g_console_mutex st \<and> g_resource_semaphore st' = g_resource_semaphore st \<and>
     g_message_queue_storage st' = g_message_queue_storage st \<and> g_message_queue st' = g_message_queue st"

lemma same_kernel_rest: "same_kernel st st' \<Longrightarrow> same_rest st st'"
  by (simp add: same_kernel_def same_rest_def)

lemma same_rest_trans: "same_rest st st' \<Longrightarrow> same_rest st' st'' \<Longrightarrow> same_rest st st''"
  by (simp add: same_rest_def)

lemma task_create_rest:
  "same_rest st (snd (task_create L name entry argument st)) \<and>
    os_board (snd (task_create L name entry argument st)) = os_board st"
proof -
  obtain tab mem n where "snd (task_create L name entry argument st) =
      st\<lparr>g_task_table := tab, task_memory := mem, g_task_count := n\<rparr>" using task_create_shape by blast
  then show ?thesis by (simp add: same_rest_def)
qed

lemma task_system_init_rest:
  "same_rest st (task_system_init L st) \<and> os_board (task_system_init L st) = os_board st"
proof -
  obtain tab mem n where "task_system_init L st =
      st\<lparr>g_task_table := tab, task_memory := mem, g_task_count := n\<rparr>" using task_system_init_shape by blast
  then show ?thesis by (simp add: same_rest_def)
qed

definition tasks_items :: "console_item list" where
  "tasks_items =
     [Text ''[OK] Task system initialized\<newline>'', Text '' Created tasks: '', Number 4, Text ''\<newline>'',
      Text '' app_task_1 id: '', Number 1, Text ''\<newline>'', Text '' app_task_2 id: '', Number 2, Text ''\<newline>'',
      Text '' app_task_3 id: '', Number 3, Text ''\<newline>'']"

text \<open>The task system once the three tasks exist.\<close>

definition tasks_made :: "link_layout \<Rightarrow> task_entries \<Rightarrow> 'a task_system_scheme \<Rightarrow> bool" where
  "tasks_made L app s \<longleftrightarrow> stacks_wf L s \<and> task_total s = 4 \<and>
     map tcb_entry (take 4 (g_task_table s)) =
       [idle_task_addr L, app_task_1_addr app, app_task_2_addr app, app_task_3_addr app] \<and>
     tcb_stack_pointer (task_at s 1) = (stack_top_addr L 1 AND NOT 7) - 64 \<and>
     read_words (task_memory s) ((stack_top_addr L 1 AND NOT 7) - 64) 16 =
       rev (initial_frame L (app_task_1_addr app) 0)"

definition tasks_ready :: "link_layout \<Rightarrow> task_entries \<Rightarrow> 'a task_system_scheme \<Rightarrow> bool" where
  "tasks_ready L app s \<longleftrightarrow> tasks_wf s \<and> tasks_made L app s \<and> (\<forall>i < 4. state_of s i = TASK_STATE_READY)"

lemma tasks_made_cong:
  assumes "g_task_table s' = g_task_table s" "g_task_count s' = g_task_count s" "task_memory s' = task_memory s"
  shows "tasks_made L app s' = tasks_made L app s" "tasks_ready L app s' = tasks_ready L app s"
  using assms by (simp_all add: tasks_made_def tasks_ready_def stacks_wf_def tasks_wf_def table_wf_def)

lemma create_app_tasks_ends:
  assumes "env_ok env" "layout_ok L" "app_task_1_addr app \<noteq> 0" "app_task_2_addr app \<noteq> 0" "app_task_3_addr app \<noteq> 0"
    and "tasks_wf st" "stacks_wf L st" "task_total st = 1" "state_of st 0 = TASK_STATE_READY"
      "tcb_entry (task_at st 0) = idle_task_addr L" "g_scheduler_state st \<noteq> SCHEDULER_STATE_RUNNING"
  shows "\<exists>st'. create_app_tasks L app env st = Some st' \<and> tasks_ready L app st' \<and> same_rest st st' \<and>
    uart_output (os_board st') = uart_output (os_board st) @ items_text tasks_items"
proof -
  obtain id1 s1 where s1: "task_create L (Some ''app_task_1'') (app_task_1_addr app) 0 st = (id1, s1)" by fastforce
  obtain id2 s2 where s2: "task_create L (Some ''app_task_2'') (app_task_2_addr app) 0 s1 = (id2, s2)" by fastforce
  obtain id3 s3 where s3: "task_create L (Some ''app_task_3'') (app_task_3_addr app) 0 s2 = (id3, s3)" by fastforce
  note made = app_tasks_created [OF assms(2,6-9,3-5) s1 s2 s3]
  have rest: "same_rest st s3" "os_board s3 = os_board st"
    using task_create_rest [of st L "Some ''app_task_1''" "app_task_1_addr app" 0] same_rest_trans
      task_create_rest [of s1 L "Some ''app_task_2''" "app_task_2_addr app" 0]
      task_create_rest [of s2 L "Some ''app_task_3''" "app_task_3_addr app" 0]
    unfolding s1 s2 s3 snd_conv by metis+
  have "unstarted s3" using assms(11) rest(1) by (simp add: unstarted_def same_rest_def)
  from print_stage [OF assms(1) this, of 50 tasks_items] obtain st' where
    st': "print_all env 50 tasks_items s3 = Some st'" "printed (items_text tasks_items) s3 st'" by blast
  have "task_get_count s3 = 4" using made(3) by (simp add: task_get_count_def u32_eq_iff_unat)
  then have "create_app_tasks L app env st = Some st'"
    using st'(1) by (simp add: create_app_tasks_def s1 s2 s3 made(4-6) tasks_items_def)
  moreover have "tasks_ready L app s3" 
    unfolding tasks_ready_def tasks_made_def by (intro conjI made(1-3,7-10) made(8) [unfolded assms(10)])
  then have "tasks_ready L app st'"
    using st'(2) tasks_made_cong(2) [of st' s3 L app] by (simp add: printed_def same_kernel_def)
  moreover have "same_rest st st'"
    using rest(1) same_kernel_rest st'(2) same_rest_trans unfolding printed_def by blast
  moreover have "uart_output (os_board st') = uart_output (os_board st) @ items_text tasks_items"
    using st'(2) rest(2) by (simp add: printed_def)
  ultimately show ?thesis by blast
qed

text \<open>The scheduler runs, with task 1 current, and no switch has happened yet.\<close>

definition scheduled :: "link_layout \<Rightarrow> task_entries \<Rightarrow> 'a kernel_scheme \<Rightarrow> bool" where
  "scheduled L app k \<longleftrightarrow> sched_wf k \<and> tasks_made L app k \<and> g_current_task_id k = 1 \<and>
     (\<forall>i < 4. state_of k i = (if i = 1 then TASK_STATE_RUNNING else TASK_STATE_READY)) \<and>
     g_scheduler_state k = SCHEDULER_STATE_RUNNING \<and> g_context_switch_started k = 0"

lemma scheduled_cong:
  assumes "g_task_table k' = g_task_table k" "g_task_count k' = g_task_count k" "task_memory k' = task_memory k"
    "g_current_task_id k' = g_current_task_id k" "g_scheduler_state k' = g_scheduler_state k"
    "g_context_switch_started k' = g_context_switch_started k"
  shows "scheduled L app k' = scheduled L app k"
  using assms tasks_made_cong(1) [of k' k L app] sched_wf_cong [of k' k] by (simp add: scheduled_def)

lemma scheduled_unstarted: "scheduled L app k \<Longrightarrow> unstarted k"
  using sched_wfD(1) [of k] by (auto simp: scheduled_def unstarted_def tasks_made_def)

lemma first_schedule:
  assumes ready: "tasks_ready L app k" and "g_current_task_id k = 0"
  shows "sched_wf k" "chosen k = 1"
proof -
  have facts: "tasks_wf k" "task_total k = 4" "\<forall>i < 4. state_of k i = TASK_STATE_READY"
    using ready by (auto simp: tasks_ready_def tasks_made_def)
  show wf: "sched_wf k" using facts assms(2) by (auto simp: sched_wf_def)
  have "current_index k = 0" using assms(2) by simp
  moreover have "ring_order 0 4 = [1, 2, 3, 0]" by code_simp
  ultimately show "chosen k = 1"
    using facts by (simp add: chosen_eq_selected [OF wf] runnable_def)
qed

lemma schedule_next_rest:
  assumes "sched_wf st"
  shows "same_rest st (snd (os_schedule_next st)) \<and> os_board (snd (os_schedule_next st)) = os_board st"
  by (simp add: os_schedule_next_eq [OF assms] requeue_eq [OF assms] dispatch_def same_rest_def)

lemma schedule_next_scheduled:
  assumes "tasks_ready L app k" "g_current_task_id k = 0"
    and "g_scheduler_state k = SCHEDULER_STATE_RUNNING" "g_context_switch_started k = 0"
  shows "scheduled L app (snd (os_schedule_next k))"
proof -
  let ?n = "snd (os_schedule_next k)"
  note wf = first_schedule(1) [OF assms(1,2)] and one = first_schedule(2) [OF assms(1,2)]
  note frame = schedule_next_frame [OF wf] and fields = schedule_next_fields [OF wf] and simps = schedule_next_simps [OF wf]
  have ready: "tasks_made L app k" "task_total k = 4" "\<forall>i < 4. state_of k i = TASK_STATE_READY"
    using assms(1) by (auto simp: tasks_ready_def tasks_made_def)
  have same: "tcb_entry (task_at ?n i) = tcb_entry (task_at k i)" "tcb_stack_pointer (task_at ?n i) = tcb_stack_pointer (task_at k i)"
      "tcb_stack_base (task_at ?n i) = tcb_stack_base (task_at k i)" "tcb_stack_top (task_at ?n i) = tcb_stack_top (task_at k i)" for i
    using arg_cong [of _ _ tcb_entry, OF fields [of i]] arg_cong [of _ _ tcb_stack_pointer, OF fields [of i]]
      arg_cong [of _ _ tcb_stack_base, OF fields [of i]] arg_cong [of _ _ tcb_stack_top, OF fields [of i]] by simp_all
  have "map tcb_entry (take 4 (g_task_table ?n)) = map tcb_entry (take 4 (g_task_table k))"
    using sched_wfD(4) [OF wf] frame(3) same(1) by (intro nth_equalityI) simp_all
  then have "tasks_made L app ?n"
    using ready(1) same frame(1) simps(1) by (simp add: tasks_made_def stacks_wf_def)
  moreover have "g_current_task_id ?n = 1" using frame(2) one by (simp add: u32_eq_iff_unat)
  moreover have "\<forall>i < 4. state_of ?n i = (if i = 1 then TASK_STATE_RUNNING else TASK_STATE_READY)"
    using schedule_next_state [OF wf] ready one by simp
  ultimately show ?thesis
    using schedule_next_wf [OF wf] simps(5,7) assms(3,4) by (simp add: scheduled_def)
qed

lemma start_scheduler_ends:
  assumes "env_ok env" "tasks_ready L app st"
  shows "\<exists>st'. start_scheduler env st = Some st' \<and> scheduled L app st' \<and>
    g_console_mutex st' = g_console_mutex st \<and> g_resource_semaphore st' = g_resource_semaphore st \<and>
    g_message_queue_storage st' = g_message_queue_storage st \<and> g_message_queue st' = g_message_queue st \<and>
    cpu_primask st' = cpu_primask st \<and> cpu_ipsr st' = cpu_ipsr st \<and> pendsv_pending st' = pendsv_pending st \<and>
    uart_output (os_board st') = uart_output (os_board st) @ items_text [Text ''[OK] Preemptive scheduler initialized\<newline>'']"
proof -
  let ?k = "os_context_switch_init (os_scheduler_init st)"
  let ?r = "?k\<lparr>g_scheduler_state := SCHEDULER_STATE_RUNNING\<rparr>"
  have r: "tasks_ready L app ?r" "g_current_task_id ?r = 0" "g_scheduler_state ?r = SCHEDULER_STATE_RUNNING"
      "g_context_switch_started ?r = 0"
    using assms(2) tasks_made_cong(2) [of ?r st L app]
    by (simp_all add: os_context_switch_init_def os_scheduler_init_def Let_def)
  note wf = first_schedule(1) [OF r(1,2)]
  obtain result n where next_task: "os_schedule_next ?r = (result, n)" by fastforce
  have n: "scheduled L app n" using schedule_next_scheduled [OF r] by (simp add: next_task)
  have "g_scheduler_state ?k \<noteq> SCHEDULER_STATE_STOPPED"
    by (simp add: os_context_switch_init_def os_scheduler_init_def Let_def)
  moreover have "result \<noteq> None" using schedule_next_returns [OF wf] by (simp add: next_task)
  ultimately have started: "os_scheduler_start ?k = (SCHEDULER_OK, n)"
    using next_task by (auto simp: os_scheduler_start_def Let_def)
  from print_stage [OF assms(1) scheduled_unstarted [OF n]] obtain st' where
    st': "print_all env 70 [Text ''[OK] Preemptive scheduler initialized\<newline>''] n = Some st'"
      "printed (items_text [Text ''[OK] Preemptive scheduler initialized\<newline>'']) n st'" by blast
  have "start_scheduler env st = Some st'" using started st'(1) by (simp add: start_scheduler_def)
  moreover have "scheduled L app st'"
    using n st'(2) scheduled_cong [of st' n L app] by (simp add: printed_def same_kernel_def)
  ultimately show ?thesis
    using st'(2) schedule_next_rest [OF wf] next_task unfolding printed_def same_kernel_def same_rest_def
    by (simp add: os_context_switch_init_def os_scheduler_init_def Let_def)
qed

end
