(* ===== verification/Kernel_Main_Properties.thy ===== *)
theory Kernel_Main_Properties
  imports Kernel_Stages
begin

text \<open>
  The start of the system as a whole: \<open>kernel_main\<close> reaches the first task, with the kernel, the
  service objects and the console output in the state that the other properties start from.
\<close>

section \<open>The first task\<close>

lemma read_words_append:
  "read_words mem sp (m + n) = read_words mem sp m @ read_words mem (sp + 4 * of_nat m) n"
  by (intro nth_equalityI) (auto simp: read_words_def nth_append algebra_simps)

lemma first_task_starts:
  assumes "scheduled L app k" "layout_ok L" "cpu_primask k = 0" "cpu_ipsr k = 0" "\<not> pendsv_pending k"
    "g_scheduler_tick_count k = 0"
  defines "sp \<equiv> (stack_top_addr L 1 AND NOT 7) - 64"
  defines "k' \<equiv> k\<lparr>cpu_r4_r11 := read_words (task_memory k) sp 8, cpu_psp := sp + 32, cpu_control := 2,
    g_context_switch_started := 1\<rparr>"
  shows "os_start_first_task k = Some k'" "kernel_wf k'" "thread_active k'"
    "cpu_r4_r11 k' @ read_words (task_memory k') (cpu_psp k') 8 = rev (initial_frame L (app_task_1_addr app) 0)"
proof -
  have wf: "sched_wf k" "g_current_task_id k = 1" "task_total k = 4" "g_scheduler_state k = SCHEDULER_STATE_RUNNING"
      "state_of k 1 = TASK_STATE_RUNNING" "tcb_stack_pointer (task_at k 1) = sp"
      "read_words (task_memory k) sp 16 = rev (initial_frame L (app_task_1_addr app) 0)"
    using assms(1) by (auto simp: scheduled_def tasks_made_def sp_def)
  have sp: "sp \<noteq> 0"
    using tasks_wfD(4) [OF sched_wfD(1) [OF wf(1)], of 1] wf(3,6) by (simp add: tcb_wf_def)
  have "os_get_current_task_stack_pointer_internal k = sp"
    using current_valid [OF wf(1)] wf(2,6) by (simp add: os_get_current_task_stack_pointer_internal_def)
  then show "os_start_first_task k = Some k'"
    using sp by (simp add: os_start_first_task_def SVC_Handler_def ldmia_r4_r11_def
        os_context_switch_mark_started_def k'_def)
  show "kernel_wf k'" "thread_active k'"
    using wf assms(3-6) by (simp_all add: kernel_wf_def thread_active_def k'_def)
  show "cpu_r4_r11 k' @ read_words (task_memory k') (cpu_psp k') 8 = rev (initial_frame L (app_task_1_addr app) 0)"
    using read_words_append [of "task_memory k" sp 8 8] wf(7) by (simp add: k'_def)
qed

section \<open>The services after the start\<close>

text \<open>The queue owns mutex 0 and semaphores 0 and 1; every other index stands for an application object.\<close>

definition booted_ipc :: "demo \<Rightarrow> os_state \<Rightarrow> ipc" where
  "booted_ipc demo st = kernel.extend (kernel.truncate st) (ipc.fields
     ((\<lambda>_. g_console_mutex st)(access_mutex :=
        if queue_demo demo then mq_access_mutex (g_message_queue st) else g_console_mutex st))
     (case demo of
        Message_queue_demo stress \<Rightarrow> (\<lambda>_. mq_available_items (g_message_queue st))
          (available_spaces := mq_available_spaces (g_message_queue st))
      | Semaphore_demo \<Rightarrow> (\<lambda>_. g_resource_semaphore st)
      | _ \<Rightarrow> (\<lambda>_. fresh_semaphore KERNEL_SEMAPHORE_RESOURCE_CAPACITY (g_resource_semaphore st)))
     (\<lambda>_. Outside))"

definition booted_system :: "demo \<Rightarrow> os_state \<Rightarrow> queue_system" where
  "booted_system demo st = \<lparr>sys_ipc = booted_ipc demo st,
     sys_ring = message_ring.truncate (g_message_queue st), sys_code = \<lambda>_. None\<rparr>"

text \<open>The initialised objects in a state.\<close>

definition queue_bytes :: "demo \<Rightarrow> nat" where
  "queue_bytes demo = 12 * unat (KERNEL_MESSAGE_QUEUE_CAPACITY demo)"

definition objects_ready :: "demo \<Rightarrow> 'a os_state_scheme \<Rightarrow> bool" where
  "objects_ready demo st \<longleftrightarrow> (\<exists>m. g_console_mutex st = fresh_mutex m) \<and>
     (demo = Semaphore_demo \<longrightarrow> (\<exists>x. g_resource_semaphore st = fresh_semaphore KERNEL_SEMAPHORE_RESOURCE_CAPACITY x)) \<and>
     (queue_demo demo \<longrightarrow> (\<exists>bytes q. length bytes = queue_bytes demo \<and> g_message_queue st = fresh_queue demo bytes q))"

lemma with_objects_ready:
  "length (g_message_queue_storage st) = queue_bytes demo \<Longrightarrow> objects_ready demo (with_objects demo st)"
  by (cases demo) (auto simp: objects_ready_def with_objects_def Let_def)

lemma fresh_objects:
  "mutex_ok n B {} (fresh_mutex m)" "0 < n \<Longrightarrow> c \<noteq> 0 \<Longrightarrow> semaphore_ok n B {} (fresh_semaphore c x)"
  "\<exists>m. mq_access_mutex (fresh_queue demo bytes q) = fresh_mutex m"
  "0 < n \<Longrightarrow> semaphore_ok n B {} (mq_available_items (fresh_queue demo bytes q))"
  "0 < n \<Longrightarrow> semaphore_ok n B {} (mq_available_spaces (fresh_queue demo bytes q))"
  using mutex_init_ok [of m _ "fresh_mutex m" n B] semaphore_init_ok [of x c c "fresh_semaphore c x" n B]
  by (auto simp: os_mutex_init_def os_semaphore_init_def fresh_queue_def os_message_queue_init_def semaphore_ok_def KERNEL_MESSAGE_QUEUE_CAPACITY_def)

lemma booted_kernel:
  "kernel_wf (booted_ipc demo st) = kernel_wf st" "task_total (booted_ipc demo st) = task_total st"
  "ipc_activity (booted_ipc demo st) i = Outside" "task_blocked (booted_ipc demo st) = task_blocked st"
  "ipc_mutexes (booted_ipc demo st) = (\<lambda>_. g_console_mutex st)(access_mutex :=
     if queue_demo demo then mq_access_mutex (g_message_queue st) else g_console_mutex st)"
  by (simp_all add: booted_ipc_def kernel.defs ipc.defs kernel_wf_def sched_wf_def tasks_wf_def table_wf_def
      task_blocked_def fun_eq_iff)

lemma booted_services:
  assumes "kernel_wf st" "\<forall>i < task_total st. state_of st i \<noteq> TASK_STATE_BLOCKED" "objects_ready demo st"
  shows "ipc_wf (booted_ipc demo st)" "queue_demo demo \<Longrightarrow> queue_start (g_message_queue st) (booted_system demo st)"
proof -
  let ?n = "task_total st" and ?B = "task_blocked st"
  have total: "0 < ?n" using tasks_wfD(2) [OF sched_wfD(1) [OF kernel_wfD(1) [OF assms(1)]]] .
  have none: "\<not> ?B i" for i using assms(2) by (auto simp: task_blocked_def)
  obtain m where m: "g_console_mutex st = fresh_mutex m" using assms(3) by (auto simp: objects_ready_def)
  have mutexes: "mutex_ok ?n ?B {} (ipc_mutexes (booted_ipc demo st) i)" for i
  proof (cases "queue_demo demo")
    case True
    then obtain bytes q where "g_message_queue st = fresh_queue demo bytes q" using assms(3) by (auto simp: objects_ready_def)
    then show ?thesis using fresh_objects(1) fresh_objects(3) [of demo bytes q] m by (auto simp: booted_kernel)
  next
    case False
    then show ?thesis using fresh_objects(1) m by (simp add: booted_kernel)
  qed
  have semaphores: "semaphore_ok ?n ?B {} (ipc_semaphores (booted_ipc demo st) i)" for i
    using assms(3) fresh_objects(2,4,5) [OF total]
    by (cases demo) (auto simp: booted_ipc_def kernel.defs ipc.defs objects_ready_def)
  show wf: "ipc_wf (booted_ipc demo st)"
    unfolding ipc_wf_def ipc_ok_def booted_kernel(1-4) using assms(1) mutexes semaphores none by simp
  assume demo: "queue_demo demo"
  then obtain bytes q where q: "length bytes = queue_bytes demo" "g_message_queue st = fresh_queue demo bytes q"
    using assms(3) by (auto simp: objects_ready_def)
  have "\<exists>q0 bytes size capacity. os_message_queue_init (Some q0) (Some bytes) size capacity =
      (OS_MESSAGE_QUEUE_OK, Some (g_message_queue st)) \<and> unat capacity * unat size \<le> length bytes \<and> length bytes < 2 ^ 32"
    using fresh_queue_init [of q bytes demo] q
    by (intro exI [of _ q] exI [of _ bytes] exI [of _ 12] exI [of _ "KERNEL_MESSAGE_QUEUE_CAPACITY demo"])
      (simp add: queue_bytes_def KERNEL_MESSAGE_QUEUE_CAPACITY_def)
  then show "queue_start (g_message_queue st) (booted_system demo st)"
    using wf demo by (simp add: queue_start_def booted_system_def booted_kernel)
      (cases demo; simp add: booted_ipc_def kernel.defs ipc.defs)
qed

section \<open>The console log\<close>

text \<open>The lines that a terminal shows for a start that succeeds.\<close>

definition boot_lines :: "demo \<Rightarrow> u32 \<Rightarrow> string list" where
  "boot_lines demo clock_hz =
     [''WELCOME to MELK OS'', ''[OK] Booting..'', ''[OK] PLL System clock configured'',
      ''[OK] GPIO configured explicitly'', ''[OK] UART0 configured'',
      (if systick_is_valid_clock clock_hz \<noteq> 0 then ''[OK] SysTick configured for 1 ms tick''
       else ''[ERROR] SysTick configuration failed''),
      '' System clock Hz: '' @ decimal (unat clock_hz), '' OS ticks per second: 1000'',
      ''[OK] Console mutex initialized''] @
     (case demo of
        Semaphore_demo \<Rightarrow> [''[OK] Counting semaphore initialized with 2 resource slots'']
      | Message_queue_demo stress \<Rightarrow> [''[OK] Message queue initialized with capacity '' @ (if stress then ''2'' else ''4'')]
      | _ \<Rightarrow> []) @
     [''[OK] Task system initialized'', '' Created tasks: 4'', '' app_task_1 id: 1'', '' app_task_2 id: 2'',
      '' app_task_3 id: 3'', ''[OK] Preemptive scheduler initialized'', ''[OK] Starting first real task using PSP'']"

definition terminal_lines :: "string list \<Rightarrow> string" where
  "terminal_lines ls = concat (map (\<lambda>l. l @ [CHR 0x0D, CHR 0x0A]) ls)"

lemma decimal_examples:
  "decimal (Suc 0) = ''1''" "decimal 2 = ''2''" "decimal 3 = ''3''" "decimal 4 = ''4''" "decimal 1000 = ''1000''"
  by code_simp+

lemma boot_log_text:
  "items_text (welcome_items clock_hz) @ items_text (objects_items demo) @ items_text tasks_items @
     items_text [Text ''[OK] Preemptive scheduler initialized\<newline>''] @
     items_text [Text ''[OK] Starting first real task using PSP\<newline>''] =
   terminal_lines (boot_lines demo clock_hz)"
  by (cases demo; cases "systick_is_valid_clock clock_hz = 0")
    (simp_all add: items_text_def welcome_items_def objects_items_def tasks_items_def terminal_lines_def
      boot_lines_def decimal_examples KERNEL_MESSAGE_QUEUE_CAPACITY_def)

section \<open>Composition\<close>

lemma with_objects_simps [simp]:
  "tasks_wf (with_objects demo st) = tasks_wf st" "stacks_wf L (with_objects demo st) = stacks_wf L st"
  "g_task_table (with_objects demo st) = g_task_table st" "g_task_count (with_objects demo st) = g_task_count st"
  "os_board (with_objects demo st) = os_board st" "g_scheduler_state (with_objects demo st) = g_scheduler_state st"
  "cpu_primask (with_objects demo st) = cpu_primask st" "cpu_ipsr (with_objects demo st) = cpu_ipsr st"
  "pendsv_pending (with_objects demo st) = pendsv_pending st"
  by (cases demo; simp add: with_objects_def Let_def)+

lemma objects_ready_cong:
  assumes "g_console_mutex st' = g_console_mutex st" "g_resource_semaphore st' = g_resource_semaphore st"
    "g_message_queue st' = g_message_queue st"
  shows "objects_ready demo st' = objects_ready demo st"
  using assms by (simp add: objects_ready_def)

text \<open>Up to the creation of the tasks.\<close>

lemma tasks_stage:
  assumes "layout_ok L" "app_task_1_addr app \<noteq> 0" "app_task_2_addr app \<noteq> 0" "app_task_3_addr app \<noteq> 0" "env_ok env"
    and "length (g_task_table st) = OS_MAX_TASKS" "g_scheduler_state st = SCHEDULER_STATE_STOPPED"
    and "length (g_message_queue_storage st) = queue_bytes demo"
  shows "\<exists>st1 st2 st3 st4 st5. start_drivers env clock_hz st = Some st1 \<and>
    start_console_mutex env (task_system_init L st1) = Some st2 \<and> start_resource_semaphore env demo st2 = Some st3 \<and>
    start_message_queue env demo st3 = Some st4 \<and> create_app_tasks L app env st4 = Some st5 \<and>
    tasks_ready L app st5 \<and> objects_ready demo st5 \<and> cpu_primask st5 = cpu_primask st \<and>
    cpu_ipsr st5 = cpu_ipsr st \<and> pendsv_pending st5 = pendsv_pending st \<and>
    uart_output (os_board st5) = uart_output (os_board st) @ items_text (welcome_items clock_hz) @
      items_text (objects_items demo) @ items_text tasks_items"
proof -
  note L = assms(1) and env = assms(5)
  have stopped: "g_scheduler_state st \<noteq> SCHEDULER_STATE_RUNNING" using assms(7) by simp
  obtain st1 where st1: "start_drivers env clock_hz st = Some st1" "printed (items_text (welcome_items clock_hz)) st st1"
    using start_drivers_ends [OF env stopped] by blast
  have len: "length (g_task_table st1) = OS_MAX_TASKS" using st1(2) assms(6) by (simp add: printed_def same_kernel_def)
  let ?i = "task_system_init L st1"
  note init = task_system_init_wf [OF L len] task_system_init_idle [OF L len]
  have rest: "same_rest st ?i" "os_board ?i = os_board st1"
    using task_system_init_rest [of st1 L] same_kernel_rest st1(2) same_rest_trans unfolding printed_def by blast+
  have ui: "unstarted ?i" using rest(1) stopped by (simp add: unstarted_def same_rest_def)
  obtain st2 st3 st4 where objects: "start_console_mutex env ?i = Some st2" "start_resource_semaphore env demo st2 = Some st3"
      "start_message_queue env demo st3 = Some st4" "printed (items_text (objects_items demo)) (with_objects demo ?i) st4"
    using start_objects_end [OF env ui] by blast
  have st4: "same_kernel (with_objects demo ?i) st4" using objects(4) by (simp add: printed_def)
  have "objects_ready demo (with_objects demo ?i)"
    by (rule with_objects_ready) (use rest(1) assms(8) in \<open>simp add: same_rest_def\<close>)
  then have ready: "objects_ready demo st4"
    using st4 objects_ready_cong [of st4 "with_objects demo ?i" demo] by (simp add: same_kernel_def)
  have tasks: "tasks_wf st4" "stacks_wf L st4" "task_total st4 = 1" "state_of st4 0 = TASK_STATE_READY"
      "tcb_entry (task_at st4 0) = idle_task_addr L" "g_scheduler_state st4 \<noteq> SCHEDULER_STATE_RUNNING"
    using init st4 stopped rest(1) same_kernel_wf(1,2) [OF st4] by (simp_all add: same_kernel_def same_rest_def)
  obtain st5 where st5: "create_app_tasks L app env st4 = Some st5" "tasks_ready L app st5" "same_rest st4 st5"
      "uart_output (os_board st5) = uart_output (os_board st4) @ items_text tasks_items"
    using create_app_tasks_ends [OF env L assms(2-4) tasks] by blast
  have "objects_ready demo st5"
    using ready st5(3) objects_ready_cong [of st5 st4 demo] by (simp add: same_rest_def)
  moreover have "cpu_primask st5 = cpu_primask st" "cpu_ipsr st5 = cpu_ipsr st" "pendsv_pending st5 = pendsv_pending st"
    using st5(3) st4 rest(1) by (simp_all add: same_rest_def same_kernel_def)
  moreover have "uart_output (os_board st5) = uart_output (os_board st) @ items_text (welcome_items clock_hz) @
      items_text (objects_items demo) @ items_text tasks_items"
    using st5(4) objects(4) st1(2) rest(2) by (simp add: printed_def)
  ultimately show ?thesis using st1(1) objects(1-3) st5(1,2) by blast
qed

section \<open>The start as a whole\<close>

text \<open>
  The system when the first task starts: the kernel is well formed, with the idle task and the
  three tasks, task 1 RUNNING and the others READY, each on its own stack; the processor
  continues at the entry of task 1 with its initial registers; the mutexes, semaphores and the
  message queue are in a state in which the properties of the services start.
\<close>

definition booted :: "link_layout \<Rightarrow> task_entries \<Rightarrow> demo \<Rightarrow> os_state \<Rightarrow> bool" where
  "booted L app demo st \<longleftrightarrow>
     kernel_wf st \<and> stacks_wf L st \<and> thread_active st \<and> task_total st = 4 \<and> g_current_task_id st = 1 \<and>
     (\<forall>i < 4. state_of st i = (if i = 1 then TASK_STATE_RUNNING else TASK_STATE_READY)) \<and>
     map tcb_entry (take 4 (g_task_table st)) =
       [idle_task_addr L, app_task_1_addr app, app_task_2_addr app, app_task_3_addr app] \<and>
     cpu_r4_r11 st @ read_words (task_memory st) (cpu_psp st) 8 = rev (initial_frame L (app_task_1_addr app) 0) \<and>
     g_preemption_enabled st = 1 \<and> objects_ready demo st \<and> ipc_wf (booted_ipc demo st) \<and>
     (queue_demo demo \<longrightarrow> queue_start (g_message_queue st) (booted_system demo st))"

text \<open>The static variables at the entry of \<open>kernel_main\<close>: the initial values of their declarations.\<close>

definition reset_statics :: "demo \<Rightarrow> os_state \<Rightarrow> bool" where
  "reset_statics demo st \<longleftrightarrow> length (g_task_table st) = OS_MAX_TASKS \<and> g_scheduler_state st = SCHEDULER_STATE_STOPPED \<and>
     cpu_primask st = 0 \<and> cpu_ipsr st = 0 \<and> \<not> pendsv_pending st \<and> length (g_message_queue_storage st) = queue_bytes demo"

lemma kernel_main_result:
  fixes st :: os_state
  assumes "layout_ok L" "app_task_1_addr app \<noteq> 0" "app_task_2_addr app \<noteq> 0" "app_task_3_addr app \<noteq> 0"
    and "env_ok env" "reset_statics demo st"
  shows "\<exists>st'. kernel_main L app env demo clock_hz st = Some st' \<and> booted L app demo st' \<and>
    uart_output (os_board st') = uart_output (os_board st) @ terminal_lines (boot_lines demo clock_hz)"
proof -
  have reset: "length (g_task_table st) = OS_MAX_TASKS" "g_scheduler_state st = SCHEDULER_STATE_STOPPED"
      "cpu_primask st = 0" "cpu_ipsr st = 0" "\<not> pendsv_pending st" "length (g_message_queue_storage st) = queue_bytes demo"
    using assms(6) by (simp_all add: reset_statics_def)
  obtain st1 st2 st3 st4 st5 where st5: "start_drivers env clock_hz st = Some st1"
      "start_console_mutex env (task_system_init L st1) = Some st2" "start_resource_semaphore env demo st2 = Some st3"
      "start_message_queue env demo st3 = Some st4" "create_app_tasks L app env st4 = Some st5"
      "tasks_ready L app st5" "objects_ready demo st5" "cpu_primask st5 = 0" "cpu_ipsr st5 = 0" "\<not> pendsv_pending st5"
      "uart_output (os_board st5) = uart_output (os_board st) @ items_text (welcome_items clock_hz) @
        items_text (objects_items demo) @ items_text tasks_items"
    using tasks_stage [OF assms(1-5) reset(1,2,6), of clock_hz] reset(3-5) by auto
  obtain st6 where st6: "start_scheduler env st5 = Some st6" "scheduled L app st6" "objects_ready demo st6"
      "cpu_primask st6 = 0" "cpu_ipsr st6 = 0" "\<not> pendsv_pending st6"
      "uart_output (os_board st6) = uart_output (os_board st5) @ items_text [Text ''[OK] Preemptive scheduler initialized\<newline>'']"
    using start_scheduler_ends [OF assms(5) st5(6)] st5(7-10) objects_ready_cong by metis
  let ?e = "os_scheduler_enable_preemption st6"
  let ?last = "[Text ''[OK] Starting first real task using PSP\<newline>'']"
  have e: "scheduled L app ?e"
    using st6(2) scheduled_cong [of ?e st6 L app] by (simp add: os_scheduler_enable_preemption_def)
  obtain st7 where st7: "print_all env 80 ?last ?e = Some st7" "printed (items_text ?last) ?e st7"
    using print_stage [OF assms(5) scheduled_unstarted [OF e]] by blast
  have s7: "scheduled L app st7" "cpu_primask st7 = 0" "cpu_ipsr st7 = 0" "\<not> pendsv_pending st7"
      "g_scheduler_tick_count st7 = 0" "g_preemption_enabled st7 = 1" "objects_ready demo st7"
    using st7(2) e st6(3-6) scheduled_cong [of st7 ?e L app] objects_ready_cong [of st7 st6 demo]
    by (simp_all add: printed_def same_kernel_def os_scheduler_enable_preemption_def)
  note first = first_task_starts [OF s7(1) assms(1) s7(2-5)]
  let ?k = "\<lambda>regs psp. st7\<lparr>cpu_r4_r11 := regs, cpu_psp := psp, cpu_control := 2, g_context_switch_started := 1\<rparr>"
  obtain regs psp where k: "os_start_first_task st7 = Some (?k regs psp)" "kernel_wf (?k regs psp)"
      "thread_active (?k regs psp)"
      "regs @ read_words (task_memory st7) psp 8 = rev (initial_frame L (app_task_1_addr app) 0)"
    by (rule that [OF first(1-3)]) (use first(4) in simp)
  have facts: "stacks_wf L (?k regs psp)" "task_total (?k regs psp) = 4" "g_current_task_id (?k regs psp) = 1"
      "\<forall>i < 4. state_of (?k regs psp) i = (if i = 1 then TASK_STATE_RUNNING else TASK_STATE_READY)"
      "map tcb_entry (take 4 (g_task_table (?k regs psp))) =
        [idle_task_addr L, app_task_1_addr app, app_task_2_addr app, app_task_3_addr app]"
    using s7(1) tasks_made_cong(1) [of "?k regs psp" st7 L app] by (simp_all add: scheduled_def tasks_made_def)
  have running: "\<forall>i < task_total (?k regs psp). state_of (?k regs psp) i \<noteq> TASK_STATE_BLOCKED"
    using facts(2,4) by simp
  have ready: "objects_ready demo (?k regs psp)"
    using s7(7) objects_ready_cong [of "?k regs psp" st7 demo] by simp
  note services = booted_services [OF k(2) running ready]
  have "uart_output (os_board st7) = uart_output (os_board st) @ terminal_lines (boot_lines demo clock_hz)"
    using st7(2) st6(7) st5(11) boot_log_text [of clock_hz demo]
    by (simp add: printed_def os_scheduler_enable_preemption_def)
  moreover have "kernel_main L app env demo clock_hz st = Some (?k regs psp)"
    by (simp add: kernel_main_def st5(1-5) st6(1) st7(1) k(1) del: print_all.simps)
  moreover have "booted L app demo (?k regs psp)"
    unfolding booted_def using k(2-4) facts ready services s7(6) by (intro conjI impI) simp_all
  ultimately show ?thesis by (intro exI [of _ "?k regs psp"]) simp
qed

text \<open>A board that answers, one tick during every output, and zeroed static variables.\<close>

definition demo_env :: boot_env where
  "demo_env = \<lparr>env_hw = demo_hardware, env_ticks = \<lambda>_. 1, env_buffer = \<lambda>_. replicate 11 (CHR 0x00)\<rparr>"

definition demo_entries :: task_entries where
  "demo_entries = \<lparr>app_task_1_addr = 0x701, app_task_2_addr = 0x801, app_task_3_addr = 0x901\<rparr>"

definition demo_reset :: "demo \<Rightarrow> os_state" where
  "demo_reset demo = kernel.extend zero_kernel
     (os_state.fields demo_board demo_mutex demo_semaphore (replicate (queue_bytes demo) 0) demo_queue)"

lemma demo_reset_statics: "reset_statics demo (demo_reset demo)" "uart_output (os_board (demo_reset demo)) = []"
  by (simp_all add: reset_statics_def demo_reset_def os_state.defs kernel.defs zero_kernel_def demo_board_def)

lemma demo_env_ok: "env_ok demo_env"
  using demo_hardware_ok by (simp add: env_ok_def demo_env_def)

lemma demo_entries_ok:
  "app_task_1_addr demo_entries \<noteq> 0" "app_task_2_addr demo_entries \<noteq> 0" "app_task_3_addr demo_entries \<noteq> 0"
  by (simp_all add: demo_entries_def)

end
