(* ===== verification/Boot_Properties.thy ===== *)
theory Boot_Properties
  imports Boot Kernel_Main_Properties
begin

text \<open>
  From reset to the first task: the loops of \<open>Reset_Handler\<close> end and initialise the static
  variables, and the vector table sends every exception to the right handler.
\<close>

section \<open>The vector table\<close>

lemma IntDefaultHandler_None [simp]: "IntDefaultHandler k = None"
proof -
  have "IntDefaultHandler k = Some k' \<Longrightarrow> False" for k k' :: "'a kernel_scheme"
    using IntDefaultHandler.raw_induct [of "\<lambda>_ _. False" k k'] by blast
  then show ?thesis by (cases "IntDefaultHandler k") auto
qed

lemmas stopping_handlers [simp] = NMI_Handler_def HardFault_Handler_def MemManage_Handler_def
  BusFault_Handler_def UsageFault_Handler_def DebugMon_Handler_def

lemma vector_table_checks:
  "length g_pfnVectors = 155" "take 2 g_pfnVectors = [Stack_top, Reset]"
  "filter (\<lambda>n. g_pfnVectors ! n \<in> {SVC, PendSV, SysTick}) [0..<155] = [11, 14, 15]"
  "map (\<lambda>n. g_pfnVectors ! n) [11, 14, 15] = [SVC, PendSV, SysTick]"
  by code_simp+

section \<open>The initialisation loops\<close>

text \<open>The \<open>k\<close>-th word from an address.\<close>

definition word_at :: "u32 \<Rightarrow> nat \<Rightarrow> u32" where
  "word_at a k = a + 4 * of_nat k"

lemma word_at_simps [simp]: "word_at a 0 = a" "word_at a (Suc k) = word_at (a + 4) k"
  by (simp_all add: word_at_def algebra_simps)

lemma unat_word_at: "unat a + 4 * k < 2 ^ 32 \<Longrightarrow> unat (word_at a k) = unat a + 4 * k"
  using unat_word_offset [of a k] by (simp add: word_at_def)

lemma word_at_next:
  assumes "unat e = unat a + 4 * Suc n"
  shows "unat e = unat (a + 4) + 4 * n" "a < e" "k < n \<Longrightarrow> word_at (a + 4) k \<noteq> a"
proof -
  have less: "unat a + 4 * Suc n < 2 ^ 32" using assms unat_u32_less [of e] by simp
  then have "unat (a + 4) = unat a + 4" by (simp add: unat_word_ariths)
  then show "unat e = unat (a + 4) + 4 * n" using assms by simp
  show "a < e" using assms by (simp add: u32_less_unat)
  show "word_at (a + 4) k \<noteq> a" if "k < n"
    using unat_word_at [of a "Suc k"] less that by auto
qed

lemma clear_bss_clears:
  assumes "unat ebss = unat dst + 4 * n"
  shows "\<exists>mem'. clear_bss dst ebss mem = Some mem' \<and> (\<forall>k < n. mem' (word_at dst k) = 0) \<and>
    (\<forall>a. (\<forall>k < n. a \<noteq> word_at dst k) \<longrightarrow> mem' a = mem a)"
  using assms
proof (induction n arbitrary: dst mem)
  case 0
  then show ?case by (simp add: clear_bss.simps [of dst] u32_less_unat)
next
  case (Suc n)
  note step = word_at_next [OF Suc.prems]
  from Suc.IH [OF step(1), of "mem(dst := 0)"] obtain mem' where
    mem': "clear_bss (dst + 4) ebss (mem(dst := 0)) = Some mem'" "\<forall>k < n. mem' (word_at (dst + 4) k) = 0"
      "\<forall>a. (\<forall>k < n. a \<noteq> word_at (dst + 4) k) \<longrightarrow> mem' a = (mem(dst := 0)) a" by blast
  have "mem' dst = 0" using mem'(3) [rule_format, of dst] step(3) by force
  then show ?case
    using mem' step(2) by (simp add: clear_bss.simps [of dst] All_less_Suc2)
qed

lemma copy_data_copies:
  assumes "unat edata = unat dst + 4 * n" "\<forall>j < n. \<forall>k < n. word_at src j \<noteq> word_at dst k"
  shows "\<exists>mem'. copy_data src dst edata mem = Some mem' \<and>
    (\<forall>k < n. mem' (word_at dst k) = mem (word_at src k)) \<and>
    (\<forall>a. (\<forall>k < n. a \<noteq> word_at dst k) \<longrightarrow> mem' a = mem a)"
  using assms
proof (induction n arbitrary: src dst mem)
  case 0
  then show ?case by (simp add: copy_data.simps [of src dst] u32_less_unat)
next
  case (Suc n)
  note step = word_at_next [OF Suc.prems(1)]
  have apart: "\<forall>j < n. \<forall>k < n. word_at (src + 4) j \<noteq> word_at (dst + 4) k"
      "\<forall>j < n. word_at (src + 4) j \<noteq> dst"
    using Suc.prems(2) by (simp_all add: All_less_Suc2)
  let ?mem = "mem(dst := mem src)"
  from Suc.IH [OF step(1) apart(1), of ?mem] obtain mem' where
    mem': "copy_data (src + 4) (dst + 4) edata ?mem = Some mem'"
      "\<forall>k < n. mem' (word_at (dst + 4) k) = ?mem (word_at (src + 4) k)"
      "\<forall>a. (\<forall>k < n. a \<noteq> word_at (dst + 4) k) \<longrightarrow> mem' a = ?mem a" by blast
  have "mem' dst = mem src" using mem'(3) [rule_format, of dst] step(3) by force
  then show ?case
    using mem' step(2) apart(2) by (simp add: copy_data.simps [of src dst] All_less_Suc2)
qed

section \<open>Initialised memory\<close>

definition data_words :: "linker_symbols \<Rightarrow> nat" where
  "data_words lk = (unat (lk_edata lk) - unat (lk_sdata lk)) div 4"

definition bss_words :: "linker_symbols \<Rightarrow> nat" where
  "bss_words lk = (unat (lk_ebss lk) - unat (lk_sbss lk)) div 4"

text \<open>
  What is assumed of the linked image. The linker command file places the load image of
  \<open>.data\<close> in flash, below \<open>0x40000\<close>, and \<open>.data\<close> and \<open>.bss\<close> in SRAM without overlap. That the
  sizes of both sections are multiples of a word is an assumption about the image: the file has
  no \<open>ALIGN\<close>, and the loops of \<open>Reset_Handler\<close> would write past the end of a section otherwise.
\<close>

definition linked_ok :: "linker_symbols \<Rightarrow> bool" where
  "linked_ok lk \<longleftrightarrow>
     unat (lk_sdata lk) \<le> unat (lk_edata lk) \<and> 4 dvd unat (lk_edata lk) - unat (lk_sdata lk) \<and>
     unat (lk_sbss lk) \<le> unat (lk_ebss lk) \<and> 4 dvd unat (lk_ebss lk) - unat (lk_sbss lk) \<and>
     0x20000000 \<le> unat (lk_sdata lk) \<and> unat (lk_edata lk) \<le> 0x20008000 \<and>
     0x20000000 \<le> unat (lk_sbss lk) \<and> unat (lk_ebss lk) \<le> 0x20008000 \<and>
     (unat (lk_edata lk) \<le> unat (lk_sbss lk) \<or> unat (lk_ebss lk) \<le> unat (lk_sdata lk)) \<and>
     unat (lk_sidata lk) + (unat (lk_edata lk) - unat (lk_sdata lk)) \<le> 0x40000"

definition initialised :: "linker_symbols \<Rightarrow> (u32 \<Rightarrow> u32) \<Rightarrow> (u32 \<Rightarrow> u32) \<Rightarrow> bool" where
  "initialised lk flash mem \<longleftrightarrow>
     (\<forall>k < data_words lk. mem (word_at (lk_sdata lk) k) = flash (word_at (lk_sidata lk) k)) \<and>
     (\<forall>k < bss_words lk. mem (word_at (lk_sbss lk) k) = 0)"

lemma word_at_apart:
  assumes "unat a + 4 * m \<le> unat b \<or> unat b + 4 * n \<le> unat a" "unat a + 4 * m < 2 ^ 32" "unat b + 4 * n < 2 ^ 32"
    and "j < m" "k < n"
  shows "word_at a j \<noteq> word_at b k"
proof
  assume "word_at a j = word_at b k"
  moreover have "unat (word_at a j) = unat a + 4 * j" "unat (word_at b k) = unat b + 4 * k"
    by (rule unat_word_at; use assms in simp)+
  ultimately show False using assms by auto
qed

lemma linked_words:
  assumes "linked_ok lk"
  shows "unat (lk_edata lk) = unat (lk_sdata lk) + 4 * data_words lk"
    "unat (lk_ebss lk) = unat (lk_sbss lk) + 4 * bss_words lk"
    "\<forall>j < data_words lk. \<forall>k < data_words lk. word_at (lk_sidata lk) j \<noteq> word_at (lk_sdata lk) k"
    "\<forall>j < data_words lk. \<forall>k < bss_words lk. word_at (lk_sdata lk) j \<noteq> word_at (lk_sbss lk) k"
proof -
  show d: "unat (lk_edata lk) = unat (lk_sdata lk) + 4 * data_words lk"
    and b: "unat (lk_ebss lk) = unat (lk_sbss lk) + 4 * bss_words lk"
    using assms by (simp_all add: linked_ok_def data_words_def bss_words_def)
  show "\<forall>j < data_words lk. \<forall>k < data_words lk. word_at (lk_sidata lk) j \<noteq> word_at (lk_sdata lk) k"
    "\<forall>j < data_words lk. \<forall>k < bss_words lk. word_at (lk_sdata lk) j \<noteq> word_at (lk_sbss lk) k"
    by (intro allI impI word_at_apart; use assms d b in \<open>auto simp: linked_ok_def\<close>)+
qed

lemma memory_initialised:
  assumes "linked_ok lk"
  shows "\<exists>mem1 mem2. copy_data (lk_sidata lk) (lk_sdata lk) (lk_edata lk) mem = Some mem1 \<and>
    clear_bss (lk_sbss lk) (lk_ebss lk) mem1 = Some mem2 \<and> initialised lk mem mem2 \<and>
    (\<forall>a. (\<forall>k < data_words lk. a \<noteq> word_at (lk_sdata lk) k) \<longrightarrow> (\<forall>k < bss_words lk. a \<noteq> word_at (lk_sbss lk) k) \<longrightarrow>
      mem2 a = mem a)"
proof -
  note words = linked_words [OF assms]
  obtain mem1 where mem1: "copy_data (lk_sidata lk) (lk_sdata lk) (lk_edata lk) mem = Some mem1"
      "\<forall>k < data_words lk. mem1 (word_at (lk_sdata lk) k) = mem (word_at (lk_sidata lk) k)"
      "\<forall>a. (\<forall>k < data_words lk. a \<noteq> word_at (lk_sdata lk) k) \<longrightarrow> mem1 a = mem a"
    using copy_data_copies [OF words(1,3)] by blast
  obtain mem2 where mem2: "clear_bss (lk_sbss lk) (lk_ebss lk) mem1 = Some mem2"
      "\<forall>k < bss_words lk. mem2 (word_at (lk_sbss lk) k) = 0"
      "\<forall>a. (\<forall>k < bss_words lk. a \<noteq> word_at (lk_sbss lk) k) \<longrightarrow> mem2 a = mem1 a"
    using clear_bss_clears [OF words(2)] by blast
  have "initialised lk mem mem2" using mem1(2) mem2(2,3) words(4) by (simp add: initialised_def)
  then show ?thesis using mem1 mem2 by auto
qed

section \<open>Properties\<close>

text \<open>
  (C40) The vector table has one entry for each of the 16 system exceptions and the 139 interrupts
  of the processor. SVC, PendSV and SysTick, the exceptions the kernel uses, run the kernel's
  handlers; every other exception stops the system in an endless loop or has no code.
\<close>

theorem vector_table_dispatch:
  "length g_pfnVectors = 16 + 139 \<and> g_pfnVectors ! 0 = Stack_top \<and> g_pfnVectors ! 1 = Reset \<and>
   take_exception n k = (if n = 11 then SVC_Handler k else if n = 14 then PendSV_Handler k
     else if n = 15 then Some (systick_handler k) else None)"
proof -
  note checks = vector_table_checks
  have first: "g_pfnVectors ! 0 = Stack_top" "g_pfnVectors ! 1 = Reset"
    using checks(2) nth_take [of 0 2 g_pfnVectors] nth_take [of 1 2 g_pfnVectors] by simp_all
  have "g_pfnVectors ! n \<in> {SVC, PendSV, SysTick} \<longleftrightarrow> n \<in> {11, 14, 15}" if "n < 155"
    using arg_cong [OF checks(3), of set] that by auto
  then show ?thesis
    using first checks(1,4) by (cases "g_pfnVectors ! n") (auto simp: take_exception_def)
qed

text \<open>
  (C6) From reset to the first task: in a correctly linked image both loops of \<open>Reset_Handler\<close>
  end, every word of \<open>.data\<close> holds its initial value from flash, every word of \<open>.bss\<close> is zero and
  nothing else in memory has changed; if the static variables have their declared initial values
  in such a memory, then, whatever timer interrupts arrive during the start, for every clock and
  every demo configuration, \<open>kernel_main\<close> passes all its checks and starts task 1 with its
  initial registers in a well-formed kernel with initialised services (\<open>booted\<close>), and the
  console has received exactly the expected lines.
\<close>

theorem Reset_Handler_starts_first_task:
  assumes "linked_ok lk" "layout_ok L" "env_ok env"
    and "app_task_1_addr app \<noteq> 0" "app_task_2_addr app \<noteq> 0" "app_task_3_addr app \<noteq> 0"
    and "\<And>m b. initialised lk mem m \<Longrightarrow> reset_statics demo (statics m b) \<and> os_board (statics m b) = b"
  shows "\<exists>mem' st'. initialised lk mem mem' \<and>
    (\<forall>a. (\<forall>k < data_words lk. a \<noteq> word_at (lk_sdata lk) k) \<longrightarrow> (\<forall>k < bss_words lk. a \<noteq> word_at (lk_sbss lk) k) \<longrightarrow>
      mem' a = mem a) \<and>
    kernel_main L app env demo clock_hz (statics mem' (SystemInit (env_hw env) clock_hz b)) = Some st' \<and>
    Reset_Handler lk statics L app env demo clock_hz mem b = Some st' \<and> booted L app demo st' \<and>
    uart_output (os_board st') = uart_output b @ terminal_lines (boot_lines demo clock_hz)"
proof -
  obtain mem1 mem2 where mem: "copy_data (lk_sidata lk) (lk_sdata lk) (lk_edata lk) mem = Some mem1"
      "clear_bss (lk_sbss lk) (lk_ebss lk) mem1 = Some mem2" "initialised lk mem mem2"
      "\<forall>a. (\<forall>k < data_words lk. a \<noteq> word_at (lk_sdata lk) k) \<longrightarrow> (\<forall>k < bss_words lk. a \<noteq> word_at (lk_sbss lk) k) \<longrightarrow>
        mem2 a = mem a"
    using memory_initialised [OF assms(1)] by blast
  let ?b = "SystemInit (env_hw env) clock_hz b"
  have statics: "reset_statics demo (statics mem2 ?b)" "os_board (statics mem2 ?b) = ?b" using assms(7) mem(3) by auto
  have "uart_output ?b = uart_output b" using SystemInit_output assms(3) by (simp add: env_ok_def)
  then obtain st' where "kernel_main L app env demo clock_hz (statics mem2 ?b) = Some st'" "booted L app demo st'"
      "uart_output (os_board st') = uart_output b @ terminal_lines (boot_lines demo clock_hz)"
    using kernel_main_result [OF assms(2,4-6,3) statics(1), of clock_hz] statics(2) by auto
  then show ?thesis using mem by (auto simp: Reset_Handler_def)
qed

text \<open>A linked image with four words of \<open>.data\<close> and two of \<open>.bss\<close>; the scheduler state lies in \<open>.bss\<close>.\<close>

definition demo_symbols :: linker_symbols where
  "demo_symbols = \<lparr>lk_sidata = 0x1000, lk_sdata = 0x20000000, lk_edata = 0x20000010, lk_sbss = 0x20000010,
     lk_ebss = 0x20000018\<rparr>"

definition demo_statics :: "demo \<Rightarrow> (u32 \<Rightarrow> u32) \<Rightarrow> board \<Rightarrow> os_state" where
  "demo_statics demo m b = (demo_reset demo)\<lparr>os_board := b, g_current_task_id := m 0x20000000,
     g_scheduler_state := (if m 0x20000010 = 0 then SCHEDULER_STATE_STOPPED else SCHEDULER_STATE_RUNNING)\<rparr>"

theorem Reset_Handler_starts_first_task_witness:
  "\<exists>st'. Reset_Handler demo_symbols (demo_statics (Message_queue_demo False)) demo_layout demo_entries demo_env (Message_queue_demo False) 80000000
       (\<lambda>a. if a < 0x40000 then 0xFFFFFFFF else 7) demo_board = Some st' \<and> kernel_wf st' \<and>
     uart_output (os_board st') = terminal_lines (boot_lines (Message_queue_demo False) 80000000)"
proof -
  let ?demo = "Message_queue_demo False" and ?mem = "\<lambda>a. if a < 0x40000 then 0xFFFFFFFF else 7 :: u32"
  have linked: "linked_ok demo_symbols" by (simp add: linked_ok_def demo_symbols_def)
  have words: "bss_words demo_symbols = 2" by (simp add: bss_words_def demo_symbols_def)
  have "reset_statics ?demo (demo_statics ?demo m b) \<and> os_board (demo_statics ?demo m b) = b" if "initialised demo_symbols ?mem m" for m b
  proof -
    have "\<forall>k < bss_words demo_symbols. m (word_at (lk_sbss demo_symbols) k) = 0"
      using that unfolding initialised_def by (rule conjunct2)
    then have "m (word_at (lk_sbss demo_symbols) 0) = 0" by (simp only: words)
    then show ?thesis using demo_reset_statics(1) by (simp add: demo_statics_def reset_statics_def demo_symbols_def)
  qed
  from Reset_Handler_starts_first_task [where mem = ?mem and statics = "demo_statics ?demo" and b = demo_board and clock_hz = 80000000 and demo = ?demo,
      OF linked demo_layout_ok demo_env_ok demo_entries_ok this]
  show ?thesis by (auto simp: demo_board_def booted_def)
qed

end
