(* ===== verification/Application.thy ===== *)
theory Application
  imports Kernel_Main
begin

text \<open>
  The tasks of the demonstration (\<open>kernel/kernel.c\<close>, from \<open>kernel_record_sleep_measurement\<close> on).
  A task is preempted anywhere, so its code is a tree of the actions it takes on shared state:
  calls of the services, reads of the tick counter, the two parts of a sleep, characters sent to
  the UART, accesses of the statistics and of the port with the LEDs. One pass through the
  endless loop of a task is one tree; it ends with the values of the local variables for the
  next pass. Theory App_System runs the trees.
\<close>

section \<open>Statistics\<close>

record sleep_test_statistics_t =
  sample_count :: u32
  requested_ticks :: u32
  last_elapsed_ticks :: u32
  minimum_elapsed_ticks :: u32
  maximum_elapsed_ticks :: u32
  early_wakeup_count :: u32

record statistics =
  g_task_1_sleep_stats :: sleep_test_statistics_t
  g_task_2_sleep_stats :: sleep_test_statistics_t
  g_task_3_sleep_stats :: sleep_test_statistics_t
  g_mutex_critical_depth :: u32
  g_mutex_violation_count :: u32
  g_mutex_protected_print_count :: u32
  g_mutex_error_count :: u32
  g_semaphore_active_users :: u32
  g_semaphore_max_active_users :: u32
  g_semaphore_violation_count :: u32
  g_semaphore_wait_success_count :: u32
  g_semaphore_post_success_count :: u32
  g_semaphore_error_count :: u32
  g_message_queue_send_success_count :: u32
  g_message_queue_receive_success_count :: u32
  g_message_queue_error_count :: u32
  g_message_queue_producer_1_expected_sequence :: u32
  g_message_queue_producer_2_expected_sequence :: u32
  g_message_queue_sequence_error_count :: u32

definition sleep_statistics_initial :: "u32 \<Rightarrow> sleep_test_statistics_t" where
  "sleep_statistics_initial ms = \<lparr>sample_count = 0, requested_ticks = ms, last_elapsed_ticks = 0,
     minimum_elapsed_ticks = 0xFFFFFFFF, maximum_elapsed_ticks = 0, early_wakeup_count = 0\<rparr>"

definition statistics_initial :: statistics where
  "statistics_initial = \<lparr>g_task_1_sleep_stats = sleep_statistics_initial 500,
     g_task_2_sleep_stats = sleep_statistics_initial 1000, g_task_3_sleep_stats = sleep_statistics_initial 2000,
     g_mutex_critical_depth = 0, g_mutex_violation_count = 0, g_mutex_protected_print_count = 0,
     g_mutex_error_count = 0, g_semaphore_active_users = 0, g_semaphore_max_active_users = 0,
     g_semaphore_violation_count = 0, g_semaphore_wait_success_count = 0, g_semaphore_post_success_count = 0,
     g_semaphore_error_count = 0, g_message_queue_send_success_count = 0,
     g_message_queue_receive_success_count = 0, g_message_queue_error_count = 0,
     g_message_queue_producer_1_expected_sequence = 0, g_message_queue_producer_2_expected_sequence = 0,
     g_message_queue_sequence_error_count = 0\<rparr>"

text \<open>
  The \<open>MELK_OS_..._DEBUG\<close> switches; the sleep test is a demo of its own. The last field is the
  content of the uninitialised buffer of \<open>kernel_print_uint32\<close>.
\<close>

record validation =
  mutex_debug :: bool
  semaphore_debug :: bool
  message_queue_debug :: bool
  stale_digits :: "char list"

section \<open>Messages\<close>

record kernel_queue_message_t =
  producer_id :: u32
  sequence :: u32
  production_tick :: u32

text \<open>The message in memory, little endian; \<open>word_from\<close> reads a word from a list of bytes.\<close>

definition word_bytes :: "u32 \<Rightarrow> u8 list" where
  "word_bytes w = [ucast w, ucast (drop_bit 8 w), ucast (drop_bit 16 w), ucast (drop_bit 24 w)]"

definition word_from :: "nat \<Rightarrow> u8 list \<Rightarrow> u32" where
  "word_from i bs = ucast (bs ! i) OR push_bit 8 (ucast (bs ! (i + 1))) OR
     push_bit 16 (ucast (bs ! (i + 2))) OR push_bit 24 (ucast (bs ! (i + 3)))"

definition message_bytes :: "kernel_queue_message_t \<Rightarrow> u8 list" where
  "message_bytes m = word_bytes (producer_id m) @ word_bytes (sequence m) @ word_bytes (production_tick m)"

definition message_from :: "u8 list \<Rightarrow> kernel_queue_message_t" where
  "message_from bs = \<lparr>producer_id = word_from 0 bs, sequence = word_from 4 bs, production_tick = word_from 8 bs\<rparr>"

section \<open>Actions\<close>

datatype action =
    Queue_send "u8 list"
  | Queue_receive "u8 list"
  | Service call
  | Get_ticks
  | Read_statistics
  | Write_statistics "statistics \<Rightarrow> statistics"
  | Record "statistics \<times> ipc \<Rightarrow> statistics \<times> ipc"
  | Put char
  | Read_leds
  | Write_leds u32
  | Sleep u32
  | Sleep_until u32

datatype response =
    Status (status_of: int)
  | Delivered (status_of: int) (bytes_of: "u8 list")
  | Ticks (ticks_of: u32)
  | Snapshot (snapshot_of: statistics)
  | Port (port_of: u32)
  | Wakeup (wakeup_of: "u32 option")
  | Completed

text \<open>The local variables that live from one pass of a task's loop to the next.\<close>

datatype task_locals = No_locals | Sequence u32 | Buffer "u8 list"

datatype app = Do action "response \<Rightarrow> app" | Continue task_locals

abbreviation (input) do_service :: "call \<Rightarrow> (int \<Rightarrow> app) \<Rightarrow> app" where
  "do_service c f \<equiv> Do (Service c) (\<lambda>r. f (status_of r))"

abbreviation (input) do_ticks :: "(u32 \<Rightarrow> app) \<Rightarrow> app" where
  "do_ticks f \<equiv> Do Get_ticks (\<lambda>r. f (ticks_of r))"

abbreviation (input) do_record :: "(statistics \<times> ipc \<Rightarrow> statistics \<times> ipc) \<Rightarrow> app \<Rightarrow> app" where
  "do_record rec a \<equiv> Do (Record rec) (\<lambda>_. a)"

text \<open>
  \<open>os_sleep\<close>: its entry, which reads the tick counter, and its critical section; other tasks may
  run in between.
\<close>

definition do_sleep :: "u32 \<Rightarrow> app \<Rightarrow> app" where
  "do_sleep ms a = Do (Sleep ms) (\<lambda>r. case wakeup_of r of
     None \<Rightarrow> a
   | Some wakeup_tick \<Rightarrow> Do (Sleep_until wakeup_tick) (\<lambda>_. a))"

text \<open>The toggle functions, \<open>GPIO_PORTF_DATA_R ^= mask\<close>: a read and a write of the port, with preemption possible between.\<close>

definition do_toggle :: "u32 \<Rightarrow> app \<Rightarrow> app" where
  "do_toggle led_mask a = Do Read_leds (\<lambda>r. Do (Write_leds (port_of r XOR led_mask)) (\<lambda>_. a))"

lemma toggle_undisturbed:
  "reg_write GPIO_PORTF_DATA_R (mmio b GPIO_PORTF_DATA_R XOR GREEN_LED) b = gpio_toggle_green_led b"
  "reg_write GPIO_PORTF_DATA_R (mmio b GPIO_PORTF_DATA_R XOR RED_LED) b = gpio_toggle_red_led b"
  "reg_write GPIO_PORTF_DATA_R (mmio b GPIO_PORTF_DATA_R XOR BLUE_LED) b = gpio_toggle_blue_led b"
  by (simp_all add: gpio_led_defs reg_xor_def)

text \<open>If another task toggles its LED in between, that toggle is lost.\<close>

lemma preempted_toggle_loses:
  "led 1 (reg_write GPIO_PORTF_DATA_R (mmio b GPIO_PORTF_DATA_R XOR GREEN_LED) (gpio_toggle_red_led b)) = led 1 b"
  unfolding led_def led_masks by (simp add: bit_xor_iff bit_task_bit)

text \<open>\<open>x++\<close> and \<open>x--\<close> on a volatile variable: a read and a write, with preemption possible between.\<close>

abbreviation (input) do_assign ::
  "(statistics \<Rightarrow> u32) \<Rightarrow> (u32 \<Rightarrow> statistics \<Rightarrow> statistics) \<Rightarrow> (u32 \<Rightarrow> u32) \<Rightarrow> app \<Rightarrow> app"
where
  "do_assign field store g a \<equiv>
     Do Read_statistics (\<lambda>r. Do (Write_statistics (store (g (field (snapshot_of r))))) (\<lambda>_. a))"

section \<open>Recording\<close>

definition kernel_record_sleep_measurement :: "sleep_test_statistics_t \<Rightarrow> u32 \<Rightarrow> sleep_test_statistics_t" where
  "kernel_record_sleep_measurement statistics elapsed_ticks =
     (let s1 = statistics\<lparr>sample_count := sample_count statistics + 1\<rparr>;
          s2 = s1\<lparr>last_elapsed_ticks := elapsed_ticks\<rparr>;
          s3 = (if elapsed_ticks < minimum_elapsed_ticks s2 then s2\<lparr>minimum_elapsed_ticks := elapsed_ticks\<rparr> else s2);
          s4 = (if elapsed_ticks > maximum_elapsed_ticks s3 then s3\<lparr>maximum_elapsed_ticks := elapsed_ticks\<rparr> else s3)
      in if elapsed_ticks < requested_ticks s4 then s4\<lparr>early_wakeup_count := early_wakeup_count s4 + 1\<rparr> else s4)"

definition kernel_record_semaphore_enter :: "statistics \<times> 'a kernel_scheme \<Rightarrow> statistics \<times> 'a kernel_scheme" where
  "kernel_record_semaphore_enter sk =
     (case sk of (s, k) \<Rightarrow>
        let (irq_state, k1) = os_irq_save k;
            s1 = s\<lparr>g_semaphore_active_users := g_semaphore_active_users s + 1\<rparr>;
            s2 = s1\<lparr>g_semaphore_wait_success_count := g_semaphore_wait_success_count s1 + 1\<rparr>;
            s3 = (if g_semaphore_active_users s2 > g_semaphore_max_active_users s2
                  then s2\<lparr>g_semaphore_max_active_users := g_semaphore_active_users s2\<rparr> else s2);
            s4 = (if g_semaphore_active_users s3 > KERNEL_SEMAPHORE_RESOURCE_CAPACITY
                  then s3\<lparr>g_semaphore_violation_count := g_semaphore_violation_count s3 + 1\<rparr> else s3)
        in (s4, os_irq_restore irq_state k1))"

definition kernel_record_semaphore_exit :: "statistics \<times> 'a kernel_scheme \<Rightarrow> statistics \<times> 'a kernel_scheme" where
  "kernel_record_semaphore_exit sk =
     (case sk of (s, k) \<Rightarrow>
        let (irq_state, k1) = os_irq_save k;
            s1 = (if g_semaphore_active_users s = 0
                  then s\<lparr>g_semaphore_violation_count := g_semaphore_violation_count s + 1\<rparr>
                  else s\<lparr>g_semaphore_active_users := g_semaphore_active_users s - 1\<rparr>)
        in (s1, os_irq_restore irq_state k1))"

definition kernel_record_semaphore_post_success ::
  "statistics \<times> 'a kernel_scheme \<Rightarrow> statistics \<times> 'a kernel_scheme"
where
  "kernel_record_semaphore_post_success sk =
     (case sk of (s, k) \<Rightarrow>
        let (irq_state, k1) = os_irq_save k
        in (s\<lparr>g_semaphore_post_success_count := g_semaphore_post_success_count s + 1\<rparr>, os_irq_restore irq_state k1))"

definition kernel_record_semaphore_error :: "statistics \<times> 'a kernel_scheme \<Rightarrow> statistics \<times> 'a kernel_scheme" where
  "kernel_record_semaphore_error sk =
     (case sk of (s, k) \<Rightarrow>
        let (irq_state, k1) = os_irq_save k
        in (s\<lparr>g_semaphore_error_count := g_semaphore_error_count s + 1\<rparr>, os_irq_restore irq_state k1))"

definition kernel_record_message_queue_send_success ::
  "statistics \<times> 'a kernel_scheme \<Rightarrow> statistics \<times> 'a kernel_scheme"
where
  "kernel_record_message_queue_send_success sk =
     (case sk of (s, k) \<Rightarrow>
        let (irq_state, k1) = os_irq_save k
        in (s\<lparr>g_message_queue_send_success_count := g_message_queue_send_success_count s + 1\<rparr>,
            os_irq_restore irq_state k1))"

definition kernel_record_message_queue_receive_success ::
  "kernel_queue_message_t \<Rightarrow> statistics \<times> 'a kernel_scheme \<Rightarrow> statistics \<times> 'a kernel_scheme"
where
  "kernel_record_message_queue_receive_success message sk =
     (case sk of (s, k) \<Rightarrow>
        let (irq_state, k1) = os_irq_save k;
            s1 = s\<lparr>g_message_queue_receive_success_count := g_message_queue_receive_success_count s + 1\<rparr>;
            sequence_error = (\<lambda>s. s\<lparr>g_message_queue_sequence_error_count := g_message_queue_sequence_error_count s + 1\<rparr>);
            s2 =
              (if producer_id message = 1 then
                 (let expected_sequence = g_message_queue_producer_1_expected_sequence s1;
                      s2 = (if sequence message \<noteq> expected_sequence then sequence_error s1 else s1)
                  in s2\<lparr>g_message_queue_producer_1_expected_sequence := sequence message + 1\<rparr>)
               else if producer_id message = 2 then
                 (let expected_sequence = g_message_queue_producer_2_expected_sequence s1;
                      s2 = (if sequence message \<noteq> expected_sequence then sequence_error s1 else s1)
                  in s2\<lparr>g_message_queue_producer_2_expected_sequence := sequence message + 1\<rparr>)
               else sequence_error s1)
        in (s2, os_irq_restore irq_state k1))"

definition kernel_record_message_queue_error ::
  "statistics \<times> 'a kernel_scheme \<Rightarrow> statistics \<times> 'a kernel_scheme"
where
  "kernel_record_message_queue_error sk =
     (case sk of (s, k) \<Rightarrow>
        let (irq_state, k1) = os_irq_save k
        in (s\<lparr>g_message_queue_error_count := g_message_queue_error_count s + 1\<rparr>, os_irq_restore irq_state k1))"

section \<open>Printing\<close>

text \<open>
  \<open>kernel_print\<close> and \<open>kernel_print_uint32\<close> character by character: the tree of their calls of
  \<open>uart0_write_char\<close>. Lemmas in theory App_System relate both forms.
\<close>

fun print_steps :: "string \<Rightarrow> app \<Rightarrow> app" where
  "print_steps [] a = a"
| "print_steps (c # str) a =
     (if c = CHR 0x00 then a
      else if c = CHR 0x0A then Do (Put (CHR 0x0D)) (\<lambda>_. Do (Put c) (\<lambda>_. print_steps str a))
      else Do (Put c) (\<lambda>_. print_steps str a))"

fun buffer_steps :: "char list \<Rightarrow> nat \<Rightarrow> app \<Rightarrow> app" where
  "buffer_steps buffer 0 a = a"
| "buffer_steps buffer (Suc index) a = Do (Put (buffer ! index)) (\<lambda>_. buffer_steps buffer index a)"

definition print_uint32_steps :: "char list \<Rightarrow> u32 \<Rightarrow> app \<Rightarrow> app" where
  "print_uint32_steps buffer value a =
     (if value = 0 then Do (Put (CHR ''0'')) (\<lambda>_. a)
      else case digit_loop value buffer 0 of (buffer1, index) \<Rightarrow> buffer_steps buffer1 (unat index) a)"

section \<open>Console messages of the tasks\<close>

text \<open>The application's objects; mutex 0 and semaphores 0 and 1 are those of the message queue.\<close>

abbreviation (input) console_mutex :: nat where "console_mutex \<equiv> 1"
abbreviation (input) resource_semaphore :: nat where "resource_semaphore \<equiv> 2"

definition kernel_write_task_event :: "validation \<Rightarrow> string \<Rightarrow> string \<Rightarrow> app \<Rightarrow> app" where
  "kernel_write_task_event v task_name event a =
     do_service (Mutex_lock console_mutex) (\<lambda>mutex_status.
       if mutex_status \<noteq> OS_MUTEX_OK then
         (if mutex_debug v
          then do_assign g_mutex_error_count (\<lambda>n s. s\<lparr>g_mutex_error_count := n\<rparr>) (\<lambda>n. n + 1) a
          else a)
       else
         let printing =
               print_steps ''['' (print_steps task_name (print_steps ''] tick='' (do_ticks (\<lambda>ticks.
                 print_uint32_steps (stale_digits v) ticks (print_steps '' '' (print_steps event
                 (print_steps ''\<newline>''
                   (let unlocking = do_service (Mutex_unlock console_mutex) (\<lambda>mutex_status.
                          if mutex_debug v \<and> mutex_status \<noteq> OS_MUTEX_OK
                          then do_assign g_mutex_error_count (\<lambda>n s. s\<lparr>g_mutex_error_count := n\<rparr>) (\<lambda>n. n + 1) a
                          else a)
                    in if mutex_debug v
                       then do_assign g_mutex_protected_print_count
                              (\<lambda>n s. s\<lparr>g_mutex_protected_print_count := n\<rparr>) (\<lambda>n. n + 1)
                            (do_assign g_mutex_critical_depth (\<lambda>n s. s\<lparr>g_mutex_critical_depth := n\<rparr>) (\<lambda>n. n - 1)
                              unlocking)
                       else unlocking))))))))
         in if mutex_debug v
            then do_assign g_mutex_critical_depth (\<lambda>n s. s\<lparr>g_mutex_critical_depth := n\<rparr>) (\<lambda>n. n + 1)
                   (Do Read_statistics (\<lambda>r.
                      if g_mutex_critical_depth (snapshot_of r) > 1
                      then do_assign g_mutex_violation_count (\<lambda>n s. s\<lparr>g_mutex_violation_count := n\<rparr>) (\<lambda>n. n + 1) printing
                      else printing))
            else printing)"

definition kernel_write_queue_message ::
  "validation \<Rightarrow> string \<Rightarrow> string \<Rightarrow> kernel_queue_message_t \<Rightarrow> app \<Rightarrow> app"
where
  "kernel_write_queue_message v task_name event message a =
     do_service (Mutex_lock console_mutex) (\<lambda>mutex_status.
       if mutex_status \<noteq> OS_MUTEX_OK then
         (if message_queue_debug v then do_record kernel_record_message_queue_error a else a)
       else
         print_steps ''['' (print_steps task_name (print_steps ''] tick='' (do_ticks (\<lambda>ticks.
           print_uint32_steps (stale_digits v) ticks (print_steps '' '' (print_steps event
           (print_steps '' producer='' (print_uint32_steps (stale_digits v) (producer_id message)
           (print_steps '' sequence='' (print_uint32_steps (stale_digits v) (sequence message)
           (print_steps '' produced_tick='' (print_uint32_steps (stale_digits v) (production_tick message)
           (print_steps ''\<newline>''
             (do_service (Mutex_unlock console_mutex) (\<lambda>mutex_status.
                if message_queue_debug v \<and> mutex_status \<noteq> OS_MUTEX_OK
                then do_record kernel_record_message_queue_error a else a))))))))))))))))"

section \<open>Task bodies\<close>

abbreviation (input) KERNEL_SEMAPHORE_RESOURCE_HOLD_MS :: u32 where "KERNEL_SEMAPHORE_RESOURCE_HOLD_MS \<equiv> 200"
abbreviation (input) KERNEL_TASK_1_REST_MS :: u32 where "KERNEL_TASK_1_REST_MS \<equiv> 50"
abbreviation (input) KERNEL_TASK_2_REST_MS :: u32 where "KERNEL_TASK_2_REST_MS \<equiv> 75"
abbreviation (input) KERNEL_TASK_3_REST_MS :: u32 where "KERNEL_TASK_3_REST_MS \<equiv> 100"

definition KERNEL_PRODUCER_1_SLEEP_MS :: "demo \<Rightarrow> u32" where
  "KERNEL_PRODUCER_1_SLEEP_MS demo = (if stress_test demo then 20 else 500)"

definition KERNEL_PRODUCER_2_SLEEP_MS :: "demo \<Rightarrow> u32" where
  "KERNEL_PRODUCER_2_SLEEP_MS demo = (if stress_test demo then 30 else 1000)"

definition KERNEL_CONSUMER_PROCESSING_MS :: "demo \<Rightarrow> u32" where
  "KERNEL_CONSUMER_PROCESSING_MS demo = (if stress_test demo then 300 else 0)"

definition when_enabled :: "bool \<Rightarrow> (app \<Rightarrow> app) \<Rightarrow> app \<Rightarrow> app" where
  "when_enabled debug f a = (if debug then f a else a)"

definition kernel_run_semaphore_worker :: "validation \<Rightarrow> string \<Rightarrow> u32 \<Rightarrow> u32 \<Rightarrow> app" where
  "kernel_run_semaphore_worker v task_name led_mask rest_time_ms =
     do_service (Semaphore_wait resource_semaphore) (\<lambda>semaphore_status.
       if semaphore_status \<noteq> OS_SEMAPHORE_OK then
         when_enabled (semaphore_debug v) (do_record kernel_record_semaphore_error)
           (do_sleep rest_time_ms (Continue No_locals))
       else
         when_enabled (semaphore_debug v) (do_record kernel_record_semaphore_enter)
         (kernel_write_task_event v task_name ''acquired semaphore resource slot''
         (do_toggle led_mask
         (do_sleep KERNEL_SEMAPHORE_RESOURCE_HOLD_MS
         (kernel_write_task_event v task_name ''releasing semaphore resource slot''
         (when_enabled (semaphore_debug v) (do_record kernel_record_semaphore_exit)
         (do_service (Semaphore_post resource_semaphore) (\<lambda>semaphore_status.
            when_enabled (semaphore_debug v)
              (do_record (if semaphore_status = OS_SEMAPHORE_OK then kernel_record_semaphore_post_success
                          else kernel_record_semaphore_error))
              (do_sleep rest_time_ms (Continue No_locals))))))))))"

definition kernel_run_queue_producer ::
  "validation \<Rightarrow> string \<Rightarrow> u32 \<Rightarrow> u32 \<Rightarrow> u32 \<Rightarrow> u32 \<Rightarrow> app"
where
  "kernel_run_queue_producer v task_name producer led_mask period_ms seq =
     do_ticks (\<lambda>ticks.
       let message = \<lparr>producer_id = producer, sequence = seq, production_tick = ticks\<rparr> in
       Do (Queue_send (message_bytes message)) (\<lambda>r.
         if status_of r = OS_MESSAGE_QUEUE_OK then
           when_enabled (message_queue_debug v) (do_record kernel_record_message_queue_send_success)
           (kernel_write_queue_message v task_name ''sent queue message'' message
           (do_toggle led_mask
           (do_sleep period_ms (Continue (Sequence (seq + 1))))))
         else
           when_enabled (message_queue_debug v) (do_record kernel_record_message_queue_error)
           (do_sleep period_ms (Continue (Sequence seq)))))"

definition kernel_run_queue_consumer ::
  "demo \<Rightarrow> validation \<Rightarrow> string \<Rightarrow> u32 \<Rightarrow> u8 list \<Rightarrow> app"
where
  "kernel_run_queue_consumer demo v task_name led_mask buffer =
     Do (Queue_receive buffer) (\<lambda>r.
       let message = message_from (bytes_of r) in
       if status_of r = OS_MESSAGE_QUEUE_OK then
         when_enabled (message_queue_debug v) (do_record (kernel_record_message_queue_receive_success message))
         (kernel_write_queue_message v task_name ''received queue message'' message
         (do_toggle led_mask
         (when_enabled (KERNEL_CONSUMER_PROCESSING_MS demo > 0) (do_sleep (KERNEL_CONSUMER_PROCESSING_MS demo))
         (Continue (Buffer (bytes_of r))))))
       else
         when_enabled (message_queue_debug v) (do_record kernel_record_message_queue_error)
         (do_sleep 100 (Continue (Buffer (bytes_of r)))))"

text \<open>One pass of the sleep test; only its own task accesses a task's sleep statistics.\<close>

definition run_sleep_test ::
  "u32 \<Rightarrow> ((sleep_test_statistics_t \<Rightarrow> sleep_test_statistics_t) \<Rightarrow> statistics \<Rightarrow> statistics) \<Rightarrow>
   u32 \<Rightarrow> app"
where
  "run_sleep_test ms update_stats led_mask =
     do_ticks (\<lambda>start_tick. do_sleep ms (do_ticks (\<lambda>end_tick.
       let elapsed_ticks = end_tick - start_tick in
       Do (Write_statistics (update_stats (\<lambda>st. kernel_record_sleep_measurement st elapsed_ticks)))
         (\<lambda>_. do_toggle led_mask (Continue No_locals)))))"

definition run_mutex_demo :: "validation \<Rightarrow> string \<Rightarrow> u32 \<Rightarrow> u32 \<Rightarrow> app" where
  "run_mutex_demo v task_name led_mask ms =
     kernel_write_task_event v task_name ''protected UART output''
       (do_toggle led_mask (do_sleep ms (Continue No_locals)))"

fun sequence_of :: "task_locals \<Rightarrow> u32" where
  "sequence_of (Sequence n) = n"
| "sequence_of _ = 0"

fun buffer_of :: "task_locals \<Rightarrow> u8 list" where
  "buffer_of (Buffer b) = b"
| "buffer_of _ = []"

definition app_task_1 :: "demo \<Rightarrow> validation \<Rightarrow> task_locals \<Rightarrow> app" where
  "app_task_1 demo v locals =
     (case demo of
        Sleep_test \<Rightarrow> run_sleep_test 500 g_task_1_sleep_stats_update GREEN_LED
      | Message_queue_demo stress \<Rightarrow> kernel_run_queue_producer v ''TASK 1'' 1 GREEN_LED
          (KERNEL_PRODUCER_1_SLEEP_MS demo) (sequence_of locals)
      | Semaphore_demo \<Rightarrow> kernel_run_semaphore_worker v ''TASK 1'' GREEN_LED KERNEL_TASK_1_REST_MS
      | Mutex_demo \<Rightarrow> run_mutex_demo v ''TASK 1'' GREEN_LED 500)"

definition app_task_2 :: "demo \<Rightarrow> validation \<Rightarrow> task_locals \<Rightarrow> app" where
  "app_task_2 demo v locals =
     (case demo of
        Sleep_test \<Rightarrow> run_sleep_test 1000 g_task_2_sleep_stats_update RED_LED
      | Message_queue_demo stress \<Rightarrow> kernel_run_queue_producer v ''TASK 2'' 2 RED_LED
          (KERNEL_PRODUCER_2_SLEEP_MS demo) (sequence_of locals)
      | Semaphore_demo \<Rightarrow> kernel_run_semaphore_worker v ''TASK 2'' RED_LED KERNEL_TASK_2_REST_MS
      | Mutex_demo \<Rightarrow> run_mutex_demo v ''TASK 2'' RED_LED 1000)"

definition app_task_3 :: "demo \<Rightarrow> validation \<Rightarrow> task_locals \<Rightarrow> app" where
  "app_task_3 demo v locals =
     (case demo of
        Sleep_test \<Rightarrow> run_sleep_test 2000 g_task_3_sleep_stats_update BLUE_LED
      | Message_queue_demo stress \<Rightarrow> kernel_run_queue_consumer demo v ''TASK 3'' BLUE_LED (buffer_of locals)
      | Semaphore_demo \<Rightarrow> kernel_run_semaphore_worker v ''TASK 3'' BLUE_LED KERNEL_TASK_3_REST_MS
      | Mutex_demo \<Rightarrow> run_mutex_demo v ''TASK 3'' BLUE_LED 2000)"

text \<open>The idle task of \<open>kernel/task.c\<close> loops without any action.\<close>

definition idle_task :: "task_locals \<Rightarrow> app" where
  "idle_task locals = Continue locals"

declare idle_task_def [simp]

text \<open>The code of every task; tasks other than the three of the application are idle.\<close>

definition app_body :: "demo \<Rightarrow> validation \<Rightarrow> nat \<Rightarrow> task_locals \<Rightarrow> app" where
  "app_body demo v i locals =
     (if i = 1 then app_task_1 demo v locals
      else if i = 2 then app_task_2 demo v locals
      else if i = 3 then app_task_3 demo v locals
      else idle_task locals)"

end
