(* ===== verification/App_System.thy ===== *)
theory App_System
  imports Application Queue_Properties
begin

text \<open>
  The demonstration running on the kernel: three tasks that execute the trees of theory
  Application, the idle task, the services, interrupts and the UART. A step is an interrupt, a
  step inside a service, or one action of the running task; each action is taken when its
  service returns. Every execution projects to one of theory Queue_System and thereby to one
  of theory Ipc, so the results on the services hold here.
\<close>

section \<open>State and steps\<close>

record world =
  w_queue :: queue_system
  w_statistics :: statistics
  w_board :: board

abbreviation world_ipc :: "world \<Rightarrow> ipc" where
  "world_ipc w \<equiv> sys_ipc (w_queue w)"

abbreviation with_ipc :: "world \<Rightarrow> ipc \<Rightarrow> world" where
  "with_ipc w k \<equiv> w\<lparr>w_queue := (w_queue w)\<lparr>sys_ipc := k\<rparr>\<rparr>"

text \<open>Task \<open>i\<close> runs its own code, outside all services.\<close>

definition at_app :: "world \<Rightarrow> nat \<Rightarrow> bool" where
  "at_app w i \<longleftrightarrow> at_queue (w_queue w) i \<and> sys_code (w_queue w) i = None"

text \<open>
  An action of task \<open>i\<close> completes: the response, the events of the message queue and the state
  afterwards. \<open>hw\<close> is what the UART does between two polls of its status. A sleep is two actions;
  the task's id, which its entry reads, is that of the current task in both (\<open>at_app\<close>).
\<close>

inductive performs ::
  "(board \<Rightarrow> board) \<Rightarrow> world \<Rightarrow> nat \<Rightarrow> action \<Rightarrow> response \<Rightarrow> queue_event list \<Rightarrow> world \<Rightarrow> bool" for hw
where
  ticks: "at_app w i \<Longrightarrow> performs hw w i Get_ticks (Ticks (os_get_ticks (world_ipc w))) [] w"
| read_statistics: "at_app w i \<Longrightarrow> performs hw w i Read_statistics (Snapshot (w_statistics w)) [] w"
| write_statistics: "at_app w i \<Longrightarrow>
    performs hw w i (Write_statistics g) Completed [] (w\<lparr>w_statistics := g (w_statistics w)\<rparr>)"
| recording: "at_app w i \<Longrightarrow> rec (w_statistics w, world_ipc w) = (s, k) \<Longrightarrow>
    performs hw w i (Record rec) Completed [] (with_ipc (w\<lparr>w_statistics := s\<rparr>) k)"
| put: "at_app w i \<Longrightarrow> uart0_write_char hw c (w_board w) = Some b \<Longrightarrow>
    performs hw w i (Put c) Completed [] (w\<lparr>w_board := b\<rparr>)"
| read_leds: "at_app w i \<Longrightarrow> performs hw w i Read_leds (Port (mmio (w_board w) GPIO_PORTF_DATA_R)) [] w"
| write_leds: "at_app w i \<Longrightarrow>
    performs hw w i (Write_leds v) Completed [] (w\<lparr>w_board := reg_write GPIO_PORTF_DATA_R v (w_board w)\<rparr>)"
| sleep: "at_app w i \<Longrightarrow> os_sleep_entry (\<lambda>_. systick_handler) ms (world_ipc w) = Some (wakeup, k) \<Longrightarrow>
    performs hw w i (Sleep ms) (Wakeup (map_option snd wakeup)) [] (with_ipc w k)"
| sleep_until: "at_app w i \<Longrightarrow>
    performs hw w i (Sleep_until wakeup_tick) Completed []
      (with_ipc w (os_sleep_critical (os_get_current_task_id (world_ipc w)) wakeup_tick (world_ipc w)))"
| service: "sys_code (w_queue w) i = None \<Longrightarrow> ipc_step (world_ipc w) [call_event c i status] k \<Longrightarrow>
    performs hw w i (Service c) (Status status) [] (with_ipc w k)"
| send: "queue_step (w_queue w) [Returned i status b] q \<Longrightarrow>
    performs hw w i (Queue_send m) (Delivered status b) [Returned i status b] (w\<lparr>w_queue := q\<rparr>)"
| receive: "queue_step (w_queue w) [Returned i status b] q \<Longrightarrow>
    performs hw w i (Queue_receive m) (Delivered status b) [Returned i status b] (w\<lparr>w_queue := q\<rparr>)"

text \<open>The call of a service that task \<open>i\<close> makes next, inside the queue service or by itself.\<close>

definition calls :: "(nat \<Rightarrow> app) \<Rightarrow> world \<Rightarrow> nat \<Rightarrow> call \<Rightarrow> bool" where
  "calls ps w i c \<longleftrightarrow> (case sys_code (w_queue w) i of
     None \<Rightarrow> (\<exists>f. ps i = Do (Service c) f)
   | Some code \<Rightarrow> (\<exists>f. code = Call c f))"

fun waits_in :: "call \<Rightarrow> activity \<Rightarrow> bool" where
  "waits_in (Mutex_lock m) a = (a = Locking m)"
| "waits_in (Semaphore_wait s) a = (a = Waiting s)"
| "waits_in _ a = False"

text \<open>
  Steps that complete no action: interrupts, computation in registers and on the stack, the
  entry of a waiting service, a pass of its loop that blocks, the call of the queue service and
  the steps inside it.
\<close>

inductive background :: "(nat \<Rightarrow> app) \<Rightarrow> world \<Rightarrow> queue_event list \<Rightarrow> world \<Rightarrow> bool" for ps where
  systick: "cpu_primask (world_ipc w) = 0 \<Longrightarrow>
    background ps w [] (with_ipc w (systick_handler (world_ipc w)))"
| pendsv: "cpu_primask (world_ipc w) = 0 \<Longrightarrow> pendsv_pending (world_ipc w) \<Longrightarrow>
    PendSV_Handler (world_ipc w) = Some k \<Longrightarrow> background ps w [] (with_ipc w k)"
| compute: "thread_active (world_ipc w) \<Longrightarrow>
    background ps w [] (with_ipc w ((world_ipc w)\<lparr>cpu_r4_r11 := regs, cpu_psp := sp, task_memory := mem\<rparr>))"
| enter: "at_queue (w_queue w) i \<Longrightarrow> calls ps w i c \<Longrightarrow> ipc_step (world_ipc w) [] k \<Longrightarrow>
    waits_in c (ipc_activity k i) \<Longrightarrow> background ps w [] (with_ipc w k)"
| block: "thread_active (world_ipc w) \<Longrightarrow> i = current_index (world_ipc w) \<Longrightarrow> ipc_activity (world_ipc w) i \<noteq> Outside \<Longrightarrow>
    ipc_step (world_ipc w) [] k \<Longrightarrow> task_blocked k i \<Longrightarrow> background ps w [] (with_ipc w k)"
| call_send: "ps i = Do (Queue_send m) f \<Longrightarrow> queue_step (w_queue w) [Send_called i m] q \<Longrightarrow>
    background ps w [Send_called i m] (w\<lparr>w_queue := q\<rparr>)"
| call_receive: "ps i = Do (Queue_receive b) f \<Longrightarrow> length b = unat (mq_message_size (sys_ring (w_queue w))) \<Longrightarrow>
    at_app w i \<Longrightarrow>
    background ps w [Receive_called i] (w\<lparr>w_queue := (w_queue w)\<lparr>sys_code :=
      (sys_code (w_queue w))(i := Some (os_message_queue_receive False (Some b)))\<rparr>\<rparr>)"
| inside: "queue_step (w_queue w) e q \<Longrightarrow> sys_code (w_queue w) i = Some c \<Longrightarrow> sys_code q i = Some c' \<Longrightarrow>
    c' \<noteq> c \<Longrightarrow> background ps w e (w\<lparr>w_queue := q\<rparr>)"

inductive app_step ::
  "(board \<Rightarrow> board) \<Rightarrow> (nat \<Rightarrow> task_locals \<Rightarrow> app) \<Rightarrow> world \<times> (nat \<Rightarrow> app) \<Rightarrow> queue_event list \<Rightarrow>
   world \<times> (nat \<Rightarrow> app) \<Rightarrow> bool" for hw body
where
  system: "background ps w e w' \<Longrightarrow> app_step hw body (w, ps) e (w', ps)"
| action: "ps i = Do a f \<Longrightarrow> performs hw w i a r e w' \<Longrightarrow> app_step hw body (w, ps) e (w', ps(i := f r))"
| loop: "ps i = Continue locals \<Longrightarrow> at_app w i \<Longrightarrow> app_step hw body (w, ps) [] (w, ps(i := body i locals))"

inductive app_run ::
  "(board \<Rightarrow> board) \<Rightarrow> (nat \<Rightarrow> task_locals \<Rightarrow> app) \<Rightarrow> world \<times> (nat \<Rightarrow> app) \<Rightarrow> queue_event list \<Rightarrow>
   world \<times> (nat \<Rightarrow> app) \<Rightarrow> bool" for hw body x0
where
  start: "app_run hw body x0 [] x0"
| step: "app_run hw body x0 es x \<Longrightarrow> app_step hw body x e x' \<Longrightarrow> app_run hw body x0 (es @ e) x'"

section \<open>Typestates\<close>

text \<open>
  A discipline for tasks: in typestate \<open>t\<close> an action is permitted or not, and a possible response
  leads to the next typestate (\<open>None\<close> is a response that cannot occur). A pass of a task's loop
  may begin and end in the typestates that \<open>at_loop\<close> gives for its local variables. Whatever
  the discipline, tasks leave the objects of the queue alone, and what they record does not
  touch the kernel.
\<close>

record 't discipline =
  permits :: "nat \<Rightarrow> 't \<Rightarrow> action \<Rightarrow> bool"
  after :: "'t \<Rightarrow> action \<Rightarrow> response \<Rightarrow> 't option"
  at_loop :: "nat \<Rightarrow> task_locals \<Rightarrow> 't \<Rightarrow> bool"

fun application_call :: "call \<Rightarrow> bool" where
  "application_call (Semaphore_wait s) = (s \<noteq> available_items \<and> s \<noteq> available_spaces)"
| "application_call (Semaphore_post s) = (s \<noteq> available_items \<and> s \<noteq> available_spaces)"
| "application_call (Mutex_lock m) = (m \<noteq> access_mutex)"
| "application_call (Mutex_unlock m) = (m \<noteq> access_mutex)"

fun well_behaved :: "action \<Rightarrow> bool" where
  "well_behaved (Service c) = application_call c"
| "well_behaved (Record rec) = (\<forall>s k. cpu_primask k = 0 \<longrightarrow> snd (rec (s, k)) = k)"
| "well_behaved _ = True"

primrec typed :: "'t discipline \<Rightarrow> nat \<Rightarrow> app \<Rightarrow> 't \<Rightarrow> bool" where
  "typed d i (Do a f) = (\<lambda>t. well_behaved a \<and> permits d i t a \<and>
     (\<forall>r. case after d t a r of None \<Rightarrow> True | Some t' \<Rightarrow> typed d i (f r) t'))"
| "typed d i (Continue locals) = at_loop d i locals"

section \<open>The states of executions\<close>

text \<open>A waiting task waits for what its code calls.\<close>

fun in_call :: "app \<Rightarrow> activity \<Rightarrow> bool" where
  "in_call a Outside = True"
| "in_call (Do (Service c) f) act = waits_in c act"
| "in_call _ _ = False"

fun queue_caller :: "app \<Rightarrow> bool" where
  "queue_caller (Do (Queue_send m) f) = True"
| "queue_caller (Do (Queue_receive b) f) = True"
| "queue_caller _ = False"

fun calls_foreign :: "app \<Rightarrow> bool" where
  "calls_foreign (Do a f) = well_behaved a"
| "calls_foreign (Continue locals) = True"

text \<open>Code of the queue service calls the queue's own objects only.\<close>

primrec only_queue :: "code \<Rightarrow> bool" where
  "only_queue (Done status b) = True"
| "only_queue (Call c f) = (\<not> application_call c \<and> (\<forall>status. only_queue (f status)))"
| "only_queue (Get f) = (\<forall>q. only_queue (f q))"
| "only_queue (Store a v c) = only_queue c"
| "only_queue (Set_tail n m c) = only_queue c"
| "only_queue (Set_head n m c) = only_queue c"

lemma only_queue_copy_in: "only_queue (message_queue_copy_in is a m c) = only_queue c"
  by (induction "is") simp_all

lemma only_queue_copy_out: "(\<And>b. only_queue (f b)) \<Longrightarrow> only_queue (message_queue_copy_out is a b f)"
  by (induction "is" arbitrary: b) simp_all

lemma only_queue_calls:
  "only_queue (os_message_queue_send z p)" "only_queue (os_message_queue_receive z p)"
  by (auto simp: os_message_queue_send_def os_message_queue_receive_def Let_def only_queue_copy_in
      intro!: only_queue_copy_out split: option.splits)

fun placed :: "app \<Rightarrow> code option \<Rightarrow> activity \<Rightarrow> bool" where
  "placed a None act = in_call a act"
| "placed a (Some c) act = (queue_caller a \<and> only_queue c \<and> may_enter (Some c) act)"

definition app_wf :: "world \<Rightarrow> (nat \<Rightarrow> app) \<Rightarrow> bool" where
  "app_wf w ps \<longleftrightarrow> ipc_wf (world_ipc w) \<and>
     (\<forall>i. calls_foreign (ps i) \<and> placed (ps i) (sys_code (w_queue w) i) (ipc_activity (world_ipc w) i))"

lemma typed_foreign: "typed d i a t \<Longrightarrow> calls_foreign a"
  by (cases a) auto

lemma in_call_enter: "in_call a act \<Longrightarrow> calls_foreign a \<Longrightarrow> may_enter None act"
proof (cases act)
  case (Locking m)
  assume a: "in_call a act" "calls_foreign a"
  then obtain c f where "a = Do (Service c) f" using Locking by (cases a; cases "case a of Do b f \<Rightarrow> b") auto
  then show ?thesis using a Locking by (cases c) auto
next
  case (Waiting s)
  assume a: "in_call a act" "calls_foreign a"
  then obtain c f where "a = Do (Service c) f" using Waiting by (cases a; cases "case a of Do b f \<Rightarrow> b") auto
  then show ?thesis using a Waiting by (cases c) auto
qed simp

lemma app_wfD:
  assumes "app_wf w ps"
  shows "ipc_wf (world_ipc w)" "calls_foreign (ps i)"
    "sys_code (w_queue w) i = None \<Longrightarrow> in_call (ps i) (ipc_activity (world_ipc w) i)"
    "sys_code (w_queue w) i = Some c \<Longrightarrow> queue_caller (ps i)"
    "sys_code (w_queue w) i = Some c \<Longrightarrow> may_enter (Some c) (ipc_activity (world_ipc w) i)"
    "sys_code (w_queue w) i = Some c \<Longrightarrow> only_queue c"
proof -
  have "calls_foreign (ps i) \<and> placed (ps i) (sys_code (w_queue w) i) (ipc_activity (world_ipc w) i)"
    using assms by (simp add: app_wf_def)
  then show "calls_foreign (ps i)" "sys_code (w_queue w) i = None \<Longrightarrow> in_call (ps i) (ipc_activity (world_ipc w) i)"
    "sys_code (w_queue w) i = Some c \<Longrightarrow> queue_caller (ps i)"
    "sys_code (w_queue w) i = Some c \<Longrightarrow> may_enter (Some c) (ipc_activity (world_ipc w) i)"
    "sys_code (w_queue w) i = Some c \<Longrightarrow> only_queue c" by auto
qed (use assms in \<open>simp add: app_wf_def\<close>)

lemma app_wf_enter:
  assumes "app_wf w ps"
  shows "may_enter (sys_code (w_queue w) i) (ipc_activity (world_ipc w) i)"
  using app_wfD(2-5) [where i = i, OF assms] in_call_enter by (cases "sys_code (w_queue w) i") auto

lemma app_wf_with_ipc:
  "app_wf (with_ipc w k) ps \<longleftrightarrow> ipc_wf k \<and>
     (\<forall>i. calls_foreign (ps i) \<and> placed (ps i) (sys_code (w_queue w) i) (ipc_activity k i))"
  by (simp add: app_wf_def)

text \<open>A silent step of the services changes the activity of the running task only.\<close>

lemma silent_activity:
  assumes "ipc_step k [] k'" "ipc_wf k"
  shows "ipc_activity k' = ipc_activity k \<or>
    (\<exists>a. thread_active k \<and> ipc_activity k (current_index k) = Outside \<and>
      ipc_activity k' = (ipc_activity k)(current_index k := a))"
  using assms(1)
proof (cases rule: ipc_step.cases)
  case (kernel t)
  have "kernel_wf k" using assms(2) by (simp add: ipc_wf_def)
  then show ?thesis using kernel_step_more [OF kernel(1)] ipc_fields_more(3) by blast
next
  case (lock_pass i m outcome mutex k1)
  then have "outcome = Again" by (cases outcome) auto
  then show ?thesis
    using lock_pass_ok(2) [OF assms(2) lock_pass(3-6)] lock_pass by (auto simp: fun_upd_idem)
next
  case (wait_pass i s outcome semaphore k1)
  then have "outcome = Again" by (cases outcome) auto
  then show ?thesis using wait_pass by (auto simp: fun_upd_idem)
qed auto

lemma silent_inside:
  assumes "ipc_step k [] k'" "ipc_wf k" "ipc_activity k (current_index k) \<noteq> Outside"
  shows "ipc_activity k' = ipc_activity k"
  using silent_activity [OF assms(1,2)] assms(3) by auto

text \<open>A step of the kernel alone.\<close>

lemma kernel_activity: "kernel_step (k :: ipc) t k' \<Longrightarrow> ipc_wf k \<Longrightarrow> ipc_activity k' = ipc_activity k"
  using kernel_step_more ipc_fields_more(3) by (fastforce simp: ipc_wf_def)

lemma kernel_step_keeps_wf:
  assumes "kernel_step (world_ipc w) t k" "app_wf w ps"
  shows "app_wf (with_ipc w k) ps" "queue_step (w_queue w) [] (w_queue (with_ipc w k))"
proof -
  note wf = app_wfD(1) [OF assms(2)]
  have act: "ipc_activity k = ipc_activity (world_ipc w)" by (rule kernel_activity [OF assms(1) wf])
  have step: "ipc_step (world_ipc w) [] k" by (rule ipc_step.kernel [OF assms(1)])
  show "app_wf (with_ipc w k) ps" using assms(2) ipc_step_wf [OF step wf] unfolding app_wf_with_ipc act by (simp add: app_wf_def)
  show "queue_step (w_queue w) [] (w_queue (with_ipc w k))"
    using queue_step.internal [OF step] app_wf_enter [OF assms(2)] act by simp
qed

lemma enter_keeps_wf:
  assumes "at_queue (w_queue w) i" "calls ps w i c" "ipc_step (world_ipc w) [] k" "waits_in c (ipc_activity k i)"
    and "app_wf w ps"
  shows "app_wf (with_ipc w k) ps" "queue_step (w_queue w) [] (w_queue (with_ipc w k))"
proof -
  note d = app_wfD [OF assms(5)]
  have cur: "i = current_index (world_ipc w)" using assms(1) by (simp add: at_queue_def)
  have other: "ipc_activity k j = ipc_activity (world_ipc w) j" if "j \<noteq> i" for j
    using silent_activity [OF assms(3) d(1)] cur that by auto
  have own: "placed (ps i) (sys_code (w_queue w) i) (ipc_activity k i)"
    using assms(2,4) d(3-6) [where i = i] by (cases c) (auto simp: calls_def split: option.splits)
  show wf: "app_wf (with_ipc w k) ps"
    unfolding app_wf_with_ipc
  proof (intro conjI allI)
    show "ipc_wf k" by (rule ipc_step_wf [OF assms(3) d(1)])
  next
    fix j
    show "calls_foreign (ps j)" by (rule d(2))
    show "placed (ps j) (sys_code (w_queue w) j) (ipc_activity k j)"
      using own other [of j] assms(5) by (cases "j = i") (auto simp: app_wf_def)
  qed
  show "queue_step (w_queue w) [] (w_queue (with_ipc w k))"
    using queue_step.internal [OF assms(3)] app_wf_enter [OF wf] by simp
qed

lemma block_keeps_wf:
  assumes "ipc_activity (world_ipc w) (current_index (world_ipc w)) \<noteq> Outside" "ipc_step (world_ipc w) [] k" "app_wf w ps"
  shows "app_wf (with_ipc w k) ps" "queue_step (w_queue w) [] (w_queue (with_ipc w k))"
proof -
  note wf = app_wfD(1) [OF assms(3)]
  have act: "ipc_activity k = ipc_activity (world_ipc w)" by (rule silent_inside [OF assms(2) wf assms(1)])
  show "app_wf (with_ipc w k) ps"
    using assms(3) ipc_step_wf [OF assms(2) wf] unfolding app_wf_with_ipc act by (simp add: app_wf_def)
  show "queue_step (w_queue w) [] (w_queue (with_ipc w k))"
    using queue_step.internal [OF assms(2)] app_wf_enter [OF assms(3)] act by simp
qed

text \<open>A change of one task's code and activity.\<close>

lemma app_wf_change:
  assumes "app_wf w ps" "ipc_wf (sys_ipc q)" "calls_foreign (ps' i)"
    and "\<And>j. j \<noteq> i \<Longrightarrow> sys_code q j = sys_code (w_queue w) j \<and>
      ipc_activity (sys_ipc q) j = ipc_activity (world_ipc w) j \<and> ps' j = ps j"
    and "placed (ps' i) (sys_code q i) (ipc_activity (sys_ipc q) i)"
  shows "app_wf (w\<lparr>w_queue := q\<rparr>) ps'"
proof -
  have "calls_foreign (ps' j) \<and> placed (ps' j) (sys_code q j) (ipc_activity (sys_ipc q) j)" for j
    using assms(1,3,5) assms(4) [of j] by (cases "j = i") (auto simp: app_wf_def)
  then show ?thesis using assms(2) by (simp add: app_wf_def)
qed

lemma app_wf_statistics [simp]: "app_wf (w\<lparr>w_statistics := s\<rparr>) ps = app_wf w ps" "app_wf (w\<lparr>w_board := b\<rparr>) ps = app_wf w ps"
  by (simp_all add: app_wf_def)

lemma inside_keeps_wf:
  assumes "queue_step (w_queue w) e q" "sys_code (w_queue w) i = Some c" "sys_code q i = Some c'" "c' \<noteq> c"
    and "app_wf w ps"
  shows "app_wf (w\<lparr>w_queue := q\<rparr>) ps"
proof -
  note d = app_wfD [OF assms(5)] and old = app_wfD(6) [OF assms(5,2)]
  have "ipc_wf (sys_ipc q) \<and> ipc_activity (sys_ipc q) i = Outside \<and> only_queue c' \<and>
    (\<forall>j. j \<noteq> i \<longrightarrow> sys_code q j = sys_code (w_queue w) j \<and>
      ipc_activity (sys_ipc q) j = ipc_activity (world_ipc w) j)"
    using assms(1)
  proof (cases rule: queue_step.cases)
    case (inner_call c1 i1 status k f)
    have "event_task (call_event c1 i1 status) = i1" by (cases c1) simp_all
    then show ?thesis
      using inner_call ipc_step_return(3) [OF inner_call(3) d(1)] ipc_step_wf [OF inner_call(3) d(1)] assms(2-4) old
      by (auto split: if_splits)
  qed (use assms(2-4) d(1) old in \<open>auto simp: at_queue_def split: if_splits\<close>)
  then show ?thesis using d(2) [of i] d(4) [OF assms(2)] assms(3) by (intro app_wf_change [OF assms(5), where i = i]) auto
qed

text \<open>Every step in the background is a step of the queue system.\<close>

lemma background_step:
  assumes "background ps w e w'" "app_wf w ps"
  shows "app_wf w' ps" "queue_step (w_queue w) e (w_queue w')"
proof -
  have "app_wf w' ps \<and> queue_step (w_queue w) e (w_queue w')"
    using assms(1)
  proof (cases rule: background.cases)
    case systick
    then show ?thesis using kernel_step_keeps_wf [OF kernel_step.systick assms(2)] by simp
  next
    case (pendsv k)
    then show ?thesis using kernel_step_keeps_wf [OF kernel_step.pendsv assms(2)] by simp
  next
    case (compute regs sp mem)
    then show ?thesis using kernel_step_keeps_wf [OF kernel_step.compute assms(2)] by simp
  next
    case (enter i c k)
    then show ?thesis using enter_keeps_wf [OF enter(3-6) assms(2)] by simp
  next
    case (block i k)
    then show ?thesis using block_keeps_wf [OF _ block(6) assms(2)] by simp
  next
    case (call_send i m f q)
    have "sys_code q = (sys_code (w_queue w))(i := Some (os_message_queue_send False (Some m)))"
      "sys_ipc q = world_ipc w" "at_queue (w_queue w) i"
      using call_send(4) by (cases rule: queue_step.cases; simp)+
    then show ?thesis
      using call_send(3,4) app_wfD(1) [OF assms(2)] app_wfD(2) [OF assms(2), of i] unfolding call_send(1,2)
      by (intro conjI app_wf_change [OF assms(2), where i = i]) (auto simp: at_queue_def only_queue_calls)
  next
    case (call_receive i b f)
    then have "queue_step (w_queue w) e (w_queue w')"
      using queue_step.receive [of "w_queue w" i b] by (simp add: at_app_def)
    moreover have "app_wf w' ps"
      using call_receive(3,5) app_wfD(1) [OF assms(2)] app_wfD(2) [OF assms(2), of i] unfolding call_receive(2)
      by (intro app_wf_change [OF assms(2), where i = i]) (auto simp: at_app_def at_queue_def only_queue_calls)
    ultimately show ?thesis by simp
  next
    case (inside q i c c')
    then show ?thesis using inside_keeps_wf [OF inside(2-5) assms(2)] by simp
  qed
  then show "app_wf w' ps" "queue_step (w_queue w) e (w_queue w')" by simp_all
qed

text \<open>An action completes with its task outside all calls.\<close>

lemma app_wf_continue:
  assumes "app_wf w ps" "calls_foreign a" "sys_code (w_queue w) i = None" "ipc_activity (world_ipc w) i = Outside"
  shows "app_wf w (ps(i := a))"
  using assms by (simp add: app_wf_def)

lemma at_app_facts:
  assumes "at_app w i"
  shows "thread_active (world_ipc w)" "i = current_index (world_ipc w)" "ipc_activity (world_ipc w) i = Outside"
    "sys_code (w_queue w) i = None"
  using assms unfolding at_app_def at_queue_def by blast+

text \<open>Interrupts are enabled outside critical sections, so a recording leaves the kernel as it was.\<close>

lemma recorded_kernel:
  assumes "at_app w i" "rec (s, world_ipc w) = (s', k)" "well_behaved (Record rec)"
  shows "k = world_ipc w"
proof -
  have "cpu_primask (world_ipc w) = 0" using at_app_facts(1) [OF assms(1)] by (simp add: thread_active_def)
  then have "snd (rec (s, world_ipc w)) = world_ipc w" using assms(3) by simp
  then show ?thesis using assms(2) by simp
qed

text \<open>The entry of a sleep is a yield or changes nothing; the critical section is a step of the kernel.\<close>

lemma sleep_entry_keeps:
  assumes "os_sleep_entry irq ms k = Some (wakeup, k')" "kernel_wf k" "thread_active k"
  shows "k' = k \<or> kernel_step k 0 k'"
proof -
  have "os_yield k = k\<lparr>pendsv_pending := True\<rparr>"
    using kernel_wfD(2,3) [OF assms(2)] by (simp add: os_yield_def machine_ops)
  then have "kernel_step k 0 (k\<lparr>pendsv_pending := True\<rparr>)" using kernel_step.yield [OF assms(3)] by simp
  then show ?thesis using assms(1) by (auto simp: os_sleep_entry_eq [OF assms(2)] split: if_splits)
qed

lemma queue_returned:
  assumes "queue_step x [Returned i status b] x'"
  shows "sys_code x' = (sys_code x)(i := None)" "sys_ipc x' = sys_ipc x" "sys_ring x' = sys_ring x"
    "sys_code x i = Some (Done status b)" "ipc_activity (sys_ipc x) i = Outside"
  using assms by (cases rule: queue_step.cases; simp add: at_queue_def)+

lemma performs_step:
  assumes "performs hw w i a r e w'" "app_wf w ps" "ps i = Do a f" "calls_foreign (f r)"
  shows "app_wf w' (ps(i := f r))"
    "queue_step (w_queue w) e (w_queue w') \<or> e = [] \<and> w_queue w' = w_queue w"
proof -
  note d = app_wfD [OF assms(2)]
  have "app_wf w' (ps(i := f r)) \<and> (queue_step (w_queue w) e (w_queue w') \<or> e = [] \<and> w_queue w' = w_queue w)"
    using assms(1)
  proof (cases rule: performs.cases)
    case (recording rec s k)
    have "well_behaved a" using d(2) [of i] assms(3) by simp
    then have k: "k = world_ipc w" using recorded_kernel [OF recording(5)] recording(1,6) by simp
    then show ?thesis
      using app_wf_continue [OF assms(2,4)] at_app_facts(3,4) [OF recording(5)] recording(3,4) by (simp add: app_wf_def)
  next
    case (sleep ms wakeup k)
    note at = at_app_facts [OF sleep(5)]
    have "k = world_ipc w \<or> kernel_step (world_ipc w) 0 k"
      by (rule sleep_entry_keeps [OF sleep(6) _ at(1)]) (use d(1) in \<open>simp add: ipc_wf_def\<close>)
    then show ?thesis
    proof
      assume "k = world_ipc w"
      then show ?thesis using app_wf_continue [OF assms(2,4)] at(3,4) sleep(3,4) by (simp add: app_wf_def)
    next
      assume step: "kernel_step (world_ipc w) 0 k"
      note keeps = kernel_step_keeps_wf [OF step assms(2)]
      show ?thesis
        using app_wf_continue [OF keeps(1) assms(4)] keeps(2) kernel_activity [OF step d(1)] at(3,4) sleep(4,3) by simp
    qed
  next
    case (sleep_until tick)
    note at = at_app_facts [OF sleep_until(5)]
    note step = kernel_step.sleep [OF at(1), of tick]
    note keeps = kernel_step_keeps_wf [OF step assms(2)]
    show ?thesis
      using app_wf_continue [OF keeps(1) assms(4)] keeps(2) kernel_activity [OF step d(1)] at(3,4) sleep_until(4,3) by simp
  next
    case (service c status k)
    have task: "event_task (call_event c i status) = i" by (cases c) simp_all
    have act: "ipc_activity k = (ipc_activity (world_ipc w))(i := Outside)"
      using ipc_step_return(3) [OF service(6) d(1)] task by simp
    have "application_call c" using d(2) [of i] assms(3) service(1) by simp
    then have foreign: "foreign (call_event c i status) (sys_code (w_queue w))" using service(5) by (cases c) simp_all
    have "queue_step (w_queue w) [] (w_queue w')"
      using queue_step.other_call [OF service(6) foreign] service(4) by simp
    moreover have "app_wf w' (ps(i := f r))"
      unfolding service(4)
      by (rule app_wf_change [OF assms(2), where i = i])
        (use ipc_step_wf [OF service(6) d(1)] act assms(4) service(5) in simp_all)
    ultimately show ?thesis using service(3) by simp
  next
    case (send status b q m)
    note q = queue_returned [OF send(5)]
    then show ?thesis
      using send app_wf_change [OF assms(2), of q "ps(i := f r)" i] d(1) assms(4) by simp
  next
    case (receive status b q m)
    note q = queue_returned [OF receive(5)]
    then show ?thesis
      using receive app_wf_change [OF assms(2), of q "ps(i := f r)" i] d(1) assms(4) by simp
  qed (use app_wf_continue [OF assms(2,4)] at_app_facts(3,4) in \<open>simp_all\<close>)
  then show "app_wf w' (ps(i := f r))"
    "queue_step (w_queue w) e (w_queue w') \<or> e = [] \<and> w_queue w' = w_queue w" by simp_all
qed

section \<open>The application's objects\<close>

text \<open>A call changes the object it names only.\<close>

lemma other_mutex:
  assumes "ipc_step k [call_event c i status] k'" "ipc_wf k" "c \<noteq> Mutex_lock m" "c \<noteq> Mutex_unlock m"
  shows "mutex_holder (ipc_mutexes k' m) = mutex_holder (ipc_mutexes k m)"
proof -
  obtain es where es: "holder m es = mutex_holder (ipc_mutexes k m)"
      "mutex_holder (ipc_mutexes k' m) = holder m ([call_event c i status] @ es)"
    using ipc_step_holder [OF assms(1,2), of m] by metis
  then show ?thesis using assms(3,4) by (cases c) auto
qed

lemma other_semaphore:
  assumes "ipc_step k [call_event c i status] k'" "ipc_wf k" "c \<noteq> Semaphore_wait s" "c \<noteq> Semaphore_post s"
  shows "semaphore_units (ipc_semaphores k' s) = semaphore_units (ipc_semaphores k s)"
  using ipc_step_units(1) [OF assms(1,2), of s] assms(3,4) by (cases c) auto

text \<open>What the console, the resource and the statistics see of two states.\<close>

definition same_objects :: "ipc \<Rightarrow> ipc \<Rightarrow> bool" where
  "same_objects k k' \<longleftrightarrow>
     mutex_holder (ipc_mutexes k' console_mutex) = mutex_holder (ipc_mutexes k console_mutex) \<and>
     semaphore_units (ipc_semaphores k' resource_semaphore) = semaphore_units (ipc_semaphores k resource_semaphore) \<and>
     sem_maximum_count (ipc_semaphores k' resource_semaphore) = sem_maximum_count (ipc_semaphores k resource_semaphore)"

lemma same_objects_refl [simp]: "same_objects k k"
  by (simp add: same_objects_def)

lemma silent_same: "ipc_step k [] k' \<Longrightarrow> ipc_wf k \<Longrightarrow> same_objects k k'"
  using silent_step [of k k'] ipc_step_units(2) [of k "[]" k'] by (simp add: same_objects_def)

lemma queue_call_same:
  assumes "ipc_step k [call_event c i status] k'" "ipc_wf k" "\<not> application_call c"
  shows "same_objects k k'"
proof -
  have "c \<noteq> Mutex_lock 1" "c \<noteq> Mutex_unlock 1" "c \<noteq> Semaphore_wait 2" "c \<noteq> Semaphore_post 2"
    using assms(3) by auto
  then show ?thesis
    using other_mutex [OF assms(1,2)] other_semaphore [OF assms(1,2)] ipc_step_units(2) [OF assms(1,2)]
    by (simp add: same_objects_def)
qed

lemma queue_step_ipc:
  assumes "queue_step x e x'" "sys_code x i = Some c" "sys_code x' i = Some c'" "c' \<noteq> c" "ipc_wf (sys_ipc x)" "only_queue c"
  shows "same_objects (sys_ipc x) (sys_ipc x')"
  using assms(1)
proof (cases rule: queue_step.cases)
  case (inner_call c1 i1 status k f)
  then have "i1 = i" using assms(2-4) by (auto split: if_splits)
  then have "\<not> application_call c1" using inner_call(4) assms(2,6) by simp
  then show ?thesis using queue_call_same [OF inner_call(3) assms(5)] inner_call(2) by simp
qed (use assms(2-4) in auto)

lemma background_same:
  assumes "background ps w e w'" "app_wf w ps"
  shows "w_statistics w' = w_statistics w" "w_board w' = w_board w" "same_objects (world_ipc w) (world_ipc w')"
proof -
  note wf = app_wfD(1) [OF assms(2)]
  have kernel: "kernel_step (world_ipc w) t k \<Longrightarrow> same_objects (world_ipc w) k" for t k
    by (rule silent_same [OF ipc_step.kernel wf])
  have "w_statistics w' = w_statistics w \<and> w_board w' = w_board w \<and> same_objects (world_ipc w) (world_ipc w')"
    using assms(1)
  proof (cases rule: background.cases)
    case systick
    then show ?thesis using kernel [OF kernel_step.systick] by simp
  next
    case (pendsv k)
    then show ?thesis using kernel [OF kernel_step.pendsv] by simp
  next
    case (compute regs sp mem)
    then show ?thesis using kernel [OF kernel_step.compute] by simp
  next
    case (enter i c k)
    then show ?thesis using silent_same [OF enter(5) wf] by simp
  next
    case (block i k)
    then show ?thesis using silent_same [OF block(6) wf] by simp
  next
    case (call_send i m f q)
    have "sys_ipc q = world_ipc w" using call_send(4) by (cases rule: queue_step.cases; simp)
    then show ?thesis using call_send(2) by simp
  next
    case (inside q i c c')
    then show ?thesis
      using queue_step_ipc [OF inside(2-5) wf app_wfD(6) [OF assms(2) inside(3)]] by simp
  qed simp
  then show "w_statistics w' = w_statistics w" "w_board w' = w_board w" "same_objects (world_ipc w) (world_ipc w')"
    by simp_all
qed

text \<open>Only calls of the services change the objects.\<close>

fun is_service :: "action \<Rightarrow> bool" where
  "is_service (Service c) = True"
| "is_service _ = False"

lemma performs_same:
  assumes "performs hw w i a r e w'" "app_wf w ps" "well_behaved a" "\<not> is_service a"
  shows "same_objects (world_ipc w) (world_ipc w')"
  using assms(1)
proof (cases rule: performs.cases)
  case (recording rec s k)
  then have "k = world_ipc w" using recorded_kernel [OF recording(5)] assms(3) by simp
  then show ?thesis using recording by simp
next
  case (sleep ms wakeup k)
  have "k = world_ipc w \<or> kernel_step (world_ipc w) 0 k"
    by (rule sleep_entry_keeps [OF sleep(6) _ at_app_facts(1) [OF sleep(5)]])
      (use app_wfD(1) [OF assms(2)] in \<open>simp add: ipc_wf_def\<close>)
  then show ?thesis
    using silent_same [OF ipc_step.kernel app_wfD(1) [OF assms(2)]] sleep by auto
next
  case (sleep_until tick)
  then show ?thesis
    using silent_same [OF ipc_step.kernel [OF kernel_step.sleep [OF at_app_facts(1) [OF sleep_until(5)]]] app_wfD(1) [OF assms(2)]]
    by simp
next
  case (send status b q m)
  then show ?thesis using queue_returned(2) [OF send(5)] by simp
next
  case (receive status b q m)
  then show ?thesis using queue_returned(2) [OF receive(5)] by simp
qed (use assms(4) in simp_all)

section \<open>Soundness\<close>

text \<open>
  A discipline is sound for an invariant if every action that it permits, and every step in the
  background, keeps the invariant with the typestates moved on. Then well-typed tasks keep it in
  every execution.
\<close>

locale sound_discipline =
  fixes d :: "'t discipline" and hw :: "board \<Rightarrow> board" and body :: "nat \<Rightarrow> task_locals \<Rightarrow> app"
    and Inv :: "(nat \<Rightarrow> 't) \<Rightarrow> queue_event list \<Rightarrow> world \<Rightarrow> bool"
  assumes body_typed: "at_loop d i locals t \<Longrightarrow> typed d i (body i locals) t"
    and action_keeps: "Inv ts es w \<Longrightarrow> app_wf w ps \<Longrightarrow> ps i = Do a f \<Longrightarrow> well_behaved a \<Longrightarrow> permits d i (ts i) a \<Longrightarrow>
      performs hw w i a r e w' \<Longrightarrow> \<exists>t'. after d (ts i) a r = Some t' \<and> Inv (ts(i := t')) (es @ e) w'"
    and background_keeps: "Inv ts es w \<Longrightarrow> app_wf w ps \<Longrightarrow> (\<And>i a f. ps i = Do a f \<Longrightarrow> permits d i (ts i) a) \<Longrightarrow>
      background ps w e w' \<Longrightarrow> Inv ts (es @ e) w'"
begin

definition good :: "(nat \<Rightarrow> 't) \<Rightarrow> queue_event list \<Rightarrow> world \<times> (nat \<Rightarrow> app) \<Rightarrow> bool" where
  "good ts es x \<longleftrightarrow> app_wf (fst x) (snd x) \<and> Inv ts es (fst x) \<and> (\<forall>i. typed d i (snd x i) (ts i))"

lemma step_good:
  assumes "app_step hw body x e x'" "good ts es x"
  shows "\<exists>ts'. good ts' (es @ e) x'"
  using assms
proof (induction rule: app_step.induct)
  case (system ps w e w')
  then have "typed d i (ps i) (ts i)" for i by (simp add: good_def)
  then have "permits d i (ts i) a" if "ps i = Do a f" for i a f using that by (metis typed.simps(1))
  then show ?case
    using system background_keeps [of ts es w ps e w'] background_step(1) by (auto simp: good_def)
next
  case (action ps i a f w r e w')
  then have ok: "app_wf w ps" "Inv ts es w" "typed d i (Do a f) (ts i)" "well_behaved a" "permits d i (ts i) a"
    by (auto simp: good_def dest: spec [of _ i])
  obtain t' where t': "after d (ts i) a r = Some t'" "Inv (ts(i := t')) (es @ e) w'"
    using action_keeps [OF ok(2,1) action(1) ok(4,5) action(2)] by blast
  have "typed d i (f r) t'" using ok(3) t'(1) by (auto dest: spec [of _ r])
  then show ?case
    using performs_step(1) [OF action(2) ok(1) action(1) typed_foreign] t'(2) action(3)
    by (intro exI [of _ "ts(i := t')"]) (auto simp: good_def simp flip: fun_upd_def)
next
  case (loop ps i locals w)
  then have "typed d i (Continue locals) (ts i)" by (auto simp: good_def dest: spec [of _ i])
  then have new: "typed d i (body i locals) (ts i)" by (simp add: body_typed)
  show ?case
    using new loop app_wf_continue [of w ps "body i locals" i] at_app_facts(3,4) [OF loop(2)] typed_foreign [OF new]
    by (intro exI [of _ ts]) (auto simp: good_def)
qed

lemma run_good:
  assumes "app_run hw body x0 es x" "good ts [] x0"
  shows "\<exists>ts. good ts es x"
  using assms by (induction rule: app_run.induct) (auto dest: step_good)

end

end
