(* ===== verification/App_Console.thy ===== *)
theory App_Console
  imports App_System
begin

text \<open>
  The console discipline of the demonstration tasks: characters are sent only by the holder of
  the console mutex, which releases it after one complete line, and the counters of the mutex
  validation are touched accordingly. Every task body is well typed, and the discipline is
  sound: the lines of different tasks never mix.
\<close>

section \<open>Printing as a list of characters\<close>

fun put_all :: "string \<Rightarrow> app \<Rightarrow> app" where
  "put_all [] a = a"
| "put_all (c # cs) a = Do (Put c) (\<lambda>_. put_all cs a)"

lemma print_steps_eq: "print_steps str a = put_all (crlf str) a"
  by (induction str) simp_all

lemma buffer_steps_eq: "n \<le> length buf \<Longrightarrow> buffer_steps buf n a = put_all (rev (take n buf)) a"
  by (induction n) (simp_all add: take_Suc_conv_app_nth)

lemma decimal_zero: "decimal 0 = ''0''"
proof -
  have "(char_of (48 :: nat) :: char) = CHR ''0''"
    by (subst of_char_eq_iff [symmetric, where 'a = nat]) simp
  then show ?thesis by (simp add: decimal.simps [of 0])
qed

lemma print_uint32_steps_eq:
  assumes "length buf = 11"
  shows "print_uint32_steps buf v a = put_all (decimal (unat v)) a"
proof (cases "v = 0")
  case False
  obtain buf' j where r: "digit_loop v buf 0 = (buf', j)" by fastforce
  have "v > 0" "unat (0 :: u32) + length (decimal (unat v)) \<le> length buf" "length buf < 2 ^ 32"
    using False decimal_u32_length [of v] assms by (simp_all add: word_gt_0)
  from digit_loop_spec [OF this, unfolded r prod.case unat_0 add_0_left drop_0]
  have d: "length buf' = length buf" "unat j = length (decimal (unat v))" "rev (take (unat j) buf') = decimal (unat v)"
    by blast+
  then have "unat j \<le> length buf'" using assms decimal_u32_length [of v] by simp
  from buffer_steps_eq [OF this] show ?thesis using False r d(3) by (simp add: print_uint32_steps_def)
qed (simp add: print_uint32_steps_def decimal_zero)

text \<open>Run without interruption, the steps are the calls of the print functions.\<close>

primrec put_exec :: "(board \<Rightarrow> board) \<Rightarrow> app \<Rightarrow> board \<Rightarrow> board option" where
  "put_exec hw (Do a f) = (case a of Put c \<Rightarrow> (\<lambda>b. Option.bind (uart0_write_char hw c b) (put_exec hw (f Completed))) | _ \<Rightarrow> Some)"
| "put_exec hw (Continue locals) = Some"

lemma print_steps_kernel_print:
  "put_exec hw (print_steps str a) = (\<lambda>b. Option.bind (kernel_print hw str b) (put_exec hw a))"
proof (induction str)
  case (Cons c str)
  show ?case by (rule ext) (simp add: Cons.IH kernel_print_def Option.bind_assoc)
qed (simp add: kernel_print_def)

lemma buffer_steps_print_buffer:
  "put_exec hw (buffer_steps buf n a) = (\<lambda>b. Option.bind (print_buffer hw buf n b) (put_exec hw a))"
  by (induction n) (simp_all add: Option.bind_assoc)

lemma print_uint32_steps_kernel_print_uint32:
  "put_exec hw (print_uint32_steps buf v a) = (\<lambda>b. Option.bind (kernel_print_uint32 hw buf v b) (put_exec hw a))"
  by (auto simp: print_uint32_steps_def kernel_print_uint32_def buffer_steps_print_buffer split: prod.split)

section \<open>The discipline\<close>

text \<open>
  A task holds the console mutex or not. The holder's typestate records the characters it has
  sent since it took the mutex, and the value of \<open>g_mutex_critical_depth\<close>.
\<close>

datatype console_state = Free | Holding string u32

text \<open>A complete line of task \<open>i\<close>, as a terminal receives it.\<close>

definition task_line :: "nat \<Rightarrow> string \<Rightarrow> bool" where
  "task_line i l \<longleftrightarrow> (\<exists>ticks event. CHR 0x0A \<notin> set event \<and>
     l = ''[TASK '' @ decimal i @ ''] tick='' @ decimal ticks @ '' '' @ event @ [CHR 0x0D, CHR 0x0A])"

text \<open>The counters that only the holder may change.\<close>

definition depth_kept :: "(statistics \<Rightarrow> statistics) \<Rightarrow> bool" where
  "depth_kept g \<longleftrightarrow> (\<forall>s. g_mutex_critical_depth (g s) = g_mutex_critical_depth s \<and>
     g_mutex_violation_count (g s) = g_mutex_violation_count s \<and> g_mutex_error_count (g s) = g_mutex_error_count s)"

definition depth_after :: "u32 \<Rightarrow> (statistics \<Rightarrow> statistics) \<Rightarrow> u32" where
  "depth_after n g = g_mutex_critical_depth (g (statistics_initial\<lparr>g_mutex_critical_depth := n\<rparr>))"

definition depth_moved :: "u32 \<Rightarrow> (statistics \<Rightarrow> statistics) \<Rightarrow> bool" where
  "depth_moved n g \<longleftrightarrow> (\<forall>s. g_mutex_critical_depth s = n \<longrightarrow> g_mutex_critical_depth (g s) = depth_after n g \<and>
     g_mutex_violation_count (g s) = g_mutex_violation_count s \<and> g_mutex_error_count (g s) = g_mutex_error_count s)"

definition console_permits :: "nat \<Rightarrow> console_state \<Rightarrow> action \<Rightarrow> bool" where
  "console_permits i t a = (case t of
     Free \<Rightarrow>
       (case a of
          Service c \<Rightarrow> i \<noteq> 0 \<and> c \<noteq> Mutex_unlock console_mutex \<and> (\<forall>m. c = Mutex_lock m \<longrightarrow> m = console_mutex)
        | Put c \<Rightarrow> False
        | Write_statistics g \<Rightarrow> depth_kept g
        | Record rec \<Rightarrow> (\<forall>k. depth_kept (\<lambda>s. fst (rec (s, k))))
        | _ \<Rightarrow> True)
   | Holding p n \<Rightarrow>
       (case a of
          Service c \<Rightarrow> i \<in> {1, 2, 3} \<and> c = Mutex_unlock console_mutex \<and> n = 0 \<and> task_line i p
        | Put c \<Rightarrow> True
        | Write_statistics g \<Rightarrow> depth_moved n g
        | Get_ticks \<Rightarrow> True
        | Read_statistics \<Rightarrow> True
        | _ \<Rightarrow> False))"

text \<open>Neither lock nor the holder's unlock can fail, and the holder reads the depth it wrote.\<close>

definition console_after :: "console_state \<Rightarrow> action \<Rightarrow> response \<Rightarrow> console_state option" where
  "console_after t a r = (case t of
     Free \<Rightarrow>
       (case a of
          Service (Mutex_lock m) \<Rightarrow>
            (case r of Status s \<Rightarrow> if s = OS_MUTEX_OK then Some (Holding [] 0) else None | _ \<Rightarrow> None)
        | _ \<Rightarrow> Some Free)
   | Holding p n \<Rightarrow>
       (case a of
          Service c \<Rightarrow> (case r of Status s \<Rightarrow> if s = OS_MUTEX_OK then Some Free else None | _ \<Rightarrow> None)
        | Put c \<Rightarrow> Some (Holding (p @ [c]) n)
        | Read_statistics \<Rightarrow>
            (case r of Snapshot s \<Rightarrow> if g_mutex_critical_depth s = n then Some t else None | _ \<Rightarrow> None)
        | Write_statistics g \<Rightarrow> Some (Holding p (depth_after n g))
        | _ \<Rightarrow> Some t))"

definition console_discipline :: "console_state discipline" where
  "console_discipline = \<lparr>permits = console_permits, after = console_after, at_loop = (\<lambda>i locals t. t = Free)\<rparr>"

abbreviation (input) console_typed :: "nat \<Rightarrow> app \<Rightarrow> console_state \<Rightarrow> bool" where
  "console_typed i a t \<equiv> typed console_discipline i a t"

section \<open>The task bodies are well typed\<close>

lemmas console_simps = console_discipline_def console_permits_def console_after_def

lemma typed_put_all [simp]:
  "console_typed i (put_all cs a) (Holding p n) = console_typed i a (Holding (p @ cs) n)"
  by (induction cs arbitrary: p) (simp_all add: console_simps)

lemma typed_ticks:
  "(\<And>ticks. console_typed i (f ticks) t) \<Longrightarrow> console_typed i (do_ticks f) t"
  by (cases t) (simp_all add: console_simps)

lemma typed_lock:
  assumes "i \<noteq> 0" "console_typed i (f OS_MUTEX_OK) (Holding [] 0)"
  shows "console_typed i (do_service (Mutex_lock console_mutex) f) Free"
  using assms by (auto simp: console_simps split: response.split)

lemma typed_unlock:
  assumes "i \<in> {1, 2, 3}" "task_line i p" "console_typed i (f OS_MUTEX_OK) Free"
  shows "console_typed i (do_service (Mutex_unlock console_mutex) f) (Holding p 0)"
  using assms by (auto simp: console_simps split: response.split)

text \<open>A counter that is not the depth, and the depth itself.\<close>

lemma typed_read_holding:
  assumes "\<And>s. g_mutex_critical_depth s = n \<Longrightarrow> console_typed i (f (Snapshot s)) (Holding p n)"
  shows "console_typed i (Do Read_statistics f) (Holding p n)"
  using assms by (auto simp: console_simps split: response.split)

lemma typed_write_holding:
  assumes "depth_moved n g" "console_typed i a (Holding p (depth_after n g))"
  shows "console_typed i (Do (Write_statistics g) (\<lambda>_. a)) (Holding p n)"
  using assms by (simp add: console_simps)

lemma typed_write_free:
  assumes "depth_kept g" "console_typed i a Free"
  shows "console_typed i (Do (Write_statistics g) (\<lambda>_. a)) Free"
  using assms by (simp add: console_simps)

lemma typed_record:
  assumes "\<And>s k. cpu_primask k = 0 \<Longrightarrow> snd (rec (s, k)) = k" "\<And>k. depth_kept (\<lambda>s. fst (rec (s, k)))" "console_typed i a Free"
  shows "console_typed i (do_record rec a) Free"
  using assms by (simp add: console_simps)

text \<open>Text without a newline or a NUL is sent as it is.\<close>

definition plain :: "string \<Rightarrow> bool" where
  "plain str \<longleftrightarrow> CHR 0x00 \<notin> set str \<and> CHR 0x0A \<notin> set str"

lemma crlf_plain: "plain str \<Longrightarrow> crlf str = str"
  by (induction str) (auto simp: plain_def)

lemma decimal_task: "decimal 1 = ''1''" "decimal 2 = ''2''" "decimal 3 = ''3''"
proof -
  have "(char_of (49 :: nat) :: char) = CHR ''1''" "(char_of (50 :: nat) :: char) = CHR ''2''"
    "(char_of (51 :: nat) :: char) = CHR ''3''"
    by (subst of_char_eq_iff [symmetric, where 'a = nat]; simp)+
  then show "decimal 1 = ''1''" "decimal 2 = ''2''" "decimal 3 = ''3''"
    by (subst decimal.simps; simp)+
qed

lemma decimal_plain: "plain (decimal n)"
proof (induction n rule: decimal.induct)
  case (1 n)
  have digit: "plain [char_of (48 + m)]" if "m < 10" for m :: nat
  proof -
    have code: "(of_char (char_of (48 + m) :: char) :: nat) = 48 + m" using that by simp
    have "(char_of (48 + m) :: char) \<noteq> c" if "of_char c < (48 :: nat)" for c
      using code that by (metis add_lessD1 less_irrefl)
    from this [of "CHR 0x00"] this [of "CHR 0x0A"]
    have "(char_of (48 + m) :: char) \<noteq> CHR 0x00" "(char_of (48 + m) :: char) \<noteq> CHR 0x0A" by simp_all
    then show ?thesis by (simp add: plain_def)
  qed
  show ?case
    using 1 digit [of n] digit [of "n mod 10"] by (cases "n < 10") (simp_all add: decimal.simps [of n] plain_def)
qed

lemma task_lineI:
  assumes "plain event"
  shows "task_line i (''[TASK '' @ decimal i @ ''] tick='' @ decimal ticks @ '' '' @ event @ [CHR 0x0D, CHR 0x0A])"
  using assms unfolding task_line_def plain_def by blast

lemma crlf_texts:
  "crlf ''['' = ''[''" "crlf ''] tick='' = ''] tick=''" "crlf '' '' = '' ''" "crlf ''\<newline>'' = [CHR 0x0D, CHR 0x0A]"
  "crlf '' producer='' = '' producer=''" "crlf '' sequence='' = '' sequence=''"
  "crlf '' produced_tick='' = '' produced_tick=''"
  by simp_all

declare typed.simps(1) [simp del] put_all.simps [simp del] crlf.simps [simp del]

text \<open>The texts that the two functions print, without and with the counters.\<close>

lemma write_task_event_typed:
  assumes i: "i \<in> {1, 2, 3}" and name: "plain name" "name = ''TASK '' @ decimal i" and event: "plain event"
    and buffer: "length (stale_digits v) = 11" and a: "console_typed i a Free"
  shows "console_typed i (kernel_write_task_event v name event a) Free"
proof -
  have line: "task_line i (''['' @ name @ ''] tick='' @ decimal ticks @ '' '' @ event @ [CHR 0x0D, CHR 0x0A])" for ticks
    using task_lineI [OF event, of i ticks] by (simp add: name(2))
  have assign: "depth_moved n (\<lambda>s. s\<lparr>g_mutex_protected_print_count := x\<rparr>)"
    "depth_after n (\<lambda>s. s\<lparr>g_mutex_protected_print_count := x\<rparr>) = n"
    "depth_moved n (\<lambda>s. s\<lparr>g_mutex_critical_depth := x\<rparr>)"
    "depth_after n (\<lambda>s. s\<lparr>g_mutex_critical_depth := x\<rparr>) = x" for n x
    by (simp_all add: depth_moved_def depth_after_def)
  have "i \<noteq> 0" using i by auto
  then show ?thesis
    unfolding kernel_write_task_event_def print_steps_eq print_uint32_steps_eq [OF buffer] Let_def
    by (intro typed_lock)
      (auto simp: crlf_texts crlf_plain name(1) event a assign simp del: One_nat_def
        intro!: typed_ticks typed_read_holding typed_write_holding typed_unlock i line [simplified])
qed

lemma plain_append [simp]: "plain (s @ s') \<longleftrightarrow> plain s \<and> plain s'"
  by (auto simp: plain_def)

lemma recorders_keep [simp]:
  assumes "cpu_primask k = 0"
  shows "snd (kernel_record_message_queue_error (s, k)) = k" "snd (kernel_record_message_queue_send_success (s, k)) = k"
  "snd (kernel_record_message_queue_receive_success m (s, k)) = k"
  "snd (kernel_record_semaphore_enter (s, k)) = k" "snd (kernel_record_semaphore_exit (s, k)) = k"
  "snd (kernel_record_semaphore_post_success (s, k)) = k" "snd (kernel_record_semaphore_error (s, k)) = k"
  using primask_same [OF assms] assms
  by (simp_all add: kernel_record_message_queue_error_def kernel_record_message_queue_send_success_def
      kernel_record_message_queue_receive_success_def kernel_record_semaphore_enter_def
      kernel_record_semaphore_exit_def kernel_record_semaphore_post_success_def kernel_record_semaphore_error_def
      machine_ops Let_def)

lemma recorders_depth [simp]:
  "depth_kept (\<lambda>s. fst (kernel_record_message_queue_error (s, k)))"
  "depth_kept (\<lambda>s. fst (kernel_record_message_queue_send_success (s, k)))"
  "depth_kept (\<lambda>s. fst (kernel_record_message_queue_receive_success m (s, k)))"
  "depth_kept (\<lambda>s. fst (kernel_record_semaphore_enter (s, k)))"
  "depth_kept (\<lambda>s. fst (kernel_record_semaphore_exit (s, k)))"
  "depth_kept (\<lambda>s. fst (kernel_record_semaphore_post_success (s, k)))"
  "depth_kept (\<lambda>s. fst (kernel_record_semaphore_error (s, k)))"
  for k :: "'a kernel_scheme"
  by (simp_all add: depth_kept_def kernel_record_message_queue_error_def kernel_record_message_queue_send_success_def
      kernel_record_message_queue_receive_success_def kernel_record_semaphore_enter_def
      kernel_record_semaphore_exit_def kernel_record_semaphore_post_success_def kernel_record_semaphore_error_def
      machine_ops Let_def)

lemma write_queue_message_typed:
  assumes i: "i \<in> {1, 2, 3}" and name: "plain name" "name = ''TASK '' @ decimal i" and event: "plain event"
    and buffer: "length (stale_digits v) = 11" and a: "console_typed i a Free"
  shows "console_typed i (kernel_write_queue_message v name event m a) Free"
proof -
  let ?rest = "event @ '' producer='' @ decimal (unat (producer_id m)) @ '' sequence='' @
    decimal (unat (sequence m)) @ '' produced_tick='' @ decimal (unat (production_tick m))"
  have "plain ?rest" using event decimal_plain by (simp add: plain_def)
  from task_lineI [OF this, of i]
  have line: "task_line i (''['' @ name @ ''] tick='' @ decimal ticks @ '' '' @ ?rest @ [CHR 0x0D, CHR 0x0A])" for ticks
    by (simp add: name(2))
  have "i \<noteq> 0" using i by auto
  then show ?thesis
    unfolding kernel_write_queue_message_def print_steps_eq print_uint32_steps_eq [OF buffer] Let_def
    by (intro typed_lock)
      (auto simp: crlf_texts crlf_plain name(1) event a simp del: One_nat_def
        intro!: typed_ticks typed_unlock i line [simplified])
qed

text \<open>Outside the critical section.\<close>

lemma typed_free [intro]:
  "(\<And>r. console_typed i (f r) Free) \<Longrightarrow> console_typed i (Do (Queue_send m) f) Free"
  "(\<And>r. console_typed i (f r) Free) \<Longrightarrow> console_typed i (Do (Queue_receive b) f) Free"
  "console_typed i a Free \<Longrightarrow> console_typed i (do_sleep ms a) Free"
  "console_typed i a Free \<Longrightarrow> console_typed i (do_toggle v a) Free"
  "console_typed i (Continue locals) Free" "at_loop console_discipline i locals Free"
  "i \<noteq> 0 \<Longrightarrow> (\<And>s. console_typed i (g s) Free) \<Longrightarrow>
    console_typed i (do_service (Semaphore_wait resource_semaphore) g) Free"
  "i \<noteq> 0 \<Longrightarrow> (\<And>s. console_typed i (g s) Free) \<Longrightarrow>
    console_typed i (do_service (Semaphore_post resource_semaphore) g) Free"
  by (auto simp: console_simps typed.simps(1) do_sleep_def do_toggle_def split: option.split)

lemma typed_when:
  "(\<And>a. console_typed i a Free \<Longrightarrow> console_typed i (f a) Free) \<Longrightarrow> console_typed i a Free \<Longrightarrow>
    console_typed i (when_enabled debug f a) Free"
  by (simp add: when_enabled_def)

lemma task_names: "plain ''TASK 1''" "plain ''TASK 2''" "plain ''TASK 3''" "''TASK 1'' = ''TASK '' @ decimal 1"
    "''TASK 2'' = ''TASK '' @ decimal 2" "''TASK 3'' = ''TASK '' @ decimal 3"
  by (simp_all add: plain_def decimal_task del: One_nat_def)

lemma semaphore_worker_typed:
  assumes "i \<in> {1, 2, 3}" "plain name" "name = ''TASK '' @ decimal i" "length (stale_digits v) = 11"
  shows "console_typed i (kernel_run_semaphore_worker v name toggle ms) Free"
proof -
  have "i \<noteq> 0" using assms(1) by auto
  then show ?thesis
    unfolding kernel_run_semaphore_worker_def
    by (intro typed_free)
      (auto intro!: typed_free typed_when typed_record write_task_event_typed assms simp: plain_def)
qed

lemma queue_producer_typed:
  assumes "i \<in> {1, 2, 3}" "plain name" "name = ''TASK '' @ decimal i" "length (stale_digits v) = 11"
  shows "console_typed i (kernel_run_queue_producer v name p toggle ms n) Free"
  unfolding kernel_run_queue_producer_def Let_def
  by (rule typed_ticks)
    (auto intro!: typed_free typed_when typed_record write_queue_message_typed assms simp: plain_def)

lemma queue_consumer_typed:
  assumes "i \<in> {1, 2, 3}" "plain name" "name = ''TASK '' @ decimal i" "length (stale_digits v) = 11"
  shows "console_typed i (kernel_run_queue_consumer demo v name toggle b) Free"
  unfolding kernel_run_queue_consumer_def Let_def
  by (rule typed_free)
    (auto intro!: typed_free typed_when typed_record write_queue_message_typed assms simp: plain_def)

lemma sleep_test_typed:
  assumes "\<And>f. depth_kept (upd f)"
  shows "console_typed i (run_sleep_test ms upd toggle) Free"
  unfolding run_sleep_test_def Let_def by (auto intro!: typed_ticks typed_free typed_write_free assms)

lemma mutex_demo_typed:
  assumes "i \<in> {1, 2, 3}" "plain name" "name = ''TASK '' @ decimal i" "length (stale_digits v) = 11"
  shows "console_typed i (run_mutex_demo v name toggle ms) Free"
  unfolding run_mutex_demo_def by (auto intro!: typed_free write_task_event_typed assms simp: plain_def)

lemma app_body_typed:
  assumes "length (stale_digits v) = 11"
  shows "console_typed i (app_body demo v i locals) Free"
proof -
  have stats: "depth_kept (g_task_1_sleep_stats_update f)" "depth_kept (g_task_2_sleep_stats_update f)"
    "depth_kept (g_task_3_sleep_stats_update f)" for f by (simp_all add: depth_kept_def)
  note bodies = sleep_test_typed mutex_demo_typed semaphore_worker_typed queue_producer_typed queue_consumer_typed
  show ?thesis
    unfolding app_body_def app_task_1_def app_task_2_def app_task_3_def
    by (cases demo) (auto intro!: bodies task_names stats assms typed_free simp del: One_nat_def)
qed

section \<open>Soundness\<close>

fun text_of :: "console_state \<Rightarrow> string" where
  "text_of Free = []"
| "text_of (Holding p n) = p"

fun depth_of :: "console_state \<Rightarrow> u32" where
  "depth_of Free = 0"
| "depth_of (Holding p n) = n"

text \<open>The typestate of the task that holds the console mutex.\<close>

definition console_user :: "(nat \<Rightarrow> console_state) \<Rightarrow> ipc \<Rightarrow> console_state" where
  "console_user ts k = (case mutex_holder (ipc_mutexes k console_mutex) of None \<Rightarrow> Free | Some i \<Rightarrow> ts i)"

text \<open>
  The output consists of complete lines and the characters of the present holder; the counters
  are as the holder left them, without a violation.
\<close>

definition console_inv ::
  "(board \<Rightarrow> board) \<Rightarrow> string \<Rightarrow> (nat \<Rightarrow> console_state) \<Rightarrow> queue_event list \<Rightarrow> world \<Rightarrow> bool"
where
  "console_inv hw out0 ts es w \<longleftrightarrow>
     only_status hw \<and> fifo_drains hw \<and>
     (\<forall>i. ts i \<noteq> Free \<longleftrightarrow> mutex_holder (ipc_mutexes (world_ipc w) console_mutex) = Some i) \<and>
     (\<exists>ls. (\<forall>l \<in> set ls. \<exists>i \<in> {1, 2, 3}. task_line i l) \<and>
       uart_output (w_board w) = out0 @ concat ls @ text_of (console_user ts (world_ipc w))) \<and>
     g_mutex_critical_depth (w_statistics w) = depth_of (console_user ts (world_ipc w)) \<and>
     g_mutex_violation_count (w_statistics w) = 0 \<and> g_mutex_error_count (w_statistics w) = 0"

text \<open>Nothing that the invariant reads has changed.\<close>

lemma console_inv_same:
  assumes "console_inv hw out0 ts es w"
    "mutex_holder (ipc_mutexes (world_ipc w') console_mutex) = mutex_holder (ipc_mutexes (world_ipc w) console_mutex)"
    "uart_output (w_board w') = uart_output (w_board w)"
    "g_mutex_critical_depth (w_statistics w') = g_mutex_critical_depth (w_statistics w)"
    "g_mutex_violation_count (w_statistics w') = g_mutex_violation_count (w_statistics w)"
    "g_mutex_error_count (w_statistics w') = g_mutex_error_count (w_statistics w)"
  shows "console_inv hw out0 ts es' w'"
  using assms unfolding console_inv_def console_user_def by simp

text \<open>The holder moves on.\<close>

lemma console_inv_holder:
  assumes "console_inv hw out0 ts es w" "ts i = Holding p d" "same_objects (world_ipc w) (world_ipc w')"
    "uart_output (w_board w') = uart_output (w_board w) @ s"
    "g_mutex_critical_depth (w_statistics w') = d'"
    "g_mutex_violation_count (w_statistics w') = g_mutex_violation_count (w_statistics w)"
    "g_mutex_error_count (w_statistics w') = g_mutex_error_count (w_statistics w)"
  shows "console_inv hw out0 (ts(i := Holding (p @ s) d')) es' w'"
proof -
  have holder: "mutex_holder (ipc_mutexes (world_ipc w) console_mutex) = Some i"
    using assms(1,2) by (auto simp: console_inv_def dest: spec [of _ i])
  have holder': "mutex_holder (ipc_mutexes (world_ipc w') console_mutex) = Some i"
    using assms(3) holder by (simp add: same_objects_def)
  have "console_user ts (world_ipc w) = Holding p d" "console_user (ts(i := Holding (p @ s) d')) (world_ipc w') = Holding (p @ s) d'"
    using holder holder' assms(2) by (simp_all add: console_user_def)
  then show ?thesis
    using assms holder holder' unfolding console_inv_def by (auto simp: fun_upd_def)
qed

lemma performs_output:
  assumes "performs hw w i a r e w'" "only_status hw" "fifo_drains hw"
  shows "(\<forall>c. a \<noteq> Put c) \<Longrightarrow> (\<forall>v. a \<noteq> Write_leds v) \<Longrightarrow> w_board w' = w_board w"
    "a = Put c \<Longrightarrow> uart_output (w_board w') = uart_output (w_board w) @ [c]"
    "a = Write_leds v \<Longrightarrow> w_board w' = reg_write GPIO_PORTF_DATA_R v (w_board w)"
    "(\<forall>g. a \<noteq> Write_statistics g) \<Longrightarrow> (\<forall>rec. a \<noteq> Record rec) \<Longrightarrow> w_statistics w' = w_statistics w"
    "a = Write_statistics h \<Longrightarrow> w_statistics w' = h (w_statistics w)"
    "a = Record rec \<Longrightarrow> w_statistics w' = fst (rec (w_statistics w, world_ipc w))"
    "a = Read_statistics \<Longrightarrow> r = Snapshot (w_statistics w)"
    "a = Service call \<Longrightarrow> \<exists>status. r = Status status \<and> ipc_step (world_ipc w) [call_event call i status] (world_ipc w')"
  using assms uart0_write_char_wrote [OF assms(2,3), of c "w_board w"]
  by (cases rule: performs.cases; auto simp: wrote_def)+

lemma console_free_action:
  assumes inv: "console_inv hw out0 ts es w" and wf: "app_wf w ps" and wb: "well_behaved a"
    and free: "ts i = Free" and permits: "console_permits i Free a" and step: "performs hw w i a r e w'"
    and no_service: "\<not> is_service a"
  shows "console_after Free a r = Some Free" "console_inv hw out0 ts es' w'"
proof -
  have "only_status hw" "fifo_drains hw" using inv by (simp_all add: console_inv_def)
  note out = performs_output [OF step this]
  show "console_after Free a r = Some Free" using no_service by (cases a) (simp_all add: console_after_def)
  show "console_inv hw out0 ts es' w'"
  proof (rule console_inv_same [OF inv])
    show "mutex_holder (ipc_mutexes (world_ipc w') console_mutex) = mutex_holder (ipc_mutexes (world_ipc w) console_mutex)"
      using performs_same [OF step wf wb no_service] by (simp add: same_objects_def)
    show "uart_output (w_board w') = uart_output (w_board w)"
      using out(1,3) permits by (cases a) (auto simp: console_permits_def)
    show "g_mutex_critical_depth (w_statistics w') = g_mutex_critical_depth (w_statistics w)"
      "g_mutex_violation_count (w_statistics w') = g_mutex_violation_count (w_statistics w)"
      "g_mutex_error_count (w_statistics w') = g_mutex_error_count (w_statistics w)"
      using out(4-6) permits by (cases a; auto simp: console_permits_def depth_kept_def)+
  qed
qed

lemma console_holder_action:
  assumes inv: "console_inv hw out0 ts es w" and wf: "app_wf w ps" and wb: "well_behaved a"
    and holding: "ts i = Holding p d" and permits: "console_permits i (Holding p d) a"
    and step: "performs hw w i a r e w'" and no_service: "\<not> is_service a"
  shows "\<exists>t'. console_after (Holding p d) a r = Some t' \<and> console_inv hw out0 (ts(i := t')) es' w'"
proof -
  have uart: "only_status hw" "fifo_drains hw" using inv by (simp_all add: console_inv_def)
  note out = performs_output [OF step uart]
  have holder: "mutex_holder (ipc_mutexes (world_ipc w) console_mutex) = Some i"
    using inv holding by (auto simp: console_inv_def dest: spec [of _ i])
  then have depth: "g_mutex_critical_depth (w_statistics w) = d"
    using inv holding by (simp add: console_inv_def console_user_def)
  note move = console_inv_holder [OF inv holding performs_same [OF step wf wb no_service], where es' = es']
  show ?thesis
    using permits
  proof (cases a)
    case Get_ticks
    then show ?thesis using move [of "[]" d] out(1,4) depth by (simp add: console_after_def)
  next
    case Read_statistics
    then show ?thesis using move [of "[]" d] out(1,4,7) depth by (simp add: console_after_def)
  next
    case (Write_statistics g)
    then have "depth_moved d g" using permits by (simp add: console_permits_def)
    then show ?thesis
      using Write_statistics move [of "[]" "depth_after d g"] out(1,5) depth
      by (simp add: console_after_def depth_moved_def)
  next
    case (Put c)
    then show ?thesis using move [of "[c]" d] out(2,4) depth by (simp add: console_after_def)
  qed (use no_service in \<open>simp_all add: console_permits_def\<close>)
qed

text \<open>The calls of the services.\<close>

lemma console_lock:
  assumes inv: "console_inv hw out0 ts es w" and wf: "app_wf w ps" and i: "i \<noteq> 0" and free: "ts i = Free"
    and step: "ipc_step (world_ipc w) [Locked i console_mutex status] k"
    and w': "world_ipc w' = k" "w_statistics w' = w_statistics w" "w_board w' = w_board w"
  shows "status = OS_MUTEX_OK" "console_inv hw out0 (ts(i := Holding [] 0)) es' w'"
proof -
  have "mutex_holder (ipc_mutexes (world_ipc w) console_mutex) \<noteq> Some i"
    using inv free by (auto simp: console_inv_def)
  note call = lock_call [OF step app_wfD(1) [OF wf] i this]
  show "status = OS_MUTEX_OK" by (rule call(1))
  show "console_inv hw out0 (ts(i := Holding [] 0)) es' w'"
    using inv call(2,3) w' by (auto simp: console_inv_def console_user_def)
qed

lemma console_unlock:
  assumes inv: "console_inv hw out0 ts es w" and wf: "app_wf w ps" and i: "i \<in> {1, 2, 3}"
    and holding: "ts i = Holding p 0" and line: "task_line i p"
    and step: "ipc_step (world_ipc w) [Unlocked i console_mutex status] k"
    and w': "world_ipc w' = k" "w_statistics w' = w_statistics w" "w_board w' = w_board w"
  shows "status = OS_MUTEX_OK" "console_inv hw out0 (ts(i := Free)) es' w'"
proof -
  have holder: "mutex_holder (ipc_mutexes (world_ipc w) console_mutex) = Some i"
    using inv holding by (auto simp: console_inv_def dest: spec [of _ i])
  have "i \<noteq> 0" using i by auto
  note call = unlock_call [OF step app_wfD(1) [OF wf] this holder]
  show "status = OS_MUTEX_OK" by (rule call(1))
  obtain ls where ls: "\<forall>l \<in> set ls. \<exists>i \<in> {1, 2, 3}. task_line i l" "uart_output (w_board w) = out0 @ concat ls @ p"
    using inv holder holding by (auto simp: console_inv_def console_user_def)
  then have "\<exists>ls. (\<forall>l \<in> set ls. \<exists>i \<in> {1, 2, 3}. task_line i l) \<and> uart_output (w_board w) = out0 @ concat ls"
    using line i by (intro exI [of _ "ls @ [p]"]) auto
  then show "console_inv hw out0 (ts(i := Free)) es' w'"
    using inv holder holding call(2) w' by (auto simp: console_inv_def console_user_def)
qed

lemma console_action:
  assumes inv: "console_inv hw out0 ts es w" and wf: "app_wf w ps" and wb: "well_behaved a"
    and permits: "console_permits i (ts i) a" and step: "performs hw w i a r e w'"
  shows "\<exists>t'. console_after (ts i) a r = Some t' \<and> console_inv hw out0 (ts(i := t')) es' w'"
proof (cases "is_service a")
  case True
  then obtain c where a: "a = Service c" by (cases a) simp_all
  have "only_status hw" "fifo_drains hw" using inv by (simp_all add: console_inv_def)
  note out = performs_output [OF step this]
  have frame: "w_statistics w' = w_statistics w" "w_board w' = w_board w" using out(1,4) a by simp_all
  obtain status where r: "r = Status status" "ipc_step (world_ipc w) [call_event c i status] (world_ipc w')"
    using out(8) a by blast
  show ?thesis
  proof (cases "ts i")
    case Free
    then have c: "i \<noteq> 0" "c \<noteq> Mutex_unlock console_mutex" "\<forall>m. c = Mutex_lock m \<longrightarrow> m = console_mutex"
      using permits a by (simp_all add: console_permits_def)
    show ?thesis
    proof (cases "c = Mutex_lock console_mutex")
      case True
      then have step': "ipc_step (world_ipc w) [Locked i console_mutex status] (world_ipc w')" using r(2) by simp
      show ?thesis
        using console_lock [OF inv wf c(1) Free step' refl frame] Free a r(1) True by (simp add: console_after_def)
    next
      case False
      then have "console_after Free a r = Some Free" using c(3) a by (auto simp: console_after_def split: call.split)
      moreover have "console_inv hw out0 ts es' w'"
        using console_inv_same [OF inv other_mutex [OF r(2) app_wfD(1) [OF wf] False c(2)]] frame by simp
      ultimately show ?thesis using Free by (metis fun_upd_triv)
    qed
  next
    case (Holding p d)
    then have c: "i \<in> {1, 2, 3}" "c = Mutex_unlock console_mutex" "d = 0" "task_line i p"
      using permits a by (simp_all add: console_permits_def)
    then have step': "ipc_step (world_ipc w) [Unlocked i console_mutex status] (world_ipc w')" using r(2) by simp
    show ?thesis
      using console_unlock [OF inv wf c(1) Holding [unfolded c(3)] c(4) step' refl frame] Holding a r(1)
      by (simp add: console_after_def)
  qed
next
  case False
  show ?thesis
  proof (cases "ts i")
    case Free
    then show ?thesis
      using console_free_action(1) [OF inv wf wb Free permits [unfolded Free] step False]
        console_free_action(2) [OF inv wf wb Free permits [unfolded Free] step False, of es'] by (metis fun_upd_triv)
  next
    case (Holding p d)
    then show ?thesis
      using console_holder_action [OF inv wf wb Holding permits [unfolded Holding] step False] by simp
  qed
qed

text \<open>What a well-typed holder of the mutex has sent is the beginning of one of its lines.\<close>

lemma holding_line:
  "console_typed i a (Holding p n) \<Longrightarrow> i \<in> {1, 2, 3} \<and> (\<exists>rest. task_line i (p @ rest))"
proof (induction a arbitrary: p n)
  case (Do a f)
  have IH: "i \<in> {1, 2, 3} \<and> (\<exists>rest. task_line i (q @ rest))" if "console_typed i (f r) (Holding q m)" for r q m
    using Do.IH [OF rangeI that] .
  have fields: "permits console_discipline = console_permits" "after console_discipline = console_after"
    by (simp_all add: console_discipline_def)
  have permits: "console_permits i (Holding p n) a"
    and rest: "case console_after (Holding p n) a r of None \<Rightarrow> True | Some t \<Rightarrow> console_typed i (f r) t" for r
    using Do.prems by (simp_all add: typed.simps(1) fields)
  from permits show ?case
  proof (cases a)
    case (Service c)
    then show ?thesis using permits by (auto simp: console_permits_def intro!: exI [of _ "[]"])
  next
    case Get_ticks
    then show ?thesis using rest [of Completed] IH by (simp add: console_after_def)
  next
    case Read_statistics
    then show ?thesis
      using rest [of "Snapshot (statistics_initial\<lparr>g_mutex_critical_depth := n\<rparr>)"] IH by (simp add: console_after_def)
  next
    case (Write_statistics g)
    then show ?thesis using rest [of Completed] IH by (simp add: console_after_def)
  next
    case (Put c)
    then show ?thesis using rest [of Completed] IH [of Completed "p @ [c]" n] by (auto simp: console_after_def)
  qed (simp_all add: console_permits_def)
qed (simp add: console_discipline_def)

text \<open>The buffer of \<open>kernel_print_uint32\<close> has eleven characters, whatever they are.\<close>

definition with_buffer :: "validation \<Rightarrow> validation" where
  "with_buffer v = v\<lparr>stale_digits := take 11 (stale_digits v @ replicate 11 (CHR 0x00))\<rparr>"

interpretation console: sound_discipline console_discipline hw "app_body demo (with_buffer v)" "console_inv hw out0"
  for hw :: "board \<Rightarrow> board" and demo :: demo and v :: validation and out0 :: string
proof
  fix i locals t
  assume "at_loop console_discipline i locals t"
  then have t: "t = Free" by (simp add: console_discipline_def)
  have "length (stale_digits (with_buffer v)) = 11" by (simp add: with_buffer_def)
  then show "typed console_discipline i (app_body demo (with_buffer v) i locals) t"
    unfolding t by (rule app_body_typed)
next
  fix ts es w ps i a f r e w'
  assume "console_inv hw out0 ts es w" "app_wf w ps" "well_behaved a" "permits console_discipline i (ts i) a"
    "performs hw w i a r e w'"
  then show "\<exists>t'. after console_discipline (ts i) a r = Some t' \<and> console_inv hw out0 (ts(i := t')) (es @ e) w'"
    using console_action [of hw out0 ts es w ps a i r e w' "es @ e"] by (simp add: console_discipline_def)
next
  fix ts es w ps e w'
  assume "console_inv hw out0 ts es w" "app_wf w ps" "background ps w e w'"
  then show "console_inv hw out0 ts (es @ e) w'"
    using console_inv_same [of hw out0 ts es w w' "es @ e"] background_same(1-3) [where ps = ps and w = w and e = e and w' = w']
    by (simp add: same_objects_def)
qed

end
