(* ===== verification/App_Resource.thy ===== *)
theory App_Resource
  imports App_Console
begin

text \<open>
  The resource discipline of the demonstration tasks: between its wait and its post a task owns
  one of the two units of the resource semaphore, and it is counted as a user only in between.
  Every task body is well typed, and the discipline is sound: there are never more than two
  users, and the validation counters record no violation and no error.
\<close>

section \<open>The discipline\<close>

datatype resource_state = No_unit | Unit | Counted

definition resource_kept :: "(statistics \<Rightarrow> statistics) \<Rightarrow> bool" where
  "resource_kept g \<longleftrightarrow> (\<forall>s. g_semaphore_active_users (g s) = g_semaphore_active_users s \<and>
     g_semaphore_max_active_users (g s) = g_semaphore_max_active_users s \<and>
     g_semaphore_violation_count (g s) = g_semaphore_violation_count s \<and>
     g_semaphore_error_count (g s) = g_semaphore_error_count s)"

definition resource_permits :: "nat \<Rightarrow> resource_state \<Rightarrow> action \<Rightarrow> bool" where
  "resource_permits i t a = (case a of
     Service c \<Rightarrow> i \<noteq> 0 \<and> (c = Semaphore_wait resource_semaphore \<longrightarrow> t = No_unit) \<and>
       (c = Semaphore_post resource_semaphore \<longrightarrow> t = Unit)
   | Write_statistics g \<Rightarrow> resource_kept g
   | Record rec \<Rightarrow>
       rec = kernel_record_semaphore_enter \<and> t = Unit \<or> rec = kernel_record_semaphore_exit \<and> t = Counted \<or>
       rec \<noteq> kernel_record_semaphore_enter \<and> rec \<noteq> kernel_record_semaphore_exit \<and>
         (\<forall>k. resource_kept (\<lambda>s. fst (rec (s, k))))
   | _ \<Rightarrow> True)"

text \<open>The wait of a task and the post of a user cannot fail.\<close>

definition resource_after :: "resource_state \<Rightarrow> action \<Rightarrow> response \<Rightarrow> resource_state option" where
  "resource_after t a r = (case a of
     Service c \<Rightarrow>
       (case r of
          Status s \<Rightarrow>
            (if c = Semaphore_wait resource_semaphore then if s = OS_SEMAPHORE_OK then Some Unit else None
             else if c = Semaphore_post resource_semaphore then if s = OS_SEMAPHORE_OK then Some No_unit else None
             else Some t)
        | _ \<Rightarrow> None)
   | Record rec \<Rightarrow>
       Some (if rec = kernel_record_semaphore_enter then Counted
             else if rec = kernel_record_semaphore_exit then Unit else t)
   | _ \<Rightarrow> Some t)"

definition resource_discipline :: "resource_state discipline" where
  "resource_discipline = \<lparr>permits = resource_permits, after = resource_after, at_loop = (\<lambda>i locals t. t = No_unit)\<rparr>"

abbreviation (input) resource_typed :: "nat \<Rightarrow> app \<Rightarrow> resource_state \<Rightarrow> bool" where
  "resource_typed i a t \<equiv> typed resource_discipline i a t"

lemmas resource_simps = resource_discipline_def resource_permits_def resource_after_def

section \<open>The task bodies are well typed\<close>

text \<open>The recorders are told apart by what they do to the initial counters.\<close>

definition recorded :: "(statistics \<times> ipc \<Rightarrow> statistics \<times> ipc) \<Rightarrow> u32 \<times> u32" where
  "recorded rec = (let s = fst (rec (statistics_initial, undefined))
     in (g_semaphore_active_users s, g_semaphore_violation_count s))"

lemma recorded_values:
  "recorded kernel_record_semaphore_enter = (1, 0)" "recorded kernel_record_semaphore_exit = (0, 1)"
  by (simp_all add: recorded_def kernel_record_semaphore_enter_def kernel_record_semaphore_exit_def
      statistics_initial_def Let_def split: prod.split)

lemma kept_recorded: "(\<And>k. resource_kept (\<lambda>s. fst (rec (s, k)))) \<Longrightarrow> recorded rec = (0, 0)"
  by (simp add: resource_kept_def recorded_def statistics_initial_def Let_def)

lemma recorders_resource [simp]:
  "resource_kept (\<lambda>s. fst (kernel_record_message_queue_error (s, k)))"
  "resource_kept (\<lambda>s. fst (kernel_record_message_queue_send_success (s, k)))"
  "resource_kept (\<lambda>s. fst (kernel_record_message_queue_receive_success m (s, k)))"
  "resource_kept (\<lambda>s. fst (kernel_record_semaphore_post_success (s, k)))"
  by (simp_all add: resource_kept_def kernel_record_message_queue_error_def
      kernel_record_message_queue_send_success_def kernel_record_message_queue_receive_success_def
      kernel_record_semaphore_post_success_def Let_def split: prod.split)

lemma resource_record:
  assumes "\<And>k. resource_kept (\<lambda>s. fst (rec (s, k)))" "\<And>s k. cpu_primask k = 0 \<Longrightarrow> snd (rec (s, k)) = k"
    "resource_typed i a t"
  shows "resource_typed i (do_record rec a) t"
proof -
  have "rec \<noteq> kernel_record_semaphore_enter" "rec \<noteq> kernel_record_semaphore_exit"
    using kept_recorded [of rec, OF assms(1)] recorded_values by auto
  then show ?thesis using assms by (simp add: resource_simps typed.simps(1))
qed

lemma resource_enter: "resource_typed i a Counted \<Longrightarrow> resource_typed i (do_record kernel_record_semaphore_enter a) Unit"
  by (simp add: resource_simps typed.simps(1))

lemma resource_exit: "resource_typed i a Unit \<Longrightarrow> resource_typed i (do_record kernel_record_semaphore_exit a) Counted"
proof -
  have "kernel_record_semaphore_exit \<noteq> (kernel_record_semaphore_enter :: statistics \<times> ipc \<Rightarrow> statistics \<times> ipc)"
    using recorded_values by auto
  then show "resource_typed i a Unit \<Longrightarrow> ?thesis" by (simp add: resource_simps typed.simps(1))
qed

text \<open>Actions that do not concern the resource.\<close>

lemma resource_neutral:
  "resource_typed i a t \<Longrightarrow> resource_typed i (put_all cs a) t"
  "(\<And>ticks. resource_typed i (f ticks) t) \<Longrightarrow> resource_typed i (do_ticks f) t"
  "resource_typed i a t \<Longrightarrow> resource_typed i (do_sleep ms a) t"
  "resource_typed i a t \<Longrightarrow> resource_typed i (do_toggle toggle a) t"
  "(\<And>r. resource_typed i (g r) t) \<Longrightarrow> resource_typed i (Do (Queue_send m) g) t"
  "(\<And>r. resource_typed i (g r) t) \<Longrightarrow> resource_typed i (Do (Queue_receive b) g) t"
  "(\<And>r. resource_typed i (g r) t) \<Longrightarrow> resource_typed i (Do Read_statistics g) t"
  "resource_kept h \<Longrightarrow> resource_typed i a t \<Longrightarrow> resource_typed i (Do (Write_statistics h) (\<lambda>_. a)) t"
  "i \<noteq> 0 \<Longrightarrow> (\<And>s. resource_typed i (c s) t) \<Longrightarrow> resource_typed i (do_service (Mutex_lock console_mutex) c) t"
  "i \<noteq> 0 \<Longrightarrow> (\<And>s. resource_typed i (c s) t) \<Longrightarrow> resource_typed i (do_service (Mutex_unlock console_mutex) c) t"
  "resource_typed i (Continue locals) No_unit" "at_loop resource_discipline i locals No_unit"
  by (induction cs; auto simp: resource_simps typed.simps(1) put_all.simps do_sleep_def do_toggle_def
    split: response.split option.split)+

lemma resource_wait:
  "i \<noteq> 0 \<Longrightarrow> resource_typed i (f OS_SEMAPHORE_OK) Unit \<Longrightarrow>
    resource_typed i (do_service (Semaphore_wait resource_semaphore) f) No_unit"
  by (auto simp: resource_simps typed.simps(1) split: response.split)

lemma resource_post:
  "i \<noteq> 0 \<Longrightarrow> resource_typed i (f OS_SEMAPHORE_OK) No_unit \<Longrightarrow>
    resource_typed i (do_service (Semaphore_post resource_semaphore) f) Unit"
  by (auto simp: resource_simps typed.simps(1) split: response.split)

lemma resource_mutex_counters:
  "resource_kept (\<lambda>s. s\<lparr>g_mutex_error_count := x\<rparr>)" "resource_kept (\<lambda>s. s\<lparr>g_mutex_critical_depth := x\<rparr>)"
  "resource_kept (\<lambda>s. s\<lparr>g_mutex_violation_count := x\<rparr>)" "resource_kept (\<lambda>s. s\<lparr>g_mutex_protected_print_count := x\<rparr>)"
  "resource_kept (g_task_1_sleep_stats_update f)" "resource_kept (g_task_2_sleep_stats_update f)"
  "resource_kept (g_task_3_sleep_stats_update f)"
  by (simp_all add: resource_kept_def)

lemma resource_write_task_event:
  assumes "i \<noteq> 0" "length (stale_digits v) = 11" "resource_typed i a t"
  shows "resource_typed i (kernel_write_task_event v name event a) t"
  unfolding kernel_write_task_event_def print_steps_eq print_uint32_steps_eq [OF assms(2)] Let_def
  by (auto intro!: resource_neutral resource_mutex_counters assms simp del: One_nat_def)

lemma resource_write_queue_message:
  assumes "i \<noteq> 0" "length (stale_digits v) = 11" "resource_typed i a t"
  shows "resource_typed i (kernel_write_queue_message v name event m a) t"
  unfolding kernel_write_queue_message_def print_steps_eq print_uint32_steps_eq [OF assms(2)] Let_def
  by (auto intro!: resource_neutral resource_record assms simp del: One_nat_def)

lemma resource_worker:
  assumes "i \<noteq> 0" "length (stale_digits v) = 11"
  shows "resource_typed i (kernel_run_semaphore_worker v name toggle ms) No_unit"
  unfolding kernel_run_semaphore_worker_def
  by (auto intro!: resource_wait resource_post resource_neutral resource_write_task_event resource_enter
      resource_exit resource_record assms simp: when_enabled_def)

lemma resource_body_typed:
  assumes "length (stale_digits v) = 11"
  shows "resource_typed i (app_body demo v i locals) No_unit"
proof -
  have i: "i = 1 \<Longrightarrow> i \<noteq> 0" "i = 2 \<Longrightarrow> i \<noteq> 0" "i = 3 \<Longrightarrow> i \<noteq> 0" by simp_all
  show ?thesis
    unfolding app_body_def app_task_1_def app_task_2_def app_task_3_def
    by (cases demo)
      (auto intro!: resource_worker resource_neutral resource_write_task_event resource_write_queue_message resource_record
        resource_mutex_counters assms simp: run_sleep_test_def run_mutex_demo_def kernel_run_queue_producer_def
        kernel_run_queue_consumer_def when_enabled_def Let_def)
qed

section \<open>Soundness\<close>

definition resource_users :: "(nat \<Rightarrow> resource_state) \<Rightarrow> nat" where
  "resource_users ts = card {i. ts i \<noteq> No_unit}"

definition resource_counted :: "(nat \<Rightarrow> resource_state) \<Rightarrow> nat" where
  "resource_counted ts = card {i. ts i = Counted}"

definition resource_inv :: "(nat \<Rightarrow> resource_state) \<Rightarrow> queue_event list \<Rightarrow> world \<Rightarrow> bool" where
  "resource_inv ts es w \<longleftrightarrow> finite {i. ts i \<noteq> No_unit} \<and>
     semaphore_units (ipc_semaphores (world_ipc w) resource_semaphore) + resource_users ts = 2 \<and>
     sem_maximum_count (ipc_semaphores (world_ipc w) resource_semaphore) = 2 \<and>
     g_semaphore_active_users (w_statistics w) = of_nat (resource_counted ts) \<and>
     g_semaphore_max_active_users (w_statistics w) \<le> 2 \<and>
     g_semaphore_violation_count (w_statistics w) = 0 \<and> g_semaphore_error_count (w_statistics w) = 0"

lemma users_update:
  assumes "finite {i. ts i \<noteq> No_unit}"
  shows "finite {j. (ts(i := t)) j \<noteq> No_unit}"
    "resource_users (ts(i := t)) + (if ts i = No_unit then 0 else 1) = resource_users ts + (if t = No_unit then 0 else 1)"
    "resource_counted (ts(i := t)) + (if ts i = Counted then 1 else 0) = resource_counted ts + (if t = Counted then 1 else 0)"
proof -
  let ?U = "{j. j \<noteq> i \<and> ts j \<noteq> No_unit}" and ?C = "{j. j \<noteq> i \<and> ts j = Counted}"
  have fin: "finite ?U" "finite ?C" using assms by (auto elim: rev_finite_subset)
  have sets: "{j. (ts(i := t)) j \<noteq> No_unit} = (if t = No_unit then ?U else insert i ?U)"
    "{j. (ts(i := t)) j = Counted} = (if t = Counted then insert i ?C else ?C)"
    "{j. ts j \<noteq> No_unit} = (if ts i = No_unit then ?U else insert i ?U)"
    "{j. ts j = Counted} = (if ts i = Counted then insert i ?C else ?C)"
    by auto
  show "finite {j. (ts(i := t)) j \<noteq> No_unit}" unfolding sets(1) using fin by simp
  show "resource_users (ts(i := t)) + (if ts i = No_unit then 0 else 1) = resource_users ts + (if t = No_unit then 0 else 1)"
    unfolding resource_users_def sets(1,3) using fin by simp
  show "resource_counted (ts(i := t)) + (if ts i = Counted then 1 else 0) = resource_counted ts + (if t = Counted then 1 else 0)"
    unfolding resource_counted_def sets(2,4) using fin by simp
qed

lemma counted_le_users:
  assumes "finite {i. ts i \<noteq> No_unit}"
  shows "resource_counted ts \<le> resource_users ts" "ts i = Unit \<Longrightarrow> resource_counted ts < resource_users ts"
proof -
  have sub: "{i. ts i = Counted} \<subseteq> {i. ts i \<noteq> No_unit}" by auto
  show "resource_counted ts \<le> resource_users ts"
    unfolding resource_counted_def resource_users_def by (rule card_mono [OF assms sub])
  assume "ts i = Unit"
  then have "i \<in> {i. ts i \<noteq> No_unit}" "i \<notin> {i. ts i = Counted}" by simp_all
  then have "{i. ts i = Counted} \<subset> {i. ts i \<noteq> No_unit}" using sub by blast
  then show "resource_counted ts < resource_users ts"
    unfolding resource_counted_def resource_users_def by (rule psubset_card_mono [OF assms])
qed

lemma resource_inv_same:
  assumes "resource_inv ts es w" "same_objects (world_ipc w) (world_ipc w')"
    "g_semaphore_active_users (w_statistics w') = g_semaphore_active_users (w_statistics w)"
    "g_semaphore_max_active_users (w_statistics w') = g_semaphore_max_active_users (w_statistics w)"
    "g_semaphore_violation_count (w_statistics w') = g_semaphore_violation_count (w_statistics w)"
    "g_semaphore_error_count (w_statistics w') = g_semaphore_error_count (w_statistics w)"
  shows "resource_inv ts es' w'"
  using assms unfolding resource_inv_def same_objects_def by simp

text \<open>The two recorders that change the number of users.\<close>

lemma enter_keeps:
  assumes inv: "resource_inv ts es w" and unit: "ts i = Unit" and same: "same_objects (world_ipc w) (world_ipc w')"
    and stats: "w_statistics w' = fst (kernel_record_semaphore_enter (w_statistics w, k :: ipc))"
  shows "resource_inv (ts(i := Counted)) es' w'"
proof -
  have fin: "finite {i. ts i \<noteq> No_unit}" and users: "resource_users ts \<le> 2"
    and active: "g_semaphore_active_users (w_statistics w) = of_nat (resource_counted ts)"
    using inv by (simp_all add: resource_inv_def)
  note u = users_update [OF fin, of i Counted]
  have "resource_counted ts = 0 \<or> resource_counted ts = 1" using counted_le_users(2) [OF fin unit] users by auto
  then have "(of_nat (resource_counted ts) + 1 :: u32) \<le> 2"
    "of_nat (resource_counted (ts(i := Counted))) = (of_nat (resource_counted ts) + 1 :: u32)"
    using u(3) unit by auto
  then show ?thesis
    using inv same u unit stats active
    by (auto simp: resource_inv_def same_objects_def kernel_record_semaphore_enter_def Let_def split: prod.splits)
qed

lemma exit_keeps:
  assumes inv: "resource_inv ts es w" and counted: "ts i = Counted" and same: "same_objects (world_ipc w) (world_ipc w')"
    and stats: "w_statistics w' = fst (kernel_record_semaphore_exit (w_statistics w, k :: ipc))"
  shows "resource_inv (ts(i := Unit)) es' w'"
proof -
  have fin: "finite {i. ts i \<noteq> No_unit}" and users: "resource_users ts \<le> 2"
    and active: "g_semaphore_active_users (w_statistics w) = of_nat (resource_counted ts)"
    using inv by (simp_all add: resource_inv_def)
  note u = users_update [OF fin, of i Unit]
  have "resource_counted ts = 1 \<or> resource_counted ts = 2"
    using counted_le_users(1) [OF fin] users u(3) counted by auto
  then have "(of_nat (resource_counted ts) :: u32) \<noteq> 0"
    "of_nat (resource_counted (ts(i := Unit))) = (of_nat (resource_counted ts) - 1 :: u32)"
    using u(3) counted by auto
  then show ?thesis
    using inv same u counted stats active
    by (auto simp: resource_inv_def same_objects_def kernel_record_semaphore_exit_def Let_def split: prod.splits)
qed

text \<open>The calls of the services.\<close>

lemma resource_call:
  assumes inv: "resource_inv ts es w" and wf: "ipc_wf (world_ipc w)" and permits: "resource_permits i (ts i) (Service c)"
    and step: "ipc_step (world_ipc w) [call_event c i status] (world_ipc w')"
    and frame: "w_statistics w' = w_statistics w"
  shows "\<exists>t'. resource_after (ts i) (Service c) (Status status) = Some t' \<and> resource_inv (ts(i := t')) es' w'"
proof -
  have i: "i \<noteq> 0" using permits by (simp add: resource_permits_def)
  have fin: "finite {i. ts i \<noteq> No_unit}" using inv by (simp add: resource_inv_def)
  note u = users_update [OF fin, of i] and maximum = ipc_step_units(2) [OF step wf, of resource_semaphore]
  note units = ipc_step_units(1) [OF step wf, of resource_semaphore]
  consider (wait) "c = Semaphore_wait resource_semaphore" | (post) "c = Semaphore_post resource_semaphore"
    | (other) "c \<noteq> Semaphore_wait resource_semaphore" "c \<noteq> Semaphore_post resource_semaphore" by blast
  then show ?thesis
  proof cases
    case wait
    then have t: "ts i = No_unit" using permits by (simp add: resource_permits_def)
    have "status = OS_SEMAPHORE_OK" using wait_call [of "world_ipc w" i] step wf i wait by auto
    then show ?thesis
      using inv wait t u [of Unit] units maximum frame by (simp add: resource_after_def resource_inv_def)
  next
    case post
    then have t: "ts i = Unit" using permits by (simp add: resource_permits_def)
    have "resource_users ts > 0" using u(2) [of No_unit] t by simp
    then have "semaphore_units (ipc_semaphores (world_ipc w) resource_semaphore) <
        unat (sem_maximum_count (ipc_semaphores (world_ipc w) resource_semaphore))"
      using inv by (simp add: resource_inv_def)
    then have "status = OS_SEMAPHORE_OK" using post_call [of "world_ipc w" i] step wf i post by auto
    then show ?thesis
      using inv post t u [of No_unit] units maximum frame by (simp add: resource_after_def resource_inv_def)
  next
    case other
    have "semaphore_units (ipc_semaphores (world_ipc w') resource_semaphore) =
        semaphore_units (ipc_semaphores (world_ipc w) resource_semaphore)"
      by (rule other_semaphore [OF step wf other])
    then have "resource_inv ts es' w'" using inv maximum frame by (simp add: resource_inv_def)
    then show ?thesis using other by (simp add: resource_after_def)
  qed
qed

lemma performs_statistics:
  assumes "performs hw w i a r e w'"
  shows "(\<forall>g. a \<noteq> Write_statistics g) \<Longrightarrow> (\<forall>rec. a \<noteq> Record rec) \<Longrightarrow> w_statistics w' = w_statistics w"
    "a = Write_statistics h \<Longrightarrow> w_statistics w' = h (w_statistics w)"
    "a = Record rec \<Longrightarrow> w_statistics w' = fst (rec (w_statistics w, world_ipc w))"
    "a = Service c \<Longrightarrow> \<exists>status. r = Status status \<and> ipc_step (world_ipc w) [call_event c i status] (world_ipc w')"
  using assms by (cases rule: performs.cases; auto)+

lemma resource_action:
  assumes inv: "resource_inv ts es w" and wf: "app_wf w ps" and wb: "well_behaved a"
    and permits: "resource_permits i (ts i) a" and step: "performs hw w i a r e w'"
  shows "\<exists>t'. resource_after (ts i) a r = Some t' \<and> resource_inv (ts(i := t')) es' w'"
proof -
  note stats = performs_statistics [OF step] and same = performs_same [OF step wf wb]
  show ?thesis
  proof (cases a)
    case (Service c)
    then obtain status where "r = Status status" "ipc_step (world_ipc w) [call_event c i status] (world_ipc w')"
      using stats(4) by blast
    then show ?thesis
      using resource_call [OF inv app_wfD(1) [OF wf] permits [unfolded Service]] stats(1) Service by simp
  next
    case (Write_statistics g)
    then have "resource_inv ts es' w'"
      using resource_inv_same [OF inv same] stats(2) permits by (simp add: resource_permits_def resource_kept_def)
    then show ?thesis using Write_statistics by (simp add: resource_after_def)
  next
    case (Record rec)
    then have s: "w_statistics w' = fst (rec (w_statistics w, world_ipc w))" and o: "same_objects (world_ipc w) (world_ipc w')"
      using stats(3) same by simp_all
    consider (enter) "rec = kernel_record_semaphore_enter" "ts i = Unit" | (exit) "rec = kernel_record_semaphore_exit" "ts i = Counted"
      | (other) "rec \<noteq> kernel_record_semaphore_enter" "rec \<noteq> kernel_record_semaphore_exit"
          "\<forall>k. resource_kept (\<lambda>s. fst (rec (s, k)))"
      using permits Record by (auto simp: resource_permits_def)
    then show ?thesis
    proof cases
      case enter
      then show ?thesis using enter_keeps [OF inv _ o s [unfolded enter(1)]] Record by (simp add: resource_after_def)
    next
      case exit
      have "kernel_record_semaphore_exit \<noteq> (kernel_record_semaphore_enter :: statistics \<times> ipc \<Rightarrow> statistics \<times> ipc)"
        using recorded_values by auto
      then show ?thesis
        using exit exit_keeps [OF inv _ o s [unfolded exit(1)]] Record by (simp add: resource_after_def)
    next
      case other
      then have "resource_inv ts es' w'" using resource_inv_same [OF inv o] s by (simp add: resource_kept_def)
      then show ?thesis using other Record by (simp add: resource_after_def)
    qed
  qed (use resource_inv_same [OF inv same] stats(1) in \<open>simp_all add: resource_after_def\<close>)
qed

interpretation resource: sound_discipline resource_discipline hw "app_body demo (with_buffer v)" resource_inv
  for hw :: "board \<Rightarrow> board" and demo :: demo and v :: validation
proof
  fix i locals t
  assume "at_loop resource_discipline i locals t"
  then have t: "t = No_unit" by (simp add: resource_discipline_def)
  have "length (stale_digits (with_buffer v)) = 11" by (simp add: with_buffer_def)
  then show "typed resource_discipline i (app_body demo (with_buffer v) i locals) t"
    unfolding t by (rule resource_body_typed)
next
  fix ts es w ps i a f r e w'
  assume "resource_inv ts es w" "app_wf w ps" "well_behaved a" "permits resource_discipline i (ts i) a"
    "performs hw w i a r e w'"
  then show "\<exists>t'. after resource_discipline (ts i) a r = Some t' \<and> resource_inv (ts(i := t')) (es @ e) w'"
    using resource_action [of ts es w ps a i hw r e w' "es @ e"] by (simp add: resource_discipline_def)
next
  fix ts es w ps e w'
  assume "resource_inv ts es w" "app_wf w ps" "background ps w e w'"
  then show "resource_inv ts (es @ e) w'"
    using resource_inv_same [of ts es w w' "es @ e"]
      background_same(1,3) [where ps = ps and w = w and e = e and w' = w'] by simp
qed

end
