(* ===== verification/App_Messages.thy ===== *)
theory App_Messages
  imports App_Resource
begin

text \<open>
  The message discipline of the queue demonstration: producer \<open>i\<close> sends messages with its number
  and consecutive sequence numbers, the consumer checks every message it has received. Every
  task body is well typed, and the discipline is sound: since the queue is FIFO, the consumer
  never sees a sequence error, under any interleaving.
\<close>

section \<open>Messages and bytes\<close>

lemma word_from_bytes:
  "word_from 0 (word_bytes w @ bs) = w"
  "word_from 4 (word_bytes v @ word_bytes w @ bs) = w"
  "word_from 8 (word_bytes u @ word_bytes v @ word_bytes w @ bs) = w"
proof -
  have "ucast (ucast w :: u8) OR push_bit 8 (ucast (ucast (drop_bit 8 w) :: u8)) OR
      push_bit 16 (ucast (ucast (drop_bit 16 w) :: u8)) OR push_bit 24 (ucast (ucast (drop_bit 24 w) :: u8)) = w" for w :: u32
  proof (rule bit_word_eqI)
    fix n :: nat
    assume "n < LENGTH(32)"
    then have "n < 8 \<or> 8 \<le> n \<and> n < 16 \<or> 16 \<le> n \<and> n < 24 \<or> (\<exists>k < 8. n = 24 + k)"
      using le_Suc_ex [of 24 n] by (cases "n < 24") auto
    then consider "n < 8" | "8 \<le> n" "n < 16" | "16 \<le> n" "n < 24" | k where "n = 24 + k" "k < 8" by blast
    then show "bit ((ucast (ucast w :: u8) :: u32) OR push_bit 8 (ucast (ucast (drop_bit 8 w) :: u8)) OR
        push_bit 16 (ucast (ucast (drop_bit 16 w) :: u8)) OR push_bit 24 (ucast (ucast (drop_bit 24 w) :: u8))) n = bit w n"
      by cases (auto simp: bit_simps)
  qed
  then show "word_from 0 (word_bytes w @ bs) = w" "word_from 4 (word_bytes v @ word_bytes w @ bs) = w"
    "word_from 8 (word_bytes u @ word_bytes v @ word_bytes w @ bs) = w"
    by (simp_all add: word_from_def word_bytes_def)
qed

lemma message_round_trip: "message_from (message_bytes m) = m"
proof -
  have "message_bytes m = word_bytes (producer_id m) @ word_bytes (sequence m) @ word_bytes (production_tick m) @ []"
    by (simp add: message_bytes_def)
  then show ?thesis
    using word_from_bytes(1) [of "producer_id m" "word_bytes (sequence m) @ word_bytes (production_tick m) @ []"]
      word_from_bytes(2) [of "producer_id m" "sequence m" "word_bytes (production_tick m) @ []"]
      word_from_bytes(3) [of "producer_id m" "sequence m" "production_tick m" "[]"]
    by (simp add: message_from_def)
qed

section \<open>The discipline\<close>

text \<open>A producer that has sent \<open>n\<close> messages, the consumer, the consumer with a message to check.\<close>

datatype message_state = Silent | Producing nat | Consuming | Checking "u8 list"

definition numbered_message :: "nat \<Rightarrow> nat \<Rightarrow> u32 \<Rightarrow> u8 list" where
  "numbered_message i n ticks =
     message_bytes \<lparr>producer_id = of_nat i, sequence = of_nat n, production_tick = ticks\<rparr>"

definition messages_kept :: "(statistics \<Rightarrow> statistics) \<Rightarrow> bool" where
  "messages_kept g \<longleftrightarrow>
     (\<forall>s. g_message_queue_producer_1_expected_sequence (g s) = g_message_queue_producer_1_expected_sequence s \<and>
       g_message_queue_producer_2_expected_sequence (g s) = g_message_queue_producer_2_expected_sequence s \<and>
       g_message_queue_receive_success_count (g s) = g_message_queue_receive_success_count s \<and>
       g_message_queue_sequence_error_count (g s) = g_message_queue_sequence_error_count s)"

definition message_permits :: "nat \<Rightarrow> message_state \<Rightarrow> action \<Rightarrow> bool" where
  "message_permits i t a = (case t of
     Checking b \<Rightarrow> i = 3 \<and> a = Record (kernel_record_message_queue_receive_success (message_from b))
   | _ \<Rightarrow>
       (case a of
          Queue_send m \<Rightarrow> i \<in> {1, 2} \<and> (\<exists>n ticks. t = Producing n \<and> m = numbered_message i n ticks)
        | Queue_receive b \<Rightarrow> i = 3 \<and> t = Consuming
        | Service c \<Rightarrow> i \<noteq> 0
        | Write_statistics g \<Rightarrow> messages_kept g
        | Record rec \<Rightarrow> (\<forall>k. messages_kept (\<lambda>s. fst (rec (s, k))))
        | _ \<Rightarrow> True))"

text \<open>The calls of the queue service cannot fail.\<close>

definition message_after :: "bool \<Rightarrow> message_state \<Rightarrow> action \<Rightarrow> response \<Rightarrow> message_state option" where
  "message_after checked t a r = (case t of
     Checking b \<Rightarrow> Some Consuming
   | _ \<Rightarrow>
       (case (a, r) of
          (Queue_send m, Delivered s b) \<Rightarrow>
            if s = OS_MESSAGE_QUEUE_OK then (case t of Producing n \<Rightarrow> Some (Producing (Suc n)) | _ \<Rightarrow> None) else None
        | (Queue_send m, _) \<Rightarrow> None
        | (Queue_receive m, Delivered s b) \<Rightarrow>
            if s = OS_MESSAGE_QUEUE_OK then Some (if checked then Checking b else Consuming) else None
        | (Queue_receive m, _) \<Rightarrow> None
        | _ \<Rightarrow> Some t))"

definition message_at_loop :: "nat \<Rightarrow> task_locals \<Rightarrow> message_state \<Rightarrow> bool" where
  "message_at_loop i locals t =
     (if i \<in> {1, 2} then \<exists>n. t = Producing n \<and> sequence_of locals = of_nat n
      else if i = 3 then t = Consuming else t = Silent)"

definition message_discipline :: "bool \<Rightarrow> message_state discipline" where
  "message_discipline checked =
     \<lparr>permits = message_permits, after = message_after checked, at_loop = message_at_loop\<rparr>"

abbreviation (input) message_typed :: "bool \<Rightarrow> nat \<Rightarrow> app \<Rightarrow> message_state \<Rightarrow> bool" where
  "message_typed checked i a t \<equiv> typed (message_discipline checked) i a t"

lemmas message_simps = message_discipline_def message_permits_def message_after_def

section \<open>The task bodies are well typed\<close>

fun is_checking :: "message_state \<Rightarrow> bool" where
  "is_checking (Checking b) = True"
| "is_checking _ = False"

text \<open>Actions that do not concern the messages.\<close>

lemma message_neutral:
  assumes "\<not> is_checking t"
  shows "message_typed checked i a t \<Longrightarrow> message_typed checked i (put_all cs a) t"
    "(\<And>ticks. message_typed checked i (f ticks) t) \<Longrightarrow> message_typed checked i (do_ticks f) t"
    "message_typed checked i a t \<Longrightarrow> message_typed checked i (do_sleep ms a) t"
    "message_typed checked i a t \<Longrightarrow> message_typed checked i (do_toggle toggle a) t"
    "i \<noteq> 0 \<Longrightarrow> (\<And>s. message_typed checked i (c s) t) \<Longrightarrow>
      message_typed checked i (do_service (Mutex_lock console_mutex) c) t"
    "i \<noteq> 0 \<Longrightarrow> (\<And>s. message_typed checked i (c s) t) \<Longrightarrow>
      message_typed checked i (do_service (Mutex_unlock console_mutex) c) t"
  using assms
  by (induction cs) (cases t; auto simp: message_simps typed.simps(1) put_all.simps do_sleep_def do_toggle_def
    split: response.split option.split)+

lemma message_record:
  assumes "\<not> is_checking t" "\<And>k. messages_kept (\<lambda>s. fst (rec (s, k)))" "\<And>s k. cpu_primask k = 0 \<Longrightarrow> snd (rec (s, k)) = k"
    "message_typed checked i a t"
  shows "message_typed checked i (do_record rec a) t"
  using assms by (cases t) (simp_all add: message_simps typed.simps(1))

lemma message_check:
  assumes "message_typed checked 3 a Consuming"
  shows "message_typed checked 3 (do_record (kernel_record_message_queue_receive_success (message_from b)) a) (Checking b)"
  using assms by (simp add: message_simps typed.simps(1))

lemma recorders_messages [simp]:
  "messages_kept (\<lambda>s. fst (kernel_record_message_queue_error (s, k)))"
  "messages_kept (\<lambda>s. fst (kernel_record_message_queue_send_success (s, k)))"
  by (simp_all add: messages_kept_def kernel_record_message_queue_error_def
      kernel_record_message_queue_send_success_def Let_def split: prod.split)

lemma message_write:
  assumes "i \<noteq> 0" "\<not> is_checking t" "length (stale_digits v) = 11" "message_typed checked i a t"
  shows "message_typed checked i (kernel_write_queue_message v name event m a) t"
  unfolding kernel_write_queue_message_def print_steps_eq print_uint32_steps_eq [OF assms(3)] Let_def
  by (auto intro!: message_neutral [OF assms(2)] message_record [OF assms(2)] assms simp del: One_nat_def)

lemma message_loop:
  "i \<in> {1, 2} \<Longrightarrow> n' = of_nat n \<Longrightarrow> message_typed checked i (Continue (Sequence n')) (Producing n)"
  "message_typed checked 3 (Continue locals) Consuming"
  by (auto simp: message_discipline_def message_at_loop_def)

lemma message_producer:
  assumes i: "i \<in> {1, 2}" and buffer: "length (stale_digits v) = 11" and n: "seq = of_nat n"
  shows "message_typed checked i (kernel_run_queue_producer v name (of_nat i) toggle ms seq) (Producing n)"
proof -
  have task: "i \<noteq> 0" "\<not> is_checking (Producing (Suc n))" using i by auto
  have "message_typed checked i (Continue (Sequence (seq + 1))) (Producing (Suc n))"
    using n by (intro message_loop(1) [OF i]) simp
  then have rest: "message_typed checked i (do_toggle toggle (do_sleep ms (Continue (Sequence (seq + 1))))) (Producing (Suc n))"
    by (intro message_neutral(3,4) [OF task(2)])
  have "message_typed checked i (when_enabled (message_queue_debug v) (do_record kernel_record_message_queue_send_success)
      (kernel_write_queue_message v name event m (do_toggle toggle (do_sleep ms (Continue (Sequence (seq + 1))))))) (Producing (Suc n))"
    for event m
    using message_record [OF task(2) _ _ message_write [OF task buffer rest]] message_write [OF task buffer rest]
    by (simp add: when_enabled_def)
  then show ?thesis
    unfolding kernel_run_queue_producer_def Let_def n
    by (intro message_neutral(2)) (use i in \<open>auto simp: message_simps typed.simps(1) numbered_message_def split: response.split\<close>)
qed

lemma message_consumer:
  assumes "length (stale_digits v) = 11"
  shows "message_typed (message_queue_debug v) 3 (kernel_run_queue_consumer demo v name toggle b) Consuming"
proof -
  note rest = message_write [OF _ _ assms, of 3] message_neutral message_loop(2)
  have "message_typed (message_queue_debug v) 3 (kernel_write_queue_message v name event m (do_toggle toggle
      (when_enabled (KERNEL_CONSUMER_PROCESSING_MS demo > 0) (do_sleep (KERNEL_CONSUMER_PROCESSING_MS demo)) (Continue locals)))) Consuming"
    for event m locals
    by (auto simp: when_enabled_def intro!: rest)
  then have "message_typed (message_queue_debug v) 3 (when_enabled (message_queue_debug v)
      (do_record (kernel_record_message_queue_receive_success (message_from bytes)))
      (kernel_write_queue_message v name event (message_from bytes) (do_toggle toggle
        (when_enabled (KERNEL_CONSUMER_PROCESSING_MS demo > 0) (do_sleep (KERNEL_CONSUMER_PROCESSING_MS demo)) (Continue (Buffer bytes))))))
      (if message_queue_debug v then Checking bytes else Consuming)" for event bytes
    using message_check [of "message_queue_debug v"] by (cases "message_queue_debug v") (simp_all add: when_enabled_def)
  then show ?thesis
    unfolding kernel_run_queue_consumer_def Let_def
    by (auto simp: message_simps typed.simps(1) split: response.split)
qed

lemma message_body_typed:
  assumes "length (stale_digits v) = 11" "message_at_loop i locals t"
  shows "message_typed (message_queue_debug v) i (app_body (Message_queue_demo stress) v i locals) t"
proof -
  consider (producer) "i \<in> {1, 2}" | (consumer) "i = 3" | (other) "i \<notin> {1, 2, 3}" by blast
  then show ?thesis
  proof cases
    case producer
    then obtain n where n: "t = Producing n" "sequence_of locals = of_nat n"
      using assms(2) by (auto simp: message_at_loop_def)
    then show ?thesis
      using message_producer [OF producer assms(1) n(2)] producer
      by (auto simp: app_body_def app_task_1_def app_task_2_def)
  next
    case consumer
    then show ?thesis
      using message_consumer [OF assms(1)] assms(2) by (simp add: message_at_loop_def app_body_def app_task_3_def)
  next
    case other
    then show ?thesis using assms(2) by (simp add: app_body_def message_discipline_def)
  qed
qed

end
