(* ===== verification/App_Sequence.thy ===== *)
theory App_Sequence
  imports App_Messages
begin

text \<open>
  Soundness of the message discipline: the history of the queue, the position of each producer
  and the counters of the consumer agree at every moment.
\<close>

section \<open>The history of the demonstration\<close>

lemma enqueued_append: "enqueued (es @ es') = enqueued es @ enqueued es'"
  by (induction es rule: enqueued.induct) simp_all

lemma dequeued_append: "dequeued (es @ es') = dequeued es @ dequeued es'"
  by (induction es rule: dequeued.induct) simp_all

definition sent_by :: "nat \<Rightarrow> u8 list list \<Rightarrow> u8 list list" where
  "sent_by i ms = filter (\<lambda>b. producer_id (message_from b) = of_nat i) ms"

definition in_sequence :: "u8 list list \<Rightarrow> bool" where
  "in_sequence ms \<longleftrightarrow> (\<forall>k < length ms. sequence (message_from (ms ! k)) = of_nat k)"

text \<open>The place of a task in the abstract queue; a producer of \<open>n\<close> messages has put in \<open>m\<close>.\<close>

fun state_ok :: "nat \<Rightarrow> message_state \<Rightarrow> progress \<Rightarrow> nat \<Rightarrow> bool" where
  "state_ok i (Producing n) p m = (i \<in> {1, 2} \<and>
     (p = Idle \<and> m = n \<or> (\<exists>ticks. p = Sending (numbered_message i n ticks)) \<and> m = n \<or>
      (\<exists>ticks. p = Sent (numbered_message i n ticks)) \<and> m = Suc n))"
| "state_ok i Consuming p m = (i = 3 \<and> (p = Idle \<or> p = Receiving \<or> (\<exists>b. p = Got b)))"
| "state_ok i (Checking b) p m = (i = 3 \<and> p = Idle)"
| "state_ok i Silent p m = (p = Idle)"

fun pending :: "message_state \<Rightarrow> progress \<Rightarrow> u8 list list" where
  "pending (Checking b) p = [b]"
| "pending t (Got b) = [b]"
| "pending t p = []"

text \<open>What the messages that have entered the queue look like.\<close>

definition messages_ok :: "u8 list list \<Rightarrow> bool" where
  "messages_ok ms \<longleftrightarrow> (\<forall>b \<in> set ms. producer_id (message_from b) \<in> {1, 2}) \<and>
     in_sequence (sent_by 1 ms) \<and> in_sequence (sent_by 2 ms)"

text \<open>The counters after the messages \<open>ms\<close> have been checked.\<close>

definition checked_ok :: "u8 list list \<Rightarrow> statistics \<Rightarrow> bool" where
  "checked_ok ms s \<longleftrightarrow>
     g_message_queue_producer_1_expected_sequence s = of_nat (length (sent_by 1 ms)) \<and>
     g_message_queue_producer_2_expected_sequence s = of_nat (length (sent_by 2 ms)) \<and>
     g_message_queue_receive_success_count s = of_nat (length ms)"

definition history_ok ::
  "bool \<Rightarrow> nat \<Rightarrow> (nat \<Rightarrow> message_state) \<Rightarrow> queue_event list \<Rightarrow> statistics \<Rightarrow> bool"
where
  "history_ok checked capacity ts es s \<longleftrightarrow> (\<exists>ms pr.
     spec_run capacity es ([], \<lambda>_. Idle) = Some (ms, pr) \<and>
     (\<forall>i. state_ok i (ts i) (pr i) (length (sent_by i (enqueued es)))) \<and> messages_ok (enqueued es) \<and>
     (checked \<longrightarrow> (\<exists>seen. dequeued es = seen @ pending (ts 3) (pr 3) \<and> checked_ok seen s)) \<and>
     g_message_queue_sequence_error_count s = 0)"

lemma sent_by_snoc:
  "sent_by i (ms @ [b]) = (if producer_id (message_from b) = of_nat i then sent_by i ms @ [b] else sent_by i ms)"
  by (simp add: sent_by_def)

lemma in_sequence_snoc:
  "in_sequence (ms @ [b]) \<longleftrightarrow> in_sequence ms \<and> sequence (message_from b) = of_nat (length ms)"
  by (auto simp: in_sequence_def nth_append less_Suc_eq)

lemma in_sequence_prefix:
  assumes "in_sequence (ms @ ms')"
  shows "in_sequence ms"
  unfolding in_sequence_def
proof (intro allI impI)
  fix k
  assume "k < length ms"
  then show "sequence (message_from (ms ! k)) = of_nat k"
    using assms [unfolded in_sequence_def, rule_format, of k] by (simp add: nth_append)
qed

lemma numbered_fields:
  "producer_id (message_from (numbered_message i n ticks)) = of_nat i"
  "sequence (message_from (numbered_message i n ticks)) = of_nat n"
  by (simp_all add: numbered_message_def message_round_trip)

lemma small_ids: "(of_nat i :: u32) = of_nat j \<longleftrightarrow> i = j" if "i \<in> {1, 2}" "j \<in> {1, 2}"
  using that by auto

lemma messages_ok_enqueue:
  assumes "messages_ok ms" "i \<in> {1, 2}" "n = length (sent_by i ms)"
  shows "messages_ok (ms @ [numbered_message i n ticks])"
  using assms by (auto simp: messages_ok_def sent_by_snoc in_sequence_snoc numbered_fields)

text \<open>The next message of a history is the one its producer's counter expects.\<close>

lemma messages_ok_next:
  assumes "messages_ok (ms @ b # ms')"
  shows "producer_id (message_from b) \<in> {1, 2}"
    "i \<in> {1, 2} \<Longrightarrow> producer_id (message_from b) = of_nat i \<Longrightarrow>
      sequence (message_from b) = of_nat (length (sent_by i ms))"
proof -
  show "producer_id (message_from b) \<in> {1, 2}" using assms by (simp add: messages_ok_def)
  assume i: "i \<in> {1, 2}" "producer_id (message_from b) = of_nat i"
  have "in_sequence (sent_by i (ms @ b # ms'))" using assms i(1) by (auto simp: messages_ok_def)
  then have "in_sequence ((sent_by i ms @ [b]) @ sent_by i ms')" using i(2) by (simp add: sent_by_def)
  from in_sequence_prefix [OF this] show "sequence (message_from b) = of_nat (length (sent_by i ms))"
    by (simp add: in_sequence_snoc)
qed

lemma checked_ok_next:
  assumes "messages_ok (ms @ b # ms')" "checked_ok ms s" "g_message_queue_sequence_error_count s = 0"
    and "s' = fst (kernel_record_message_queue_receive_success (message_from b) (s, k))"
  shows "checked_ok (ms @ [b]) s'" "g_message_queue_sequence_error_count s' = 0"
  using messages_ok_next(1) [OF assms(1)] messages_ok_next(2) [OF assms(1), of 1] messages_ok_next(2) [OF assms(1), of 2]
    assms(2-4)
  by (auto simp: checked_ok_def sent_by_snoc kernel_record_message_queue_receive_success_def Let_def split: prod.splits)

section \<open>Steps of the history\<close>

text \<open>Task \<open>i\<close> moves to typestate \<open>t\<close> and progress \<open>p\<close> with the event \<open>e\<close>.\<close>

lemma history_move:
  assumes spec: "spec_run capacity es ([], \<lambda>_. Idle) = Some (ms, pr)"
      "spec_step capacity e (ms, pr) = Some (ms', pr(i := p))"
    and states: "\<And>j. state_ok j (ts j) (pr j) (length (sent_by j (enqueued es)))" "messages_ok (enqueued es)"
    and own: "state_ok i t p (length (sent_by i (enqueued (es @ [e]))))"
    and others: "\<And>j. j \<noteq> i \<Longrightarrow> j \<in> {1, 2} \<Longrightarrow> sent_by j (enqueued (es @ [e])) = sent_by j (enqueued es)"
    and messages: "messages_ok (enqueued (es @ [e]))"
    and seen: "checked \<Longrightarrow> \<exists>seen. dequeued (es @ [e]) = seen @ pending ((ts(i := t)) 3) ((pr(i := p)) 3) \<and> checked_ok seen s"
    and zero: "g_message_queue_sequence_error_count s = 0"
  shows "history_ok checked capacity (ts(i := t)) (es @ [e]) s"
proof -
  have "state_ok j ((ts(i := t)) j) ((pr(i := p)) j) (length (sent_by j (enqueued (es @ [e]))))" for j
    using own others [of j] states(1) [of j] by (cases "j = i"; cases "ts j") auto
  moreover have "spec_run capacity (es @ [e]) ([], \<lambda>_. Idle) = Some (ms', pr(i := p))"
    using spec by (simp add: spec_run_append)
  ultimately show ?thesis using messages seen zero unfolding history_ok_def by blast
qed

lemma history_step:
  assumes ok: "history_ok checked capacity ts es s" and step: "spec_run capacity (es @ [e]) ([], \<lambda>_. Idle) \<noteq> None"
    and sends: "\<And>i m. e = Send_called i m \<Longrightarrow> i \<in> {1, 2} \<and> (\<exists>n ticks. ts i = Producing n \<and> m = numbered_message i n ticks)"
    and receives: "\<And>i. e = Receive_called i \<Longrightarrow> i = 3 \<and> ts i = Consuming"
    and not_return: "\<And>i status b. e \<noteq> Returned i status b"
  shows "history_ok checked capacity ts (es @ [e]) s"
proof -
  obtain ms pr where spec: "spec_run capacity es ([], \<lambda>_. Idle) = Some (ms, pr)"
    and states: "\<And>j. state_ok j (ts j) (pr j) (length (sent_by j (enqueued es)))" "messages_ok (enqueued es)"
    and seen: "checked \<Longrightarrow> \<exists>seen. dequeued es = seen @ pending (ts 3) (pr 3) \<and> checked_ok seen s"
    and zero: "g_message_queue_sequence_error_count s = 0"
    using ok unfolding history_ok_def by blast
  note move = history_move [OF spec _ states _ _ _ _ zero]
  obtain ms' pr' where one: "spec_step capacity e (ms, pr) = Some (ms', pr')"
    using step spec by (auto simp: spec_run_append split: option.splits)
  have "history_ok checked capacity (ts(i := ts i)) (es @ [e]) s" if ev: "e = Send_called i m" for i m
  proof -
    obtain n ticks where t: "i \<in> {1, 2}" "ts i = Producing n" "m = numbered_message i n ticks"
      using sends [OF ev] by blast
    have p: "pr i = Idle" "ms' = ms" "pr' = pr(i := Sending m)" using one ev by (simp_all split: if_splits)
    have "i \<noteq> 3" using t(1) by auto
    then show ?thesis
      using one ev p t states(1) [of i] states(2) seen
      by (intro move [of _ ms' i "Sending m"]) (auto simp: enqueued_append dequeued_append)
  qed
  moreover have "history_ok checked capacity (ts(i := ts i)) (es @ [e]) s" if ev: "e = Receive_called i" for i
  proof -
    have t: "i = 3" "ts 3 = Consuming" using receives [OF ev] by auto
    have p: "pr i = Idle" "ms' = ms" "pr' = pr(i := Receiving)" using one ev by (simp_all split: if_splits)
    show ?thesis
      using one ev p t states seen
      by (intro move [of _ ms' i Receiving]) (auto simp: enqueued_append dequeued_append)
  qed
  moreover have "history_ok checked capacity (ts(i := ts i)) (es @ [e]) s" if ev: "e = Enqueued i m" for i m
  proof -
    have p: "pr i = Sending m" "ms' = ms @ [m]" "pr' = pr(i := Sent m)" using one ev by (simp_all split: if_splits)
    obtain n ticks where t: "i \<in> {1, 2}" "ts i = Producing n" "m = numbered_message i n ticks"
        "length (sent_by i (enqueued es)) = n"
      using states(1) [of i] p(1) by (cases "ts i") auto
    have messages: "messages_ok (enqueued (es @ [e]))"
      using messages_ok_enqueue [OF states(2) t(1)] t(3,4) ev by (simp add: enqueued_append)
    have "i \<noteq> 3" using t(1) by auto
    then show ?thesis
      using one ev p t messages seen small_ids
      by (intro move [of _ ms' i "Sent m"]) (auto simp: enqueued_append dequeued_append sent_by_snoc numbered_fields)
  qed
  moreover have "history_ok checked capacity (ts(i := ts i)) (es @ [e]) s" if ev: "e = Dequeued i m" for i m
  proof -
    have p: "pr i = Receiving" "pr' = pr(i := Got m)" using one ev by (simp_all split: if_splits)
    have t: "i = 3" "ts 3 = Consuming" using states(1) [of i] p(1) by (cases "ts i"; auto)+
    show ?thesis
      using one ev p t states seen
      by (intro move [of _ ms' i "Got m"]) (auto simp: enqueued_append dequeued_append)
  qed
  ultimately show ?thesis using not_return by (cases e) auto
qed

lemma history_send_return:
  assumes ok: "history_ok checked capacity ts es s" and t: "ts i = Producing n"
    and step: "spec_run capacity (es @ [Returned i status b]) ([], \<lambda>_. Idle) \<noteq> None"
  shows "status = OS_MESSAGE_QUEUE_OK" "history_ok checked capacity (ts(i := Producing (Suc n))) (es @ [Returned i status b]) s"
proof -
  obtain ms pr where spec: "spec_run capacity es ([], \<lambda>_. Idle) = Some (ms, pr)"
    and states: "\<And>j. state_ok j (ts j) (pr j) (length (sent_by j (enqueued es)))" "messages_ok (enqueued es)"
    and seen: "checked \<Longrightarrow> \<exists>seen. dequeued es = seen @ pending (ts 3) (pr 3) \<and> checked_ok seen s"
    and zero: "g_message_queue_sequence_error_count s = 0"
    using ok unfolding history_ok_def by blast
  obtain ms' pr' where one: "spec_step capacity (Returned i status b) (ms, pr) = Some (ms', pr')"
    using step spec by (auto simp: spec_run_append split: option.splits)
  have i: "i \<in> {1, 2}" using states(1) [of i] t by simp
  then have p: "status = OS_MESSAGE_QUEUE_OK" "pr i = Sent b" "ms' = ms" "pr' = pr(i := Idle)"
    using one states(1) [of i] t by (auto split: if_splits)
  show "status = OS_MESSAGE_QUEUE_OK" by (rule p(1))
  have "i \<noteq> 3" using i by auto
  then show "history_ok checked capacity (ts(i := Producing (Suc n))) (es @ [Returned i status b]) s"
    using one p t states(1) [of i] states(2) seen i
    by (intro history_move [OF spec _ states _ _ _ _ zero, of _ ms' i Idle]) (auto simp: enqueued_append dequeued_append)
qed

lemma history_receive_return:
  assumes ok: "history_ok checked capacity ts es s" and t: "ts 3 = Consuming"
    and step: "spec_run capacity (es @ [Returned 3 status b]) ([], \<lambda>_. Idle) \<noteq> None"
  shows "status = OS_MESSAGE_QUEUE_OK"
    "history_ok checked capacity (ts(3 := if checked then Checking b else Consuming)) (es @ [Returned 3 status b]) s"
proof -
  obtain ms pr where spec: "spec_run capacity es ([], \<lambda>_. Idle) = Some (ms, pr)"
    and states: "\<And>j. state_ok j (ts j) (pr j) (length (sent_by j (enqueued es)))" "messages_ok (enqueued es)"
    and seen: "checked \<Longrightarrow> \<exists>seen. dequeued es = seen @ pending (ts 3) (pr 3) \<and> checked_ok seen s"
    and zero: "g_message_queue_sequence_error_count s = 0"
    using ok unfolding history_ok_def by blast
  obtain ms' pr' where one: "spec_step capacity (Returned 3 status b) (ms, pr) = Some (ms', pr')"
    using step spec by (auto simp: spec_run_append split: option.splits)
  have p: "status = OS_MESSAGE_QUEUE_OK" "pr 3 = Got b" "ms' = ms" "pr' = pr(3 := Idle)"
    using one states(1) [of 3] t by (auto split: if_splits)
  show "status = OS_MESSAGE_QUEUE_OK" by (rule p(1))
  show "history_ok checked capacity (ts(3 := if checked then Checking b else Consuming)) (es @ [Returned 3 status b]) s"
    using one p t states(2) seen
    by (intro history_move [OF spec _ states _ _ _ _ zero, of _ ms' 3 Idle]) (auto simp: enqueued_append dequeued_append)
qed

lemma history_check:
  assumes ok: "history_ok checked capacity ts es s" and t: "ts 3 = Checking b"
    and s': "s' = fst (kernel_record_message_queue_receive_success (message_from b) (s, k))" and checked: "checked"
  shows "history_ok checked capacity (ts(3 := Consuming)) es s'"
proof -
  obtain ms pr seen where spec: "spec_run capacity es ([], \<lambda>_. Idle) = Some (ms, pr)"
    and states: "\<And>j. state_ok j (ts j) (pr j) (length (sent_by j (enqueued es)))" "messages_ok (enqueued es)"
    and seen: "dequeued es = seen @ pending (ts 3) (pr 3)" "checked_ok seen s"
    and zero: "g_message_queue_sequence_error_count s = 0"
    using ok checked unfolding history_ok_def by blast
  have idle: "pr 3 = Idle" using states(1) [of 3] t by simp
  have "enqueued es = dequeued es @ ms" using spec_fifo [OF spec] by simp
  then have all: "messages_ok (seen @ b # ms)" using states(2) seen(1) t by simp
  have "state_ok j ((ts(3 := Consuming)) j) (pr j) (length (sent_by j (enqueued es)))" for j
    using states(1) [of j] idle by simp
  moreover have "\<exists>seen. dequeued es = seen @ pending ((ts(3 := Consuming)) 3) (pr 3) \<and> checked_ok seen s'"
    using seen(1) t idle checked_ok_next(1) [OF all seen(2) zero s'] by (intro exI [of _ "seen @ [b]"]) simp
  ultimately show ?thesis
    using spec states(2) checked_ok_next(2) [OF all seen(2) zero s'] unfolding history_ok_def by blast
qed

lemma history_same:
  assumes "history_ok checked capacity ts es s"
    "g_message_queue_producer_1_expected_sequence s' = g_message_queue_producer_1_expected_sequence s"
    "g_message_queue_producer_2_expected_sequence s' = g_message_queue_producer_2_expected_sequence s"
    "g_message_queue_receive_success_count s' = g_message_queue_receive_success_count s"
    "g_message_queue_sequence_error_count s' = g_message_queue_sequence_error_count s"
  shows "history_ok checked capacity ts es s'"
  using assms unfolding history_ok_def checked_ok_def by simp

section \<open>Soundness\<close>

text \<open>The checking typestate occurs only with the validation enabled.\<close>

definition message_inv ::
  "bool \<Rightarrow> os_message_queue_t \<Rightarrow> queue_system \<Rightarrow> (nat \<Rightarrow> message_state) \<Rightarrow> queue_event list \<Rightarrow> world \<Rightarrow> bool"
where
  "message_inv checked q x0 ts es w \<longleftrightarrow> queue_start q x0 \<and> queue_run x0 es (w_queue w) \<and>
     history_ok checked (unat (mq_capacity q)) ts es (w_statistics w) \<and> (\<forall>i b. ts i = Checking b \<longrightarrow> checked)"

lemma message_inv_spec:
  assumes "queue_start q x0" "queue_run x0 es x"
  shows "spec_run (unat (mq_capacity q)) es ([], \<lambda>_. Idle) \<noteq> None"
  using queue_run_inv [OF assms] by blast

lemma background_events:
  assumes "background ps w e w'"
  shows "e = [] \<or> (\<exists>i m f. e = [Send_called i m] \<and> ps i = Do (Queue_send m) f) \<or>
    (\<exists>i b f. e = [Receive_called i] \<and> ps i = Do (Queue_receive b) f) \<or>
    (\<exists>i m. e = [Enqueued i m] \<or> e = [Dequeued i m])"
  using assms
proof (cases rule: background.cases)
  case (inside q i c c')
  from inside(2) show ?thesis
    by (cases rule: queue_step.cases) (use inside(3-5) in \<open>auto split: if_splits\<close>)
qed auto

lemma placed_continuation: "placed (Do a f) c act = placed (Do a g) c act"
  by (cases c; cases act; cases a) simp_all

lemma performs_queue:
  assumes "performs hw w i a r e w'" "app_wf w ps" "ps i = Do a f"
  shows "queue_step (w_queue w) e (w_queue w') \<or> e = [] \<and> w_queue w' = w_queue w"
proof -
  let ?ps = "ps(i := Do a (\<lambda>_. Continue No_locals))"
  have "app_wf w ?ps"
    using assms(2,3) placed_continuation [of a f _ _ "\<lambda>_. Continue No_locals"]
    by (auto simp: app_wf_def dest: spec [of _ i])
  from performs_step(2) [OF assms(1) this] show ?thesis by simp
qed

lemma performs_events:
  assumes "performs hw w i a r e w'"
  shows "e = [] \<and> (\<forall>m. a \<noteq> Queue_send m \<and> a \<noteq> Queue_receive m) \<or>
    (\<exists>status b m. (a = Queue_send m \<or> a = Queue_receive m) \<and> r = Delivered status b \<and> e = [Returned i status b])"
  using assms by (cases rule: performs.cases) auto

lemma history_unrelated:
  assumes hist: "history_ok checked c ts es (w_statistics w)" and permits: "message_permits i (ts i) a"
    and step: "performs hw w i a r e w'" and "\<forall>m. a \<noteq> Queue_send m \<and> a \<noteq> Queue_receive m" "\<And>b. ts i \<noteq> Checking b"
  shows "history_ok checked c ts es (w_statistics w')"
proof -
  note stats = performs_statistics [OF step]
  consider "\<forall>g. a \<noteq> Write_statistics g" "\<forall>rec. a \<noteq> Record rec" | g where "a = Write_statistics g" | rec where "a = Record rec"
    by blast
  then show ?thesis
  proof cases
    case 1
    then show ?thesis using hist stats(1) by simp
  next
    case (2 g)
    then have "messages_kept g" "w_statistics w' = g (w_statistics w)"
      using permits assms(5) stats(2) by (auto simp: message_permits_def split: message_state.splits)
    then show ?thesis using history_same [OF hist] by (simp add: messages_kept_def)
  next
    case (3 rec)
    then have "messages_kept (\<lambda>s. fst (rec (s, world_ipc w)))"
      using permits assms(5) by (auto simp: message_permits_def split: message_state.splits)
    then show ?thesis using history_same [OF hist] stats(3) [OF 3] by (simp add: messages_kept_def)
  qed
qed

lemma message_action:
  assumes inv: "message_inv checked q x0 ts es w" and wf: "app_wf w ps" and prog: "ps i = Do a f"
    and permits: "message_permits i (ts i) a" and step: "performs hw w i a r e w'"
  shows "\<exists>t'. message_after checked (ts i) a r = Some t' \<and> message_inv checked q x0 (ts(i := t')) (es @ e) w'"
proof -
  have start: "queue_start q x0" and run: "queue_run x0 es (w_queue w)"
    and hist: "history_ok checked (unat (mq_capacity q)) ts es (w_statistics w)"
    and check: "\<And>i b. ts i = Checking b \<Longrightarrow> checked"
    using inv by (auto simp: message_inv_def)
  have run': "queue_run x0 (es @ e) (w_queue w')"
    using performs_queue [OF step wf prog] run queue_run.step by auto
  note spec = message_inv_spec [OF start run'] and stats = performs_statistics [OF step]
  consider (send) m status b where "a = Queue_send m" "r = Delivered status b" "e = [Returned i status b]"
    | (receive) m status b where "a = Queue_receive m" "r = Delivered status b" "e = [Returned i status b]"
    | (other) "e = []" "\<forall>m. a \<noteq> Queue_send m \<and> a \<noteq> Queue_receive m"
    using performs_events [OF step] by blast
  then show ?thesis
  proof cases
    case send
    then obtain n where t: "ts i = Producing n" using permits by (auto simp: message_permits_def split: message_state.splits)
    note ret = history_send_return [OF hist t spec [unfolded send(3)]]
    have "w_statistics w' = w_statistics w" using stats(1) send(1) by simp
    then show ?thesis using send t ret run' start check by (auto simp: message_after_def message_inv_def)
  next
    case receive
    then have t: "i = 3" "ts 3 = Consuming" using permits by (auto simp: message_permits_def split: message_state.splits)
    note ret = history_receive_return [OF hist t(2) spec [unfolded receive(3) t(1)]]
    have "w_statistics w' = w_statistics w" using stats(1) receive(1) by simp
    then show ?thesis using receive t ret run' start check by (auto simp: message_after_def message_inv_def)
  next
    case other
    show ?thesis
    proof (cases "\<exists>b. ts i = Checking b")
      case True
      then obtain b where b: "ts i = Checking b" by blast
      then have a: "i = 3" "a = Record (kernel_record_message_queue_receive_success (message_from b))"
        using permits by (simp_all add: message_permits_def)
      have t3: "ts 3 = Checking b" using b a(1) by simp
      note checked = history_check [OF hist t3 stats(3) [OF a(2)] check [OF b]]
      then show ?thesis using a b run' start check other by (auto simp: message_after_def message_inv_def)
    next
      case False
      then have same: "message_after checked (ts i) a r = Some (ts i)"
        using other(2) by (auto simp: message_after_def split: message_state.splits action.splits)
      have "history_ok checked (unat (mq_capacity q)) ts es (w_statistics w')"
        by (rule history_unrelated [OF hist permits step other(2)]) (use False in blast)
      then show ?thesis using same run' start check other(1) by (auto simp: message_inv_def)
    qed
  qed
qed

lemma permits_calls:
  "message_permits i t (Queue_send m) \<Longrightarrow> i \<in> {1, 2} \<and> (\<exists>n ticks. t = Producing n \<and> m = numbered_message i n ticks)"
  "message_permits i t (Queue_receive b) \<Longrightarrow> i = 3 \<and> t = Consuming"
  by (auto simp: message_permits_def split: message_state.splits)

interpretation messages: sound_discipline "message_discipline (message_queue_debug v)" hw
  "app_body (Message_queue_demo stress) (with_buffer v)" "message_inv (message_queue_debug v) q x0"
  for stress :: bool and v :: validation and hw :: "board \<Rightarrow> board" and q :: os_message_queue_t and x0 :: queue_system
proof
  fix i locals t
  assume "at_loop (message_discipline (message_queue_debug v)) i locals t"
  then have "message_at_loop i locals t" by (simp add: message_discipline_def)
  moreover have "length (stale_digits (with_buffer v)) = 11" "message_queue_debug (with_buffer v) = message_queue_debug v"
    by (simp_all add: with_buffer_def)
  ultimately show "typed (message_discipline (message_queue_debug v)) i (app_body (Message_queue_demo stress) (with_buffer v) i locals) t"
    using message_body_typed [of "with_buffer v" i locals t] by simp
next
  fix ts es w ps i a f r e w'
  assume "message_inv (message_queue_debug v) q x0 ts es w" "app_wf w ps" "ps i = Do a f"
    "permits (message_discipline (message_queue_debug v)) i (ts i) a" "performs hw w i a r e w'"
  then show "\<exists>t'. after (message_discipline (message_queue_debug v)) (ts i) a r = Some t' \<and>
      message_inv (message_queue_debug v) q x0 (ts(i := t')) (es @ e) w'"
    using message_action [of "message_queue_debug v" q x0 ts es w ps i a f hw r e w'] by (simp add: message_discipline_def)
next
  fix ts es w ps e w'
  assume inv: "message_inv (message_queue_debug v) q x0 ts es w" and wf: "app_wf w ps" and step: "background ps w e w'"
    and permits: "\<And>i a f. ps i = Do a f \<Longrightarrow> permits (message_discipline (message_queue_debug v)) i (ts i) a"
  then have run: "queue_start q x0" "queue_run x0 (es @ e) (w_queue w')"
    using background_step(2) [OF step wf] queue_run.step by (auto simp: message_inv_def)
  note spec = message_inv_spec [OF this] and events = background_events [OF step]
  have hist: "history_ok (message_queue_debug v) (unat (mq_capacity q)) ts es (w_statistics w')"
    using inv background_same(1) [OF step wf] by (simp add: message_inv_def)
  have sends: "i \<in> {1, 2} \<and> (\<exists>n ticks. ts i = Producing n \<and> m = numbered_message i n ticks)"
    if e: "e = [Send_called i m]" for i m
  proof -
    obtain f where "ps i = Do (Queue_send m) f" using events e by auto
    from permits [OF this] show ?thesis using permits_calls(1) by (simp add: message_discipline_def)
  qed
  have receives: "i = 3 \<and> ts i = Consuming" if e: "e = [Receive_called i]" for i
  proof -
    obtain b f where "ps i = Do (Queue_receive b) f" using events e by auto
    from permits [OF this] show ?thesis using permits_calls(2) by (simp add: message_discipline_def)
  qed
  have "history_ok (message_queue_debug v) (unat (mq_capacity q)) ts (es @ e) (w_statistics w')"
  proof (cases "e = []")
    case False
    then obtain e1 where e1: "e = [e1]" "\<forall>i status b. e1 \<noteq> Returned i status b" using events by auto
    then show ?thesis
      using history_step [OF hist spec [unfolded e1(1)]] sends receives by auto
  qed (use hist in simp)
  then show "message_inv (message_queue_debug v) q x0 ts (es @ e) w'"
    using inv run by (simp add: message_inv_def)
qed

end
