(* ===== verification/App_Deadlock.thy ===== *)
theory App_Deadlock
  imports App_Sequence
begin

text \<open>
  Freedom from deadlock: the usage discipline says which calls the tasks of each demo make, and
  together with the console, resource and message disciplines it excludes that all three tasks
  are BLOCKED at the same time.
\<close>

section \<open>Which calls the tasks make\<close>

fun uses :: "demo \<Rightarrow> action \<Rightarrow> bool" where
  "uses demo (Service c) = (c \<in> {Mutex_lock console_mutex, Mutex_unlock console_mutex} \<or>
     demo = Semaphore_demo \<and> c \<in> {Semaphore_wait resource_semaphore, Semaphore_post resource_semaphore})"
| "uses demo (Queue_send m) = (queue_demo demo \<and> length m = 12)"
| "uses demo (Queue_receive b) = (queue_demo demo \<and> length b = 12)"
| "uses demo _ = True"

text \<open>A message that is received has the size of \<open>kernel_queue_message_t\<close>.\<close>

fun usage_after :: "action \<Rightarrow> response \<Rightarrow> unit option" where
  "usage_after (Queue_receive b) (Delivered s b') = (if length b' = 12 then Some () else None)"
| "usage_after (Queue_receive b) r = None"
| "usage_after a r = Some ()"

definition usage_discipline :: "demo \<Rightarrow> unit discipline" where
  "usage_discipline demo = \<lparr>permits = (\<lambda>i t a. i \<in> {1, 2, 3} \<and> uses demo a), after = (\<lambda>t. usage_after),
     at_loop = (\<lambda>i locals t. queue_demo demo \<and> i = 3 \<longrightarrow> length (buffer_of locals) = 12)\<rparr>"

abbreviation (input) usage_typed :: "demo \<Rightarrow> nat \<Rightarrow> app \<Rightarrow> bool" where
  "usage_typed demo i a \<equiv> typed (usage_discipline demo) i a ()"

lemma usage_do:
  assumes "i \<in> {1, 2, 3}" "well_behaved a" "uses demo a" "\<And>r. usage_after a r = Some ()" "\<And>r. usage_typed demo i (f r)"
  shows "usage_typed demo i (Do a f)"
  using assms by (simp add: usage_discipline_def typed.simps(1))

lemma usage_steps:
  assumes "i \<in> {1, 2, 3}" "usage_typed demo i a"
  shows "usage_typed demo i (do_sleep ms a)" "usage_typed demo i (do_toggle v a)"
  unfolding do_sleep_def do_toggle_def using assms by (auto intro!: usage_do split: option.split)

lemma usage_after_receive:
  "(\<forall>r. case usage_after (Queue_receive b) r of None \<Rightarrow> True | Some t \<Rightarrow> P r t) \<longleftrightarrow>
   (\<forall>s b'. length b' = 12 \<longrightarrow> P (Delivered s b') ())" (is "?l = ?r")
proof
  assume l: ?l
  show ?r
  proof (intro allI impI)
    fix s and b' :: "u8 list"
    assume "length b' = 12"
    then show "P (Delivered s b') ()" using spec [OF l, of "Delivered s b'"] by simp
  qed
next
  assume ?r
  then have "case usage_after (Queue_receive b) r of None \<Rightarrow> True | Some t \<Rightarrow> P r t" for r
    by (cases r) simp_all
  then show ?l by blast
qed

lemma usage_receive:
  assumes "queue_demo demo" "length b = 12" "\<And>s b'. length b' = 12 \<Longrightarrow> usage_typed demo 3 (f (Delivered s b'))"
  shows "usage_typed demo 3 (Do (Queue_receive b) f)"
  using assms by (simp add: usage_discipline_def typed.simps(1) usage_after_receive)

lemma usage_continue:
  assumes "queue_demo demo \<Longrightarrow> i = 3 \<Longrightarrow> length (buffer_of locals) = 12"
  shows "usage_typed demo i (Continue locals)" "at_loop (usage_discipline demo) i locals ()"
  using assms by (simp_all add: usage_discipline_def)

lemma usage_put_all: "i \<in> {1, 2, 3} \<Longrightarrow> usage_typed demo i a \<Longrightarrow> usage_typed demo i (put_all cs a)"
  by (induction cs) (auto intro!: usage_do simp: put_all.simps)

lemma usage_write_task_event:
  assumes "i \<in> {1, 2, 3}" "length (stale_digits v) = 11" "usage_typed demo i a"
  shows "usage_typed demo i (kernel_write_task_event v name event a)"
  unfolding kernel_write_task_event_def print_steps_eq print_uint32_steps_eq [OF assms(2)] Let_def
  by (auto intro!: usage_do usage_put_all assms(3) assms(1) simp del: One_nat_def)

lemma usage_write_queue_message:
  assumes "i \<in> {1, 2, 3}" "length (stale_digits v) = 11" "usage_typed demo i a"
  shows "usage_typed demo i (kernel_write_queue_message v name event m a)"
  unfolding kernel_write_queue_message_def print_steps_eq print_uint32_steps_eq [OF assms(2)] Let_def
  by (auto intro!: usage_do usage_put_all assms(3) assms(1) simp del: One_nat_def)

lemma message_bytes_length [simp]: "length (message_bytes m) = 12"
  by (simp add: message_bytes_def word_bytes_def)

lemma usage_producer:
  assumes "i \<in> {1, 2}" "length (stale_digits v) = 11" "queue_demo demo"
  shows "usage_typed demo i (kernel_run_queue_producer v name p toggle ms n)"
  using assms unfolding kernel_run_queue_producer_def Let_def
  by (auto intro!: usage_do usage_steps usage_continue usage_write_queue_message simp: when_enabled_def simp del: One_nat_def)

lemma usage_consumer:
  assumes "length (stale_digits v) = 11" "queue_demo demo" "length b = 12"
  shows "usage_typed demo 3 (kernel_run_queue_consumer demo v name toggle b)"
  using assms unfolding kernel_run_queue_consumer_def Let_def
  by (auto intro!: usage_receive usage_do usage_steps usage_continue usage_write_queue_message simp: when_enabled_def simp del: One_nat_def)

lemma usage_body:
  assumes "length (stale_digits v) = 11" "at_loop (usage_discipline demo) i locals ()"
  shows "usage_typed demo i (app_body demo v i locals)"
proof -
  note step = usage_do usage_steps usage_continue usage_write_task_event
  have "usage_typed Semaphore_demo i (kernel_run_semaphore_worker v name toggle ms)" if "i \<in> {1, 2, 3}" for name toggle ms
    using that assms(1) unfolding kernel_run_semaphore_worker_def
    by (auto intro!: step simp: when_enabled_def simp del: One_nat_def)
  moreover have "usage_typed Sleep_test i (run_sleep_test ms upd toggle)" if "i \<in> {1, 2, 3}" for ms upd toggle
    using that unfolding run_sleep_test_def Let_def by (auto intro!: step simp del: One_nat_def)
  moreover have "usage_typed Mutex_demo i (run_mutex_demo v name toggle ms)" if "i \<in> {1, 2, 3}" for name toggle ms
    using that assms(1) unfolding run_mutex_demo_def by (auto intro!: step simp del: One_nat_def)
  moreover have "queue_demo demo \<Longrightarrow> i = 3 \<Longrightarrow> length (buffer_of locals) = 12"
    using assms(2) by (simp add: usage_discipline_def)
  ultimately show ?thesis
    using assms(1)
    by (cases demo) (auto simp: app_body_def app_task_1_def app_task_2_def app_task_3_def simp del: One_nat_def
        intro!: usage_continue usage_producer usage_consumer)
qed

section \<open>Soundness\<close>

lemma queue_step_count:
  assumes "queue_step x e x'" "ipc_wf (sys_ipc x)"
  shows "g_task_count (sys_ipc x') = g_task_count (sys_ipc x)"
  using assms by (cases rule: queue_step.cases) (auto dest: ipc_step_count)

definition usage_inv ::
  "demo \<Rightarrow> os_message_queue_t \<Rightarrow> queue_system \<Rightarrow> (nat \<Rightarrow> unit) \<Rightarrow> queue_event list \<Rightarrow> world \<Rightarrow> bool"
where
  "usage_inv demo q x0 ts es w \<longleftrightarrow> task_total (world_ipc w) = 4 \<and>
     (queue_demo demo \<longrightarrow> queue_start q x0 \<and> queue_run x0 es (w_queue w) \<and> mq_message_size q = 12)"

lemma usage_inv_step:
  assumes "usage_inv demo q x0 ts es w" "app_wf w ps" "queue_step (w_queue w) e (w_queue w') \<or> e = [] \<and> w_queue w' = w_queue w"
  shows "usage_inv demo q x0 ts' (es @ e) w'"
  using assms queue_step_count [of "w_queue w" e "w_queue w'"] app_wfD(1) [of w ps]
  by (auto simp: usage_inv_def intro: queue_run.step)

interpretation usage: sound_discipline "usage_discipline demo" hw "app_body demo (with_buffer v)" "usage_inv demo q x0"
  for demo :: demo and hw :: "board \<Rightarrow> board" and v :: validation and q :: os_message_queue_t and x0 :: queue_system
proof
  fix i locals and t :: unit
  assume "at_loop (usage_discipline demo) i locals t"
  then show "typed (usage_discipline demo) i (app_body demo (with_buffer v) i locals) t"
    using usage_body [of "with_buffer v" demo i locals] by (simp add: with_buffer_def)
next
  fix ts es w ps i a f r e w'
  assume inv: "usage_inv demo q x0 ts es w" and wf: "app_wf w ps" and prog: "ps i = Do a f"
    and permits: "permits (usage_discipline demo) i (ts i) a" and step: "performs hw w i a r e w'"
  have inv': "usage_inv demo q x0 (ts(i := ())) (es @ e) w'"
    by (rule usage_inv_step [OF inv wf performs_queue [OF step wf prog]])
  have i: "i \<in> {1, 2, 3}" "uses demo a" using permits by (simp_all add: usage_discipline_def)
  have "usage_after a r = Some ()"
  proof (cases "\<exists>b. a = Queue_receive b")
    case True
    then obtain b status b' where r: "a = Queue_receive b" "r = Delivered status b'" "e = [Returned i status b']"
      using performs_events [OF step] by auto
    then have "queue_start q x0" "queue_run x0 (es @ e) (w_queue w')" "mq_message_size q = 12"
      using inv' i(2) by (simp_all add: usage_inv_def)
    then have "length b' = 12" using returned_size [of q x0 "es @ e" "w_queue w'" i status b'] r(3) i(1) by auto
    then show ?thesis using r by simp
  next
    case False
    then show ?thesis by (cases a) simp_all
  qed
  then show "\<exists>t'. after (usage_discipline demo) (ts i) a r = Some t' \<and> usage_inv demo q x0 (ts(i := t')) (es @ e) w'"
    using inv' by (simp add: usage_discipline_def)
next
  fix ts es w ps e w'
  assume "usage_inv demo q x0 ts es w" "app_wf w ps" "background ps w e w'"
  then show "usage_inv demo q x0 ts (es @ e) w'"
    using usage_inv_step [of demo q x0 ts es w ps e w' ts] background_step(2) [of ps w e w'] by simp
qed

section \<open>Where a task can wait\<close>

text \<open>The tasks outside the three of the application are always in their loop.\<close>

lemma usage_action:
  assumes "usage_typed demo i (ps i)" "ps i = Do a f"
  shows "i \<in> {1, 2, 3}" "uses demo a"
  using assms by (simp_all add: usage_discipline_def typed.simps(1))

text \<open>
  A task inside a waiting call waits for the console mutex, for the resource in the semaphore
  demo, or inside the queue service in the queue demo.
\<close>

lemma waiting_cases:
  assumes "app_wf w ps" "usage_typed demo i (ps i)" "ipc_activity (world_ipc w) i \<noteq> Outside"
  obtains (console) f where "ipc_activity (world_ipc w) i = Locking console_mutex" "ps i = Do (Service (Mutex_lock console_mutex)) f"
    | (resource) f where "demo = Semaphore_demo" "ipc_activity (world_ipc w) i = Waiting resource_semaphore"
        "ps i = Do (Service (Semaphore_wait resource_semaphore)) f"
    | (queue) a f where "queue_demo demo" "sys_code (w_queue w) i \<noteq> None" "ps i = Do a f"
        "(\<exists>m. a = Queue_send m) \<or> (\<exists>b. a = Queue_receive b)"
        "ipc_activity (world_ipc w) i = Locking access_mutex \<or> (\<exists>s. ipc_activity (world_ipc w) i = Waiting s \<and> s \<noteq> resource_semaphore)"
proof (cases "sys_code (w_queue w) i")
  case None
  have "in_call (ps i) (ipc_activity (world_ipc w) i)" by (rule app_wfD(3) [OF assms(1) None])
  then obtain c f where c: "ps i = Do (Service c) f" "waits_in c (ipc_activity (world_ipc w) i)"
    using assms(3) by (cases "(ps i, ipc_activity (world_ipc w) i)" rule: in_call.cases) auto
  note u = usage_action(2) [of demo i ps, OF assms(2) c(1)]
  show ?thesis using that(1,2) c u by (cases c) auto
next
  case (Some code)
  note d = app_wfD(4-6) [OF assms(1) Some]
  obtain a f where a: "ps i = Do a f" "(\<exists>m. a = Queue_send m) \<or> (\<exists>b. a = Queue_receive b)"
    using d(1) by (cases "ps i" rule: queue_caller.cases) auto
  have "queue_demo demo" using usage_action(2) [of demo i ps, OF assms(2) a(1)] a(2) by auto
  moreover have "ipc_activity (world_ipc w) i = Locking access_mutex \<or>
      (\<exists>s. ipc_activity (world_ipc w) i = Waiting s \<and> s \<noteq> resource_semaphore)"
    using d(2,3) assms(3)
    by (cases "(Some code, ipc_activity (world_ipc w) i)" rule: may_enter.cases) auto
  ultimately show ?thesis using that(3) a Some by blast
qed

section \<open>The three objects\<close>

text \<open>While a task is BLOCKED on the console mutex its owner, one of the three tasks, is not BLOCKED.\<close>

lemma console_owner_not_blocked:
  assumes wf: "app_wf w ps" and usage: "\<And>i. usage_typed demo i (ps i)"
    and console: "console_inv hw out0 ts es w" "\<And>i. typed console_discipline i (ps i) (ts i)"
    and blocked: "task_blocked (world_ipc w) i" "ipc_activity (world_ipc w) i = Locking console_mutex"
  shows "\<exists>j \<in> {1, 2, 3}. \<not> task_blocked (world_ipc w) j"
proof -
  let ?m = "ipc_mutexes (world_ipc w) console_mutex"
  note mx = ipc_wfD(2) [OF app_wfD(1) [OF wf], of console_mutex]
  have locked: "mx_is_locked ?m \<noteq> 0"
    using mutex_object.no_lost_wakeup [OF mx, of i] blocked by auto
  let ?o = "unat (mx_owner_task_id ?m)"
  show ?thesis
  proof (cases "mutex_waits ?m ?o")
    case True
    then have o: "ipc_activity (world_ipc w) ?o = Locking console_mutex" "\<not> task_blocked (world_ipc w) ?o"
      using mutex_okD(4,8) [OF mx] locked by auto
    from waiting_cases [OF wf usage [of ?o]] o(1) have "\<exists>a f. ps ?o = Do a f" by fastforce
    then show ?thesis using usage_action(1) [of demo ?o ps, OF usage] o(2) by blast
  next
    case False
    then have "mutex_holder ?m = Some ?o" using locked by (simp add: mutex_holder_def)
    then have "ts ?o \<noteq> Free" using console(1) by (simp add: console_inv_def)
    then obtain p n where t: "ts ?o = Holding p n" by (cases "ts ?o") auto
    have typed: "typed console_discipline ?o (ps ?o) (Holding p n)" using console(2) [of ?o] t by simp
    then obtain a f where a: "ps ?o = Do a f"
      by (cases "ps ?o") (simp_all add: console_discipline_def)
    then have permits: "console_permits ?o (Holding p n) a"
      using typed by (simp add: console_discipline_def typed.simps(1))
    have "ipc_activity (world_ipc w) ?o = Outside"
    proof (rule ccontr)
      assume "ipc_activity (world_ipc w) ?o \<noteq> Outside"
      from waiting_cases [OF wf usage [of ?o] this] show False
        using a permits by cases (auto simp: console_permits_def)
    qed
    then have "\<not> task_blocked (world_ipc w) ?o" using ipc_wfD(4) [OF app_wfD(1) [OF wf]] by blast
    then show ?thesis using usage_action(1) [of demo ?o ps, OF usage a] by blast
  qed
qed

text \<open>The tasks cannot all wait for the resource: its two units would have no users.\<close>

lemma resource_not_all_waiting:
  assumes wf: "app_wf w ps" and usage: "\<And>i. usage_typed demo i (ps i)"
    and resource: "resource_inv ts es w" "\<And>i. typed resource_discipline i (ps i) (ts i)"
    and blocked: "\<And>i. i \<in> {1, 2, 3} \<Longrightarrow> task_blocked (world_ipc w) i \<and>
      ipc_activity (world_ipc w) i = Waiting resource_semaphore"
  shows False
proof -
  let ?x = "ipc_semaphores (world_ipc w) resource_semaphore"
  note sx = ipc_wfD(3) [OF app_wfD(1) [OF wf], of resource_semaphore]
  have callers: "\<exists>f. ps i = Do (Service (Semaphore_wait resource_semaphore)) f"
    if "ipc_activity (world_ipc w) i = Waiting resource_semaphore" for i
    using waiting_cases [OF wf usage [of i]] that by fastforce
  have "\<not> sem_count ?x > 0"
    using semaphore_object.no_lost_wakeup [OF sx, of 1] blocked [of 1] by auto
  then have empty: "unat (sem_count ?x) = 0" by (simp add: word_gt_0 unat_eq_0)
  have "\<not> semaphore_granted ?x j" for j
  proof
    assume "semaphore_granted ?x j"
    then have j: "ipc_activity (world_ipc w) j = Waiting resource_semaphore" "\<not> task_blocked (world_ipc w) j"
      using semaphore_okD(6) [OF sx] by auto
    obtain f where "ps j = Do (Service (Semaphore_wait resource_semaphore)) f" using callers [OF j(1)] by blast
    then show False using usage_action(1) [of demo j ps, OF usage] j(2) blocked by blast
  qed
  then have "semaphore_units ?x = 0" using empty by (simp add: semaphore_units_def)
  then have "resource_users ts = 2" using resource(1) by (simp add: resource_inv_def)
  then have "{i. ts i \<noteq> No_unit} \<noteq> {}" by (metis resource_users_def card.empty zero_neq_numeral)
  then obtain u where u: "ts u \<noteq> No_unit" by blast
  have "ts u = No_unit"
  proof (cases "ps u")
    case (Do a f)
    then have "u \<in> {1, 2, 3}" using usage_action(1) [of demo u ps, OF usage] by blast
    then obtain g where "ps u = Do (Service (Semaphore_wait resource_semaphore)) g" using callers blocked by blast
    then show ?thesis using resource(2) [of u] by (simp add: resource_simps typed.simps(1))
  next
    case (Continue locals)
    then show ?thesis using resource(2) [of u] by (simp add: resource_simps)
  qed
  then show False using u by blast
qed

text \<open>
  The tasks cannot all wait in the queue service: a producer waits only while the queue is full
  and the consumer only while it is empty, and its capacity is not zero.
\<close>

lemma queue_not_all_waiting:
  assumes wf: "app_wf w ps" and usage: "\<And>i. usage_typed demo i (ps i)"
    and messages: "message_inv checked q x0 ts es w" "\<And>i. typed (message_discipline checked) i (ps i) (ts i)"
    and blocked: "\<And>i. i \<in> {1, 2, 3} \<Longrightarrow> task_blocked (world_ipc w) i \<and> sys_code (w_queue w) i \<noteq> None"
  shows False
proof -
  have start: "queue_start q x0" and run: "queue_run x0 es (w_queue w)"
    and hist: "history_ok checked (unat (mq_capacity q)) ts es (w_statistics w)"
    using messages(1) by (simp_all add: message_inv_def)
  obtain ms pr where spec: "spec_run (unat (mq_capacity q)) es ([], \<lambda>_. Idle) = Some (ms, pr)"
    and states: "\<And>j. state_ok j (ts j) (pr j) (length (sent_by j (enqueued es)))"
    using hist unfolding history_ok_def by blast
  have calls: "\<exists>a f. ps j = Do a f \<and> ((\<exists>m. a = Queue_send m) \<or> (\<exists>b. a = Queue_receive b))" "j \<in> {1, 2, 3}"
    if inside: "sys_code (w_queue w) j \<noteq> None" for j
  proof -
    have "queue_caller (ps j)" using app_wfD(4) [OF wf, of j] inside by blast
    then show call: "\<exists>a f. ps j = Do a f \<and> ((\<exists>m. a = Queue_send m) \<or> (\<exists>b. a = Queue_receive b))"
      by (cases "ps j" rule: queue_caller.cases) auto
    then show "j \<in> {1, 2, 3}" using usage_action(1) [of demo j ps, OF usage] by blast
  qed
  then have quiet: "quiet (w_queue w)" using blocked unfolding quiet_def by blast
  note at = quiet_blocked [OF start run quiet]
  have "ts 1 \<noteq> Consuming" using states [of 1] by (cases "ts 1") auto
  moreover have "ts 3 \<noteq> Producing n" for n using states [of 3] by (cases "ts 3") auto
  moreover have "(\<exists>n. ts j = Producing n) \<or> ts j = Consuming" if j: "j \<in> {1, 2, 3}" for j
  proof -
    obtain a f where a: "ps j = Do a f" "(\<exists>m. a = Queue_send m) \<or> (\<exists>b. a = Queue_receive b)"
      using calls(1) blocked [OF j] by blast
    have "message_permits j (ts j) a" using messages(2) [of j] a(1) by (simp add: message_discipline_def typed.simps(1))
    then show ?thesis using a(2) permits_calls by blast
  qed
  ultimately obtain n where "ts 1 = Producing n" "ts 3 = Consuming" by blast
  then have pr: "pr 1 \<noteq> Receiving" "\<And>m. pr 3 \<noteq> Sending m" using states [of 1] states [of 3] by auto
  have "length ms = unat (mq_capacity q)" using at [of 1] blocked [of 1] spec pr(1) by auto
  moreover have "ms = []" using at [of 3] blocked [of 3] spec pr(2) by auto
  ultimately show False using queue_start_inv(2) [OF start] by (simp add: unat_eq_0)
qed

end
