(* ===== verification/App_Progress.thy ===== *)
theory App_Progress
  imports App_Deadlock Queue_Completion
begin

text \<open>
  Progress: whatever a running task is about to do, in its own code, in a service or inside the
  queue service, the system has a step in which it gets on. No call of the model is stuck, and
  every action that a task body contains can be performed.
\<close>

section \<open>Calls of the services\<close>

text \<open>Trees are well founded: what follows an action differs from the tree that starts with it.\<close>

lemma app_continues: "a = Do act f \<Longrightarrow> f r \<noteq> a"
proof (induction a)
  case (Do x g)
  then show ?case by (metis app.inject(1) rangeI)
qed simp

lemma code_continues: "c = Call s g \<Longrightarrow> g status \<noteq> c" "c = Get h \<Longrightarrow> h q \<noteq> c"
proof -
  show "c = Call s g \<Longrightarrow> g status \<noteq> c"
  proof (induction c)
    case (Call x g')
    then show ?case by (metis code.inject(2) rangeI)
  qed simp_all
  show "c = Get h \<Longrightarrow> h q \<noteq> c"
  proof (induction c)
    case (Get h')
    then show ?case by (metis code.inject(3) rangeI)
  qed simp_all
qed

lemma store_continues: "c \<noteq> Store a v c" "c \<noteq> Set_tail n m c" "c \<noteq> Set_head n m c"
  by (induction c) auto

text \<open>
  A running task inside a call of the services, or about to make one, gets on with it: the call
  returns, or the task enters a waiting call, or it blocks.
\<close>

lemma lock_pass_step:
  assumes "running_task k i" "ipc_wf k" "ipc_activity k i = Locking m"
  shows "(\<exists>status k'. ipc_step k [Locked i m status] k') \<or> (\<exists>k'. ipc_step k [] k' \<and> task_blocked k' i)"
proof -
  note r = running_taskD [OF assms(1)]
  have cur: "i = current_index k" using r(11) by simp
  obtain outcome mutex k1 where pass: "mutex_lock_iteration (g_current_task_id k) (ipc_mutexes k m) k = (outcome, mutex, k1)"
    by (metis prod_cases3)
  note step = ipc_step.lock_pass [OF r(2) cur assms(3) pass]
  show ?thesis
  proof (cases outcome)
    case (Return status)
    then show ?thesis using step by auto
  next
    case Again
    then have "k1 = blocked_caller i k"
      using lock_again_ok [OF assms(1) ipc_wfD(2) [OF assms(2), of m], of mutex k1] pass assms(3) r(3) by simp
    then show ?thesis using step Again blocked_caller_blocked [OF assms(1)] by auto
  qed
qed

lemma wait_pass_step:
  assumes "running_task k i" "ipc_wf k" "ipc_activity k i = Waiting s"
  shows "(\<exists>status k'. ipc_step k [Waited i s status] k') \<or> (\<exists>k'. ipc_step k [] k' \<and> task_blocked k' i)"
proof -
  note r = running_taskD [OF assms(1)]
  have cur: "i = current_index k" using r(11) by simp
  obtain outcome semaphore k1 where pass: "semaphore_wait_iteration (g_current_task_id k) (ipc_semaphores k s) k = (outcome, semaphore, k1)"
    by (metis prod_cases3)
  note step = ipc_step.wait_pass [OF r(2) cur assms(3) pass]
  show ?thesis
  proof (cases outcome)
    case (Return status)
    then show ?thesis using step by auto
  next
    case Again
    then have "k1 = blocked_caller i k"
      using wait_again_ok [OF assms(1) ipc_wfD(3) [OF assms(2), of s], of semaphore k1] pass assms(3) r(3,8) by simp
    then show ?thesis using step Again blocked_caller_blocked [OF assms(1)] by auto
  qed
qed

lemma service_progress:
  fixes k :: ipc
  assumes "running_task k i" "ipc_wf k" "ipc_activity k i = Outside \<or> waits_in c (ipc_activity k i)"
  shows "(\<exists>status k'. ipc_step k [call_event c i status] k') \<or>
    (\<exists>k'. ipc_step k [] k' \<and> ipc_activity k i = Outside \<and> waits_in c (ipc_activity k' i)) \<or>
    (\<exists>k'. ipc_step k [] k' \<and> ipc_activity k i \<noteq> Outside \<and> task_blocked k' i)"
proof (cases "ipc_activity k i = Outside")
  case True
  note r = running_taskD [OF assms(1)]
  have cur: "i = current_index k" "i \<noteq> 0" using r(4,11) by simp_all
  have cpu: "on_cpu k i" using assms(1,2) True by (simp add: on_cpu_def)
  show ?thesis
  proof (cases c)
    case (Semaphore_wait s)
    have "ipc_step k [] (k\<lparr>ipc_activity := (ipc_activity k)(i := Waiting s)\<rparr>)"
      by (rule ipc_step.wait_call [OF r(2) cur(1) True]) (use prologue_ok(2) [OF assms(2) cur(1), of s] cur(2) in simp)
    then show ?thesis using Semaphore_wait True by fastforce
  next
    case (Mutex_lock m)
    have "ipc_step k [] (k\<lparr>ipc_activity := (ipc_activity k)(i := Locking m)\<rparr>)"
      by (rule ipc_step.lock_call [OF r(2) cur(1) True]) (use prologue_ok(1) [OF assms(2) cur(1), of m] cur(2) in simp)
    then show ?thesis using Mutex_lock True by fastforce
  next
    case (Semaphore_post s)
    then show ?thesis using post_returns [OF cpu, of s] by auto
  next
    case (Mutex_unlock m)
    then show ?thesis using unlock_returns [OF cpu, of m] by auto
  qed
next
  case False
  then have "waits_in c (ipc_activity k i)" using assms(3) by blast
  then show ?thesis
    using lock_pass_step [OF assms(1,2)] wait_pass_step [OF assms(1,2)] False by (cases c) auto
qed

section \<open>Steps of a task\<close>

text \<open>Task \<open>i\<close> has got on with its code: by an action, a step inside the queue service, or into a wait.\<close>

definition advanced :: "world \<times> (nat \<Rightarrow> app) \<Rightarrow> nat \<Rightarrow> world \<times> (nat \<Rightarrow> app) \<Rightarrow> bool" where
  "advanced x i x' \<longleftrightarrow> snd x' i \<noteq> snd x i \<or> sys_code (w_queue (fst x')) i \<noteq> sys_code (w_queue (fst x)) i \<or>
     ipc_activity (world_ipc (fst x)) i = Outside \<and> ipc_activity (world_ipc (fst x')) i \<noteq> Outside \<or>
     \<not> task_blocked (world_ipc (fst x)) i \<and> task_blocked (world_ipc (fst x')) i"

text \<open>A call that the task makes, inside the queue service or by itself.\<close>


lemma call_advances:
  assumes wf: "app_wf w ps" and run: "running_task (world_ipc w) i" and calls: "calls ps w i c"
    and act: "ipc_activity (world_ipc w) i = Outside \<or> waits_in c (ipc_activity (world_ipc w) i)"
    and returns: "\<And>status k. ipc_step (world_ipc w) [call_event c i status] k \<Longrightarrow>
      \<exists>e x'. app_step hw body (w, ps) e x' \<and> advanced (w, ps) i x'"
  shows "\<exists>e x'. app_step hw body (w, ps) e x' \<and> advanced (w, ps) i x'"
proof -
  note r = running_taskD [OF run] and ipc = app_wfD(1) [OF wf]
  have cur: "i = current_index (world_ipc w)" using r(11) by simp
  consider (return) status k where "ipc_step (world_ipc w) [call_event c i status] k"
    | (enter) k where "ipc_step (world_ipc w) [] k" "ipc_activity (world_ipc w) i = Outside" "waits_in c (ipc_activity k i)"
    | (block) k where "ipc_step (world_ipc w) [] k" "ipc_activity (world_ipc w) i \<noteq> Outside" "task_blocked k i"
    using service_progress [OF run ipc act] by blast
  then show ?thesis
  proof cases
    case return
    then show ?thesis by (rule returns)
  next
    case enter
    have at: "at_queue (w_queue w) i" using enter(2) r(2) cur by (simp add: at_queue_def)
    have "app_step hw body (w, ps) [] (with_ipc w k, ps)"
      by (rule app_step.system [OF background.enter [OF at calls enter(1,3)]])
    moreover have "ipc_activity k i \<noteq> Outside" using enter(3) by (cases c) auto
    then have "advanced (w, ps) i (with_ipc w k, ps)" using enter(2) by (simp add: advanced_def)
    ultimately show ?thesis by blast
  next
    case block
    have "app_step hw body (w, ps) [] (with_ipc w k, ps)"
      by (rule app_step.system [OF background.block [OF r(2) cur block(2,1,3)]])
    moreover have "advanced (w, ps) i (with_ipc w k, ps)" using block(3) r(8) by (simp add: advanced_def)
    ultimately show ?thesis by blast
  qed
qed

lemma action_advances:
  assumes "performs hw w i a r e w'" "ps i = Do a f"
  shows "\<exists>e x'. app_step hw body (w, ps) e x' \<and> advanced (w, ps) i x'"
proof -
  have "f r \<noteq> ps i" using app_continues assms(2) by blast
  then have "advanced (w, ps) i (w', ps(i := f r))" by (simp add: advanced_def)
  then show ?thesis using app_step.action [where body = body, of ps, OF assms(2,1)] by blast
qed

lemma inside_advances:
  assumes "queue_step (w_queue w) e q" "sys_code (w_queue w) i = Some c" "sys_code q i = Some c'" "c' \<noteq> c"
  shows "\<exists>e x'. app_step hw body (w, ps) e x' \<and> advanced (w, ps) i x'"
proof -
  have "advanced (w, ps) i (w\<lparr>w_queue := q\<rparr>, ps)" using assms(2-4) by (simp add: advanced_def)
  then show ?thesis using app_step.system [OF background.inside [OF assms]] by blast
qed

text \<open>Inside the queue service.\<close>

lemma code_advances:
  assumes wf: "app_wf w ps" and run: "running_task (world_ipc w) i" and code: "sys_code (w_queue w) i = Some c"
  shows "\<exists>e x'. app_step hw body (w, ps) e x' \<and> advanced (w, ps) i x'"
proof -
  note r = running_taskD [OF run] and d = app_wfD(4,5) [OF wf code]
  note inside = inside_advances [OF _ code, where hw = hw and body = body and ps = ps]
  have at: "at_queue (w_queue w) i" if "ipc_activity (world_ipc w) i = Outside"
    using that r(2,11) by (auto simp: at_queue_def)
  show ?thesis
  proof (cases c)
    case (Call s g)
    have "ipc_activity (world_ipc w) i = Outside \<or> waits_in s (ipc_activity (world_ipc w) i)"
      using d(2) Call by (cases s; cases "ipc_activity (world_ipc w) i") auto
    moreover have "calls ps w i s" using code Call by (simp add: calls_def)
    moreover have "\<exists>e x'. app_step hw body (w, ps) e x' \<and> advanced (w, ps) i x'"
      if step: "ipc_step (world_ipc w) [call_event s i status] k" for status k
      by (rule inside [OF queue_step.inner_call [OF step, of g]]) (use code Call code_continues(1) [of c s g status] in simp_all)
    ultimately show ?thesis using call_advances [OF wf run] by blast
  next
    case (Done status b)
    then have "ipc_activity (world_ipc w) i = Outside" using d(2) by (cases "ipc_activity (world_ipc w) i") auto
    from queue_step.return [OF at [OF this], of status b] have
      ret: "queue_step (w_queue w) [Returned i status b] ((w_queue w)\<lparr>sys_code := (sys_code (w_queue w))(i := None)\<rparr>)"
      using code Done by simp
    obtain a f m where a: "ps i = Do a f" "a = Queue_send m \<or> a = Queue_receive m"
      using d(1) by (cases "ps i" rule: queue_caller.cases) auto
    from performs.send [OF ret, of hw m] performs.receive [OF ret, of hw m]
    show ?thesis using action_advances [where ps = ps and f = f] a by metis
  next
    case (Get h)
    then have "ipc_activity (world_ipc w) i = Outside" using d(2) by (cases "ipc_activity (world_ipc w) i") auto
    then show ?thesis
      by (intro inside [OF queue_step.fetch [OF at, of h]]) (use code Get code_continues(2) [of c h] in simp_all)
  next
    case (Store address byte c')
    then have new: "c' \<noteq> c" using store_continues(1) by blast
    have "ipc_activity (world_ipc w) i = Outside" using d(2) Store by (cases "ipc_activity (world_ipc w) i") auto
    note step = queue_step.store [OF at [OF this], of address byte c']
    show ?thesis by (rule inside [OF step _ new]) (use code Store in simp_all)
  next
    case (Set_tail n m c')
    then have new: "c' \<noteq> c" using store_continues(2) by blast
    have "ipc_activity (world_ipc w) i = Outside" using d(2) Set_tail by (cases "ipc_activity (world_ipc w) i") auto
    note step = queue_step.enqueue [OF at [OF this], of n m c']
    show ?thesis by (rule inside [OF step _ new]) (use code Set_tail in simp_all)
  next
    case (Set_head n m c')
    then have new: "c' \<noteq> c" using store_continues(3) by blast
    have "ipc_activity (world_ipc w) i = Outside" using d(2) Set_head by (cases "ipc_activity (world_ipc w) i") auto
    note step = queue_step.dequeue [OF at [OF this], of n m c']
    show ?thesis by (rule inside [OF step _ new]) (use code Set_head in simp_all)
  qed
qed

text \<open>Outside the services.\<close>

lemma body_acts: "i \<in> {1, 2, 3} \<Longrightarrow> app_body demo v i locals \<noteq> Continue locals'"
  by (cases demo) (auto simp: app_body_def app_task_1_def app_task_2_def app_task_3_def run_sleep_test_def
      run_mutex_demo_def kernel_write_task_event_def kernel_run_semaphore_worker_def kernel_run_queue_producer_def
      kernel_run_queue_consumer_def)

lemma queue_call_advances:
  assumes at: "at_app w i" and prog: "ps i = Do a f" and a: "a = Queue_send m \<or> a = Queue_receive m"
    and m: "length m = unat (mq_message_size (sys_ring (w_queue w)))"
  shows "\<exists>e x'. app_step hw body (w, ps) e x' \<and> advanced (w, ps) i x'"
proof -
  note d = at_app_facts(4) [OF at]
  have queue: "at_queue (w_queue w) i" using at by (simp add: at_app_def)
  let ?next = "\<lambda>c. (w\<lparr>w_queue := (w_queue w)\<lparr>sys_code := (sys_code (w_queue w))(i := Some c)\<rparr>\<rparr>, ps)"
  have moved: "advanced (w, ps) i (?next c)" for c using d by (simp add: advanced_def)
  from a show ?thesis
  proof
    assume "a = Queue_send m"
    then have "app_step hw body (w, ps) [Send_called i m] (?next (os_message_queue_send False (Some m)))"
      using app_step.system [OF background.call_send [of ps i m f w, OF _ queue_step.send [OF queue d m]]] prog by simp
    then show ?thesis using moved by blast
  next
    assume "a = Queue_receive m"
    then have "app_step hw body (w, ps) [Receive_called i] (?next (os_message_queue_receive False (Some m)))"
      using app_step.system [OF background.call_receive [of ps i m f w, OF _ m at]] prog by simp
    then show ?thesis using moved by blast
  qed
qed

lemma local_action:
  assumes uart: "only_status hw" "fifo_drains hw" and at: "at_app w i" and wf: "kernel_wf (world_ipc w)"
    and a: "\<not> is_service a" "\<And>m. a \<noteq> Queue_send m" "\<And>m. a \<noteq> Queue_receive m"
  shows "\<exists>r e w'. performs hw w i a r e w'"
proof (cases a)
  case (Put c)
  then show ?thesis using performs.put [OF at] uart0_write_char_wrote [OF uart, of c "w_board w"] by blast
next
  case (Record rec)
  then show ?thesis using performs.recording [OF at] by (metis surj_pair)
next
  case (Sleep ms)
  obtain wakeup k where "os_sleep_entry (\<lambda>_. systick_handler) ms (world_ipc w) = Some (wakeup, k)"
    using os_sleep_entry_eq [OF wf] by (metis surj_pair)
  then show ?thesis using performs.sleep [OF at] Sleep by blast
next
  case (Sleep_until tick)
  then show ?thesis using performs.sleep_until [OF at] by blast
qed (use a in \<open>auto intro!: exI performs.intros(1-3,6,7) [OF at]\<close>)

lemma app_advances:
  assumes uart: "only_status hw" "fifo_drains hw"
    and wf: "app_wf w ps" and run: "running_task (world_ipc w) i" and none: "sys_code (w_queue w) i = None"
    and usage: "usage_inv demo q x0 ts es w" "usage_typed demo i (ps i)"
  shows "\<exists>e x'. app_step hw (app_body demo v) (w, ps) e x' \<and> advanced (w, ps) i x'"
proof -
  note r = running_taskD [OF run]
  have i: "i \<in> {1, 2, 3}" using r(4,5) usage(1) by (auto simp: usage_inv_def)
  have in_call: "in_call (ps i) (ipc_activity (world_ipc w) i)" by (rule app_wfD(3) [OF wf none])
  have at: "at_app w i" if "ipc_activity (world_ipc w) i = Outside"
    using that r(2,11) none by (auto simp: at_app_def at_queue_def)
  show ?thesis
  proof (cases "ps i")
    case (Continue locals)
    then have "ipc_activity (world_ipc w) i = Outside" using in_call by (cases "ipc_activity (world_ipc w) i") auto
    note next_pass = app_step.loop [where ps = ps and i = i, OF Continue at [OF this], of hw "app_body demo v"]
    have "advanced (w, ps) i (w, ps(i := app_body demo v i locals))"
      using body_acts [OF i] Continue by (simp add: advanced_def)
    then show ?thesis using next_pass by blast
  next
    case (Do a f)
    note performs = action_advances [where ps = ps and i = i and a = a and w = w and hw = hw and body = "app_body demo v", OF _ Do]
    show ?thesis
    proof (cases "is_service a")
      case True
      then obtain c where c: "a = Service c" by (cases a) simp_all
      have "ipc_activity (world_ipc w) i = Outside \<or> waits_in c (ipc_activity (world_ipc w) i)"
        using in_call Do c by (cases "ipc_activity (world_ipc w) i") auto
      moreover have "calls ps w i c" using none Do c by (simp add: calls_def)
      ultimately show ?thesis
        using call_advances [OF wf run] performs [OF performs.service [OF none, of c, folded c]] by blast
    next
      case False
      then have "ipc_activity (world_ipc w) i = Outside"
        using in_call Do by (cases a; cases "ipc_activity (world_ipc w) i") auto
      note at = at [OF this]
      show ?thesis
      proof (cases "\<exists>m. a = Queue_send m \<or> a = Queue_receive m")
        case True
        then obtain m where m: "a = Queue_send m \<or> a = Queue_receive m" by blast
        have "queue_demo demo" "length m = 12" using usage_action(2) [of demo i ps, OF usage(2) Do] m by auto
        moreover from this(1) have "mq_message_size (sys_ring (w_queue w)) = 12"
          using usage(1) run_message_size(1) [of q x0 es "w_queue w"] by (simp add: usage_inv_def)
        ultimately show ?thesis using queue_call_advances [where ps = ps, OF at Do m] by simp
      next
        case no_queue: False
        then obtain r e w' where "performs hw w i a r e w'"
          using local_action [OF uart at r(1) False] by blast
        then show ?thesis by (rule performs)
      qed
    qed
  qed
qed

end
