(* ===== verification/App_Sleep.thy ===== *)
theory App_Sleep
  imports App_System
begin

text \<open>
  The sleep test of the demonstration: each task measures its own sleeps. The invariant follows
  every task through one pass of its loop, with the number of ticks since the start, so that a
  measured time is a true duration, and shows that no task is woken early.
\<close>

section \<open>Runs with their duration\<close>

abbreviation world_ticks :: "world \<times> (nat \<Rightarrow> app) \<Rightarrow> u32" where
  "world_ticks x \<equiv> g_os_ticks (world_ipc (fst x))"

inductive timed_run ::
  "(board \<Rightarrow> board) \<Rightarrow> (nat \<Rightarrow> task_locals \<Rightarrow> app) \<Rightarrow> world \<times> (nat \<Rightarrow> app) \<Rightarrow> nat \<Rightarrow>
   world \<times> (nat \<Rightarrow> app) \<Rightarrow> bool" for hw body x0
where
  start: "timed_run hw body x0 0 x0"
| step: "timed_run hw body x0 n x \<Longrightarrow> app_step hw body x e x' \<Longrightarrow>
    timed_run hw body x0 (n + unat (world_ticks x' - world_ticks x)) x'"

section \<open>The three tests\<close>

definition sleep_ms :: "nat \<Rightarrow> u32" where
  "sleep_ms i = (if i = 1 then 500 else if i = 2 then 1000 else 2000)"

definition sleep_update ::
  "nat \<Rightarrow> (sleep_test_statistics_t \<Rightarrow> sleep_test_statistics_t) \<Rightarrow> statistics \<Rightarrow> statistics"
where
  "sleep_update i = (if i = 1 then g_task_1_sleep_stats_update
     else if i = 2 then g_task_2_sleep_stats_update else g_task_3_sleep_stats_update)"

definition sleep_led :: "nat \<Rightarrow> u32" where
  "sleep_led i = (if i = 1 then GREEN_LED else if i = 2 then RED_LED else BLUE_LED)"

definition sleep_stats_of :: "nat \<Rightarrow> statistics \<Rightarrow> sleep_test_statistics_t" where
  "sleep_stats_of i = (if i = 1 then g_task_1_sleep_stats
     else if i = 2 then g_task_2_sleep_stats else g_task_3_sleep_stats)"

definition tested :: "nat \<Rightarrow> bool" where
  "tested i \<longleftrightarrow> i = 1 \<or> i = 2 \<or> i = 3"

lemma sleep_stats_update:
  assumes "tested i" "tested j"
  shows "sleep_stats_of i (sleep_update j f s) = (if i = j then f (sleep_stats_of i s) else sleep_stats_of i s)"
  using assms by (auto simp: tested_def sleep_stats_of_def sleep_update_def)

lemma sleep_ms_range: "sleep_ms i \<noteq> 0" "unat (sleep_ms i) \<le> 2000"
  by (simp_all add: sleep_ms_def)

lemma sleep_test_body:
  "app_body Sleep_test v i locals =
     (if tested i then run_sleep_test (sleep_ms i) (sleep_update i) (sleep_led i) else Continue locals)"
  by (simp add: tested_def app_body_def app_task_1_def app_task_2_def app_task_3_def sleep_ms_def sleep_update_def sleep_led_def)

text \<open>
  The stages of a pass; the first number is the time since the start of the run at
  \<open>start_tick\<close>, the second that of the reading in \<open>os_sleep\<close>.
\<close>

datatype sleep_stage = Begun | Started nat | Going nat nat | Slept nat | Measured u32 | Toggling | Writing u32 | Finished

definition measured_code :: "nat \<Rightarrow> u32 \<Rightarrow> app" where
  "measured_code i e = Do (Write_statistics (sleep_update i (\<lambda>st. kernel_record_sleep_measurement st e)))
     (\<lambda>_. do_toggle (sleep_led i) (Continue No_locals))"

definition slept_code :: "nat \<Rightarrow> u32 \<Rightarrow> app" where
  "slept_code i start_tick = do_ticks (\<lambda>end_tick. measured_code i (end_tick - start_tick))"

fun stage_code :: "u32 \<Rightarrow> nat \<Rightarrow> sleep_stage \<Rightarrow> app" where
  "stage_code t0 i Begun = run_sleep_test (sleep_ms i) (sleep_update i) (sleep_led i)"
| "stage_code t0 i (Started s) = do_sleep (sleep_ms i) (slept_code i (t0 + of_nat s))"
| "stage_code t0 i (Going s e) = Do (Sleep_until (t0 + of_nat e + sleep_ms i)) (\<lambda>_. slept_code i (t0 + of_nat s))"
| "stage_code t0 i (Slept s) = slept_code i (t0 + of_nat s)"
| "stage_code t0 i (Measured e) = measured_code i e"
| "stage_code t0 i Toggling = do_toggle (sleep_led i) (Continue No_locals)"
| "stage_code t0 i (Writing v) = Do (Write_leds v) (\<lambda>_. Continue No_locals)"
| "stage_code t0 i Finished = Continue No_locals"

lemma stage_begun: "stage_code t0 i Begun = do_ticks (\<lambda>start_tick. do_sleep (sleep_ms i) (slept_code i start_tick))"
  by (simp add: run_sleep_test_def slept_code_def measured_code_def Let_def)

text \<open>
  After \<open>n\<close> ticks: at least \<open>ms\<close> ticks have passed since the start of a task that has slept, or
  it is still sleeping until a tick at which they will have.
\<close>

definition sleeps_until :: "u32 \<Rightarrow> nat \<Rightarrow> ipc \<Rightarrow> nat \<Rightarrow> nat \<Rightarrow> bool" where
  "sleeps_until t0 n k i s \<longleftrightarrow> s \<le> n \<and> (s + unat (sleep_ms i) \<le> n \<or>
     state_of k i = TASK_STATE_SLEEPING \<and>
     (\<exists>wake. s + unat (sleep_ms i) \<le> wake \<and> n < wake \<and> wake \<le> n + 2000 \<and>
       tcb_wakeup_tick (task_at k i) = t0 + of_nat wake))"

fun stage_ok :: "u32 \<Rightarrow> nat \<Rightarrow> ipc \<Rightarrow> nat \<Rightarrow> sleep_stage \<Rightarrow> bool" where
  "stage_ok t0 n k i (Started s) = (s \<le> n)"
| "stage_ok t0 n k i (Going s e) = (s \<le> e \<and> e \<le> n)"
| "stage_ok t0 n k i (Slept s) = sleeps_until t0 n k i s"
| "stage_ok t0 n k i (Measured e) = (sleep_ms i \<le> e \<and> unat e \<le> n)"
| "stage_ok t0 n k i _ = True"

definition never_early :: "u32 \<Rightarrow> nat \<Rightarrow> sleep_test_statistics_t \<Rightarrow> bool" where
  "never_early ms n s \<longleftrightarrow> requested_ticks s = ms \<and> early_wakeup_count s = 0 \<and>
     ms \<le> minimum_elapsed_ticks s \<and> unat (maximum_elapsed_ticks s) \<le> n"

lemma measurement_ok:
  assumes "never_early ms n s" "ms \<le> e" "unat e \<le> n"
  shows "never_early ms n (kernel_record_sleep_measurement s e)"
  using assms by (auto simp: never_early_def kernel_record_sleep_measurement_def Let_def)

section \<open>Time passes\<close>

lemma before_is_late:
  assumes "0 < m" "m \<le> 2000"
  shows "\<not> (- of_nat m :: u32) < 0x80000000"
proof -
  have "of_nat m + of_nat (2 ^ 32 - m) = (of_nat (m + (2 ^ 32 - m)) :: u32)" by (simp only: of_nat_add)
  also have "m + (2 ^ 32 - m) = 2 ^ 32" using assms by simp
  finally have "of_nat m + of_nat (2 ^ 32 - m) = (0 :: u32)" by simp
  then have "(- of_nat m :: u32) = of_nat (2 ^ 32 - m)" by (rule minus_unique)
  moreover have "unat (of_nat (2 ^ 32 - m) :: u32) = 2 ^ 32 - m" using assms by (intro unat_small_u32) simp
  ultimately show ?thesis using assms by (simp only: u32_less_unat) simp
qed

lemma stage_tick:
  assumes "stage_ok t0 n k i st" "kernel_wf k" "i < task_total k" "g_os_ticks k = t0 + of_nat n"
  shows "stage_ok t0 (Suc n) (systick_handler k) i st"
proof (cases st)
  case (Slept s)
  note task = systick_handler_task(1) [OF assms(2,3)]
  have ok: "sleeps_until t0 n k i s" using assms(1) Slept by simp
  show ?thesis
  proof (cases "s + unat (sleep_ms i) \<le> n")
    case True
    then show ?thesis using ok by (simp add: Slept sleeps_until_def)
  next
    case False
    then obtain wake where sleeping: "state_of k i = TASK_STATE_SLEEPING"
      and wake: "s + unat (sleep_ms i) \<le> wake" "n < wake" "wake \<le> n + 2000"
        "tcb_wakeup_tick (task_at k i) = t0 + of_nat wake"
      using ok by (auto simp: sleeps_until_def)
    let ?m = "wake - Suc n"
    have late: "g_os_ticks k + 1 - (t0 + of_nat wake) = - (of_nat ?m :: u32)"
      using wake(2) by (simp add: assms(4) of_nat_diff)
    have "- (of_nat ?m :: u32) < 0x80000000 \<longleftrightarrow> ?m = 0"
      using wake(3) before_is_late [of ?m] by (cases "?m = 0") auto
    then have "wakes_at (g_os_ticks k + 1) (task_at k i) \<longleftrightarrow> wake = Suc n"
      using sleeping wake(2) by (auto simp: wakes_at_def wake(4) late)
    then show ?thesis
      using ok wake sleeping by (auto simp: Slept sleeps_until_def task woken_def intro!: exI [of _ wake])
  qed
qed (use assms(1) in auto)

lemma stage_same_task:
  assumes "stage_ok t0 n k i st" "state_of k' i = state_of k i" "tcb_wakeup_tick (task_at k' i) = tcb_wakeup_tick (task_at k i)"
  shows "stage_ok t0 n k' i st"
  using assms by (cases st) (simp_all add: sleeps_until_def)

lemma stage_pendsv:
  assumes "stage_ok t0 n k i st" "kernel_wf k" "i < task_total k" "PendSV_Handler k = Some k'"
  shows "stage_ok t0 n k' i st"
proof (cases "state_of k i = TASK_STATE_SLEEPING")
  case True
  then have "asleep i (tcb_wakeup_tick (task_at k i)) k" using assms(2,3) by (simp add: asleep_def)
  from PendSV_asleep [OF this assms(4)] show ?thesis
    using stage_same_task [OF assms(1)] True by (simp add: asleep_def)
next
  case False
  then show ?thesis using assms(1) by (cases st) (simp_all add: sleeps_until_def)
qed

text \<open>The entry of the sleep reads the tick counter; its critical section leaves all other tasks alone.\<close>

lemma stage_entry:
  assumes "kernel_wf k" "current_index k = i" "i \<noteq> 0" "os_sleep_entry irq (sleep_ms i) k = Some (wakeup, k')"
  shows "k' = k" "map_option snd wakeup = Some (g_os_ticks k + sleep_ms i)"
proof -
  have "g_current_task_id k \<noteq> 0" using assms(2,3) by auto
  then show "k' = k" "map_option snd wakeup = Some (g_os_ticks k + sleep_ms i)"
    using assms(4) sleep_ms_range(1) [of i] by (auto simp: os_sleep_entry_eq [OF assms(1)])
qed

lemma stage_sleep:
  assumes "kernel_wf k" "thread_active k" "current_index k = i" "i \<noteq> 0"
    and k': "k' = os_sleep_critical (os_get_current_task_id k) (t0 + of_nat e + sleep_ms i) k"
    and "g_os_ticks k = t0 + of_nat n" "s \<le> e" "e \<le> n"
  shows "stage_ok t0 n k' i (Slept s)" "j \<noteq> i \<Longrightarrow> stage_ok t0 n k j st \<Longrightarrow> stage_ok t0 n k' j st"
    "g_os_ticks k' = g_os_ticks k" "g_task_count k' = g_task_count k"
proof -
  have "g_current_task_id k \<noteq> 0" using assms(3,4) by auto
  then have eq: "k' = (update_task i (\<lambda>t. t\<lparr>tcb_wakeup_tick := t0 + of_nat e + sleep_ms i,
      tcb_state := TASK_STATE_SLEEPING\<rparr>) k)\<lparr>g_scheduler_tick_count := 0, pendsv_pending := True\<rparr>"
    by (simp add: k' os_sleep_critical_eq [OF assms(1,2)] assms(3))
  have i: "i < length (g_task_table k)" using sched_wfD(2,4,5) [OF kernel_wfD(1) [OF assms(1)]] assms(3) by simp
  have "t0 + of_nat e + sleep_ms i = t0 + of_nat (e + unat (sleep_ms i))" by simp
  then show "stage_ok t0 n k' i (Slept s)"
    using assms(7,8) i sleep_ms_range(2) [of i]
    by (cases "s + unat (sleep_ms i) \<le> n") (auto simp: eq sleeps_until_def intro!: exI [of _ "e + unat (sleep_ms i)"])
  show "stage_ok t0 n k' j st" if "j \<noteq> i" "stage_ok t0 n k j st"
    using that(1) by (intro stage_same_task [OF that(2)]) (simp_all add: eq)
  show "g_os_ticks k' = g_os_ticks k" "g_task_count k' = g_task_count k" by (simp_all add: eq)
qed

text \<open>A running task has slept long enough.\<close>

lemma stage_awake:
  assumes "stage_ok t0 n k i (Slept s)" "kernel_wf k" "thread_active k" "current_index k = i"
    and "g_os_ticks k = t0 + of_nat n" "n < 2 ^ 32"
  shows "stage_ok t0 n k i (Measured (g_os_ticks k - (t0 + of_nat s)))"
proof -
  have "state_of k i = TASK_STATE_RUNNING" using kernel_wfD(7) [OF assms(2,3)] assms(4) by simp
  then have s: "s \<le> n" "s + unat (sleep_ms i) \<le> n" using assms(1) by (auto simp: sleeps_until_def)
  have e: "g_os_ticks k - (t0 + of_nat s) = of_nat (n - s)" using s(1) by (simp add: assms(5) of_nat_diff)
  have "unat (of_nat (n - s) :: u32) = n - s" using assms(6) by (intro unat_small_u32) simp
  then show ?thesis using s by (simp add: e u32_le_unat)
qed

section \<open>The invariant\<close>

definition stage_task :: "u32 \<Rightarrow> nat \<Rightarrow> world \<Rightarrow> (nat \<Rightarrow> app) \<Rightarrow> nat \<Rightarrow> bool" where
  "stage_task t0 n w ps i \<longleftrightarrow> (\<exists>st. ps i = stage_code t0 i st \<and> stage_ok t0 n (world_ipc w) i st) \<and>
     never_early (sleep_ms i) n (sleep_stats_of i (w_statistics w))"

definition sleep_inv :: "u32 \<Rightarrow> nat \<Rightarrow> world \<times> (nat \<Rightarrow> app) \<Rightarrow> bool" where
  "sleep_inv t0 n x \<longleftrightarrow> (case x of (w, ps) \<Rightarrow>
     app_wf w ps \<and> task_total (world_ipc w) = 4 \<and> g_os_ticks (world_ipc w) = t0 + of_nat n \<and>
     (\<forall>i. if tested i then stage_task t0 n w ps i else \<exists>locals. ps i = Continue locals))"

text \<open>No task of the sleep test calls a service.\<close>

lemma stage_no_service:
  "stage_code t0 i st \<noteq> Do (Service c) f" "stage_code t0 i st \<noteq> Do (Queue_send m) f"
  "stage_code t0 i st \<noteq> Do (Queue_receive m) f"
  by (cases st; simp add: stage_begun slept_code_def measured_code_def do_sleep_def do_toggle_def del: stage_code.simps(1))+

lemma sleep_outside:
  assumes "sleep_inv t0 n (w, ps)"
  shows "ps i \<noteq> Do (Service c) f" "ps i \<noteq> Do (Queue_send m) f" "ps i \<noteq> Do (Queue_receive m) f"
    "sys_code (w_queue w) i = None" "ipc_activity (world_ipc w) i = Outside"
proof -
  have wf: "app_wf w ps" and code: "if tested i then stage_task t0 n w ps i else \<exists>locals. ps i = Continue locals"
    using assms by (auto simp: sleep_inv_def)
  show no: "ps i \<noteq> Do (Service c) f" "ps i \<noteq> Do (Queue_send m) f" "ps i \<noteq> Do (Queue_receive m) f" for c f m
    using code by (auto simp: stage_task_def stage_no_service stage_no_service [symmetric] split: if_splits)
  have "\<not> queue_caller (ps i)" using no(2,3) by (auto elim!: queue_caller.elims)
  then show none: "sys_code (w_queue w) i = None" using app_wfD(4) [OF wf, of i] by (cases "sys_code (w_queue w) i") auto
  show "ipc_activity (world_ipc w) i = Outside"
    using app_wfD(3) [OF wf none] no(1) by (cases "(ps i, ipc_activity (world_ipc w) i)" rule: in_call.cases) auto
qed

lemma never_early_mono: "never_early ms n s \<Longrightarrow> n \<le> n' \<Longrightarrow> never_early ms n' s"
  by (auto simp: never_early_def)

text \<open>Steps in the background are interrupts and computation of the running task.\<close>

lemma sleep_background:
  assumes "background ps w e w'" "sleep_inv t0 n (w, ps)"
  obtains k where "w' = with_ipc w k" "k = systick_handler (world_ipc w)"
    | k where "w' = with_ipc w k" "PendSV_Handler (world_ipc w) = Some k"
    | k regs sp mem where "w' = with_ipc w k" "k = (world_ipc w)\<lparr>cpu_r4_r11 := regs, cpu_psp := sp, task_memory := mem\<rparr>"
  using assms(1)
proof (cases rule: background.cases)
  case (enter i c k)
  then show ?thesis using sleep_outside(1,4) [OF assms(2)] by (auto simp: calls_def)
qed (use that sleep_outside [OF assms(2)] in auto)

lemma sleep_inv_change:
  assumes "sleep_inv t0 n (w, ps)" "app_wf w' ps'" "n \<le> n'" "task_total (world_ipc w') = 4"
    "g_os_ticks (world_ipc w') = t0 + of_nat n'"
    and "\<And>i. \<not> tested i \<Longrightarrow> \<exists>locals. ps' i = Continue locals"
    and "\<And>i st. tested i \<Longrightarrow> ps i = stage_code t0 i st \<Longrightarrow> stage_ok t0 n (world_ipc w) i st \<Longrightarrow>
      \<exists>st'. ps' i = stage_code t0 i st' \<and> stage_ok t0 n' (world_ipc w') i st'"
    and "\<And>i. tested i \<Longrightarrow> never_early (sleep_ms i) n (sleep_stats_of i (w_statistics w)) \<Longrightarrow>
      never_early (sleep_ms i) n (sleep_stats_of i (w_statistics w'))"
  shows "sleep_inv t0 n' (w', ps')"
proof -
  have "stage_task t0 n' w' ps' i" if i: "tested i" for i
  proof -
    have "stage_task t0 n w ps i" using assms(1) i by (simp add: sleep_inv_def)
    then obtain st where "ps i = stage_code t0 i st" "stage_ok t0 n (world_ipc w) i st"
        "never_early (sleep_ms i) n (sleep_stats_of i (w_statistics w))"
      by (auto simp: stage_task_def)
    from assms(7) [OF i this(1,2)] assms(8) [OF i this(3)] show ?thesis
      using never_early_mono assms(3) by (auto simp: stage_task_def)
  qed
  then show ?thesis using assms(2,4-6) by (simp add: sleep_inv_def)
qed

lemma sleep_inv_background:
  assumes "background ps w e w'" "sleep_inv t0 n (w, ps)"
  shows "sleep_inv t0 (n + unat (world_ticks (w', ps) - world_ticks (w, ps))) (w', ps)"
proof -
  let ?k = "world_ipc w"
  have inv: "app_wf w ps" "task_total ?k = 4" "g_os_ticks ?k = t0 + of_nat n"
    "\<And>i. \<not> tested i \<Longrightarrow> \<exists>locals. ps i = Continue locals"
    using assms(2) by (auto simp: sleep_inv_def)
  have wf': "app_wf w' ps" by (rule background_step(1) [OF assms(1) inv(1)])
  have wf: "kernel_wf ?k" using app_wfD(1) [OF inv(1)] by (simp add: ipc_wf_def)
  have total: "i < task_total ?k" if "tested i" for i using that inv(2) by (auto simp: tested_def)
  note change = sleep_inv_change [OF assms(2) wf' _ _ _ inv(4)]
  show ?thesis
    using assms
  proof (cases rule: sleep_background)
    case (1 k)
    note tick = systick_handler_task [OF wf, of 1]
    show ?thesis
      by (rule change) (use 1 tick inv(2,3) stage_tick [OF _ wf total inv(3)] in \<open>auto simp: add.assoc\<close>)
  next
    case (2 k)
    note same = PendSV_effect(5,9) [OF kernel_wfD(1) [OF wf] 2(2)]
    show ?thesis
      by (rule change) (use 2 same inv(2,3) stage_pendsv [OF _ wf total 2(2)] in auto)
  next
    case (3 k regs sp mem)
    show ?thesis
      by (rule change) (use 3 inv(2,3) stage_same_task [of t0 n ?k _ _ k] in auto)
  qed
qed

text \<open>An action of a task moves it to the next stage.\<close>

lemma sleep_inv_task:
  assumes "sleep_inv t0 n (w, ps)" "app_wf w' (ps(i := a))" "tested i" "a = stage_code t0 i st" "stage_ok t0 n (world_ipc w') i st"
    and "world_ipc w' = world_ipc w" "\<And>j. tested j \<Longrightarrow> sleep_stats_of j (w_statistics w') = sleep_stats_of j (w_statistics w)"
  shows "sleep_inv t0 n (w', ps(i := a))"
proof (rule sleep_inv_change [OF assms(1,2)])
  show "\<exists>locals. (ps(i := a)) j = Continue locals" if "\<not> tested j" for j
    using that assms(1,3) by (auto simp: sleep_inv_def)
qed (use assms in \<open>auto simp: sleep_inv_def\<close>)

lemma sleep_inv_others:
  assumes "sleep_inv t0 n (w, ps)" "tested i" "\<not> tested j"
  shows "\<exists>locals. (ps(i := a)) j = Continue locals"
  using assms by (auto simp: sleep_inv_def)

lemma sleep_inv_kernel: "sleep_inv t0 n (w, ps) \<Longrightarrow> kernel_wf (world_ipc w)"
  using app_wfD(1) [of w ps] by (simp add: sleep_inv_def ipc_wf_def)

lemma sleep_inv_enters:
  assumes "sleep_inv t0 n (w, ps)" "tested i" "performs hw w i (Sleep (sleep_ms i)) r e w'"
  shows "r = Wakeup (Some (t0 + of_nat n + sleep_ms i))" "world_ipc w' = world_ipc w" "w_statistics w' = w_statistics w"
proof -
  obtain wakeup k where k: "at_app w i" "os_sleep_entry (\<lambda>_. systick_handler) (sleep_ms i) (world_ipc w) = Some (wakeup, k)"
      "w' = with_ipc w k" "r = Wakeup (map_option snd wakeup)"
    using assms(3) by (cases rule: performs.cases) auto
  have "i \<noteq> 0" using assms(2) by (auto simp: tested_def)
  note entry = stage_entry [OF sleep_inv_kernel [OF assms(1)] at_app_facts(2) [OF k(1), symmetric] this k(2)]
  show "r = Wakeup (Some (t0 + of_nat n + sleep_ms i))" "world_ipc w' = world_ipc w" "w_statistics w' = w_statistics w"
    using entry k(3,4) assms(1) by (simp_all add: sleep_inv_def)
qed

lemma sleep_inv_sleeps:
  assumes "sleep_inv t0 n (w, ps)" "app_wf w' (ps(i := stage_code t0 i (Slept s)))" "tested i" "s \<le> m" "m \<le> n"
    and "performs hw w i (Sleep_until (t0 + of_nat m + sleep_ms i)) r e w'"
  shows "sleep_inv t0 n (w', ps(i := stage_code t0 i (Slept s))) \<and> g_os_ticks (world_ipc w') = g_os_ticks (world_ipc w)"
proof -
  let ?k = "os_sleep_critical (os_get_current_task_id (world_ipc w)) (t0 + of_nat m + sleep_ms i) (world_ipc w)"
  have k: "at_app w i" "w' = with_ipc w ?k" using assms(6) by (cases rule: performs.cases; auto)+
  note at = at_app_facts [OF k(1)]
  have now: "g_os_ticks (world_ipc w) = t0 + of_nat n" "task_total (world_ipc w) = 4"
    using assms(1) by (simp_all add: sleep_inv_def)
  have "i \<noteq> 0" using assms(3) by (auto simp: tested_def)
  note slept = stage_sleep [OF sleep_inv_kernel [OF assms(1)] at(1) at(2) [symmetric] this refl now(1) assms(4,5)]
  have "sleep_inv t0 n (w', ps(i := stage_code t0 i (Slept s)))"
  proof (rule sleep_inv_change [OF assms(1,2) _ _ _ sleep_inv_others [OF assms(1,3)]])
    show "\<exists>st'. (ps(i := stage_code t0 i (Slept s))) j = stage_code t0 j st' \<and> stage_ok t0 n (world_ipc w') j st'"
      if "ps j = stage_code t0 j st" "stage_ok t0 n (world_ipc w) j st" for j st
      using that slept(1) slept(2) [of j st] k(2)
      by (cases "j = i") (auto intro: exI [of _ "Slept s"])
  qed (use slept(3,4) k(2) now in simp_all)
  then show ?thesis using slept(3) k(2) by simp
qed

lemma sleep_inv_records:
  assumes "sleep_inv t0 n (w, ps)" "app_wf w' (ps(i := stage_code t0 i Toggling))" "tested i" "sleep_ms i \<le> d" "unat d \<le> n"
    and "performs hw w i (Write_statistics (sleep_update i (\<lambda>st. kernel_record_sleep_measurement st d))) r e w'"
  shows "sleep_inv t0 n (w', ps(i := stage_code t0 i Toggling)) \<and> g_os_ticks (world_ipc w') = g_os_ticks (world_ipc w)"
proof -
  have w': "w' = w\<lparr>w_statistics := sleep_update i (\<lambda>st. kernel_record_sleep_measurement st d) (w_statistics w)\<rparr>"
    using assms(6) by (cases rule: performs.cases) auto
  have "sleep_inv t0 n (w', ps(i := stage_code t0 i Toggling))"
  proof (rule sleep_inv_change [OF assms(1,2) _ _ _ sleep_inv_others [OF assms(1,3)]])
    show "never_early (sleep_ms j) n (sleep_stats_of j (w_statistics w'))"
      if "tested j" "never_early (sleep_ms j) n (sleep_stats_of j (w_statistics w))" for j
      using that measurement_ok [OF _ assms(4,5)] by (auto simp: w' sleep_stats_update [OF _ assms(3)])
    show "\<exists>st'. (ps(i := stage_code t0 i Toggling)) j = stage_code t0 j st' \<and> stage_ok t0 n (world_ipc w') j st'"
      if "ps j = stage_code t0 j st" "stage_ok t0 n (world_ipc w) j st" for j st
      using that by (cases "j = i") (auto simp: w' intro: exI [of _ Toggling])
  qed (use w' assms(1) in \<open>simp_all add: sleep_inv_def\<close>)
  then show ?thesis by (simp add: w')
qed

lemma sleep_inv_ticks:
  assumes "performs hw w i Get_ticks r e w'"
  shows "r = Ticks (g_os_ticks (world_ipc w))" "w' = w" "thread_active (world_ipc w)" "current_index (world_ipc w) = i"
proof -
  have "r = Ticks (g_os_ticks (world_ipc w)) \<and> w' = w \<and> at_app w i"
    using assms by (cases rule: performs.cases) (simp_all add: os_get_ticks_def)
  then show "r = Ticks (g_os_ticks (world_ipc w))" "w' = w" "thread_active (world_ipc w)" "current_index (world_ipc w) = i"
    using at_app_facts(1,2) [of w i] by auto
qed

lemma sleep_inv_stage:
  assumes "sleep_inv t0 n (w, ps)" "ps i = Do a f"
  obtains st where "tested i" "ps i = stage_code t0 i st" "stage_ok t0 n (world_ipc w) i st"
proof -
  have i: "tested i" using assms by (auto simp: sleep_inv_def split: if_splits dest!: spec [of _ i])
  then have "stage_task t0 n w ps i" using assms(1) by (simp add: sleep_inv_def)
  then show ?thesis using that i by (auto simp: stage_task_def)
qed

lemma sleep_inv_action:
  assumes "ps i = Do a f" "performs hw w i a r e w'" "sleep_inv t0 n (w, ps)" "n < 2 ^ 32" "app_wf w' (ps(i := f r))"
  shows "sleep_inv t0 n (w', ps(i := f r)) \<and> g_os_ticks (world_ipc w') = g_os_ticks (world_ipc w)"
proof -
  let ?k = "world_ipc w"
  have now: "g_os_ticks ?k = t0 + of_nat n" using assms(3) by (simp add: sleep_inv_def)
  obtain st where i: "tested i" and st: "ps i = stage_code t0 i st" "stage_ok t0 n ?k i st"
    by (rule sleep_inv_stage [OF assms(3,1)])
  note task = sleep_inv_task [OF assms(3,5) i]
  have code: "stage_code t0 i st = Do a f" using st(1) assms(1) by simp
  show ?thesis
  proof (cases st)
    case Begun
    then have a: "a = Get_ticks" "f = (\<lambda>r. do_sleep (sleep_ms i) (slept_code i (ticks_of r)))"
      using code by (auto simp: stage_begun simp del: stage_code.simps(1))
    show ?thesis using task [of "Started n"] sleep_inv_ticks(1,2) [OF assms(2) [unfolded a(1)]] now by (simp add: a)
  next
    case (Started s)
    then have a: "a = Sleep (sleep_ms i)" "f (Wakeup (Some u)) = Do (Sleep_until u) (\<lambda>_. slept_code i (t0 + of_nat s))"
        "s \<le> n" for u using code st(2) by (auto simp: do_sleep_def)
    note entered = sleep_inv_enters [OF assms(3) i assms(2) [unfolded a(1)]]
    show ?thesis using task [of "Going s n"] entered a(2,3) by simp
  next
    case (Going s m)
    then have a: "a = Sleep_until (t0 + of_nat m + sleep_ms i)" "f = (\<lambda>_. stage_code t0 i (Slept s))" "s \<le> m" "m \<le> n"
      using code st(2) by auto
    show ?thesis using sleep_inv_sleeps [OF assms(3) _ i a(3,4) assms(2) [unfolded a(1)]] assms(5) by (simp add: a(2))
  next
    case (Slept s)
    then have a: "a = Get_ticks" "f = (\<lambda>r. measured_code i (ticks_of r - (t0 + of_nat s)))"
      using code by (auto simp: slept_code_def)
    note r = sleep_inv_ticks [OF assms(2) [unfolded a(1)]]
    have "stage_ok t0 n ?k i (Measured (g_os_ticks ?k - (t0 + of_nat s)))"
      by (rule stage_awake [OF _ sleep_inv_kernel [OF assms(3)] r(3,4) now assms(4)]) (use st(2) Slept in simp)
    then show ?thesis using task [of "Measured (g_os_ticks ?k - (t0 + of_nat s))"] r by (simp add: a)
  next
    case (Measured d)
    then have "a = Write_statistics (sleep_update i (\<lambda>st. kernel_record_sleep_measurement st d))"
        "f = (\<lambda>_. stage_code t0 i Toggling)" "sleep_ms i \<le> d" "unat d \<le> n"
      using code st(2) by (auto simp: measured_code_def)
    then show ?thesis using sleep_inv_records [OF assms(3) _ i] assms(2,5) by simp
  next
    case Toggling
    then have a: "a = Read_leds" "f = (\<lambda>r. stage_code t0 i (Writing (port_of r XOR sleep_led i)))"
      using code by (auto simp: do_toggle_def)
    have "w' = w" using assms(2) unfolding a by (cases rule: performs.cases) auto
    then show ?thesis using task [of "Writing (port_of r XOR sleep_led i)"] by (simp add: a)
  next
    case (Writing v)
    then have a: "a = Write_leds v" "f = (\<lambda>_. Continue No_locals)" using code by auto
    have "w' = w\<lparr>w_board := reg_write GPIO_PORTF_DATA_R v (w_board w)\<rparr>"
      using assms(2) unfolding a by (cases rule: performs.cases) auto
    then show ?thesis using task [of Finished] by (simp add: a)
  qed (use code in simp)
qed

lemma sleep_inv_step:
  assumes "app_step hw (app_body Sleep_test v) x e x'" "sleep_inv t0 n x" "n < 2 ^ 32"
  shows "sleep_inv t0 (n + unat (world_ticks x' - world_ticks x)) x'"
  using assms
proof (induction rule: app_step.induct)
  case (system ps w e w')
  then show ?case using sleep_inv_background by simp
next
  case (action ps i a f w r e w')
  have wf: "app_wf w ps" using action(3) by (simp add: sleep_inv_def)
  obtain st where "ps i = stage_code t0 i st" by (rule sleep_inv_stage [OF action(3,1)])
  then have "stage_code t0 i st = Do a f" using action(1) by simp
  then have "calls_foreign (f r)"
    by (cases st) (auto simp: stage_begun slept_code_def measured_code_def do_sleep_def do_toggle_def
        simp del: stage_code.simps(1) split: option.split)
  then have "app_wf w' (ps(i := f r))" by (rule performs_step(1) [OF action(2) wf action(1)])
  then show ?case using sleep_inv_action [OF action(1,2,3,4)] by simp
next
  case (loop ps i locals w)
  let ?a = "app_body Sleep_test v i locals"
  have wf: "app_wf w ps" using loop(3) by (simp add: sleep_inv_def)
  have "calls_foreign ?a" by (simp add: sleep_test_body run_sleep_test_def)
  then have wf': "app_wf w (ps(i := ?a))" using app_wf_continue [OF wf] at_app_facts(3,4) [OF loop(2)] by simp
  have "sleep_inv t0 n (w, ps(i := ?a))"
  proof (cases "tested i")
    case True
    then show ?thesis using sleep_inv_task [OF loop(3) wf' True, of Begun] by (simp add: sleep_test_body)
  next
    case False
    have "stage_task t0 n w (ps(i := ?a)) j" if j: "tested j" for j
    proof -
      have "stage_task t0 n w ps j" "j \<noteq> i" using loop(3) j False by (auto simp: sleep_inv_def)
      then show ?thesis by (simp add: stage_task_def)
    qed
    then show ?thesis using loop(3) wf' False by (simp add: sleep_inv_def sleep_test_body)
  qed
  then show ?case by simp
qed

lemma sleep_inv_run:
  assumes "timed_run hw (app_body Sleep_test v) x0 n x" "sleep_inv t0 0 x0" "n < 2 ^ 32"
  shows "sleep_inv t0 n x"
  using assms
proof induction
  case (step n x e x')
  then show ?case using sleep_inv_step [OF step(2)] by simp
qed simp

end
