(* ===== verification/App_Properties.thy ===== *)
theory App_Properties
  imports App_Progress App_Sleep Kernel_Main_Properties
begin

text \<open>
  Properties of the demonstration, from the state in which \<open>kernel_main\<close> leaves the system: under
  every interleaving of the tasks, interrupts and preemption, console lines stay whole, at most
  two tasks use the resource, messages arrive in sequence and sleeps last long enough, which is
  what the validation modes of \<open>kernel.c\<close> count; the tasks never deadlock, and a task that
  executes always gets on.
\<close>

section \<open>The start\<close>

definition boot_world :: "demo \<Rightarrow> os_state \<Rightarrow> world" where
  "boot_world demo st = \<lparr>w_queue = \<lparr>sys_ipc = booted_ipc demo st, sys_ring = message_ring.truncate (g_message_queue st),
       sys_code = \<lambda>_. None\<rparr>,
     w_statistics = statistics_initial, w_board = os_board st\<rparr>"

text \<open>The first pass of every task; the consumer's buffer \<open>b\<close> is uninitialised.\<close>

definition boot_tasks :: "demo \<Rightarrow> validation \<Rightarrow> u8 list \<Rightarrow> nat \<Rightarrow> app" where
  "boot_tasks demo v b i = app_body demo (with_buffer v) i (if i = 3 then Buffer b else No_locals)"

abbreviation demo_run ::
  "(board \<Rightarrow> board) \<Rightarrow> demo \<Rightarrow> validation \<Rightarrow> u8 list \<Rightarrow> os_state \<Rightarrow> queue_event list \<Rightarrow> world \<Rightarrow> (nat \<Rightarrow> app) \<Rightarrow> bool"
where
  "demo_run hw demo v b st es w ps \<equiv>
     app_run hw (app_body demo (with_buffer v)) (boot_world demo st, boot_tasks demo v b) es (w, ps)"

lemma buffer_length: "length (stale_digits (with_buffer v)) = 11"
  by (simp add: with_buffer_def)

lemma boot_wf:
  assumes "booted L app demo st"
  shows "app_wf (boot_world demo st) (boot_tasks demo v b)"
  using assms typed_foreign [OF app_body_typed [OF buffer_length]]
  by (simp add: app_wf_def boot_world_def boot_tasks_def booted_def booted_kernel)

lemma fresh_mutex_free: "mutex_holder (fresh_mutex m) = None"
  by (simp add: os_mutex_init_def mutex_holder_def)

lemma boot_console:
  assumes "booted L app demo st" "only_status hw" "fifo_drains hw"
  shows "console_inv hw (uart_output (os_board st)) (\<lambda>_. Free) [] (boot_world demo st)"
proof -
  obtain m where "g_console_mutex st = fresh_mutex m" using assms(1) by (auto simp: booted_def objects_ready_def)
  then have free: "mutex_holder (ipc_mutexes (booted_ipc demo st) console_mutex) = None"
    by (simp add: booted_kernel fresh_mutex_free)
  have "\<exists>ls. (\<forall>l \<in> set ls. \<exists>i \<in> {1, 2, 3}. task_line i l) \<and>
      uart_output (os_board st) = uart_output (os_board st) @ concat ls" by (intro exI [of _ "[]"]) simp
  then show ?thesis
    using free assms(2,3) by (simp add: console_inv_def console_user_def boot_world_def statistics_initial_def)
qed

lemma boot_resource:
  assumes "booted L app Semaphore_demo st"
  shows "resource_inv (\<lambda>_. No_unit) [] (boot_world Semaphore_demo st)"
proof -
  obtain x where "g_resource_semaphore st = fresh_semaphore 2 x" using assms by (auto simp: booted_def objects_ready_def)
  then have "ipc_semaphores (booted_ipc Semaphore_demo st) resource_semaphore = fresh_semaphore 2 x"
    by (simp add: booted_ipc_def kernel.defs ipc.defs)
  then show ?thesis
    by (simp add: resource_inv_def boot_world_def statistics_initial_def resource_users_def resource_counted_def
        os_semaphore_init_def semaphore_units_def)
qed

lemma boot_messages:
  assumes "booted L app (Message_queue_demo stress) st"
  defines "ts \<equiv> \<lambda>i. if i \<in> {1, 2} then Producing 0 else if i = 3 then Consuming else Silent"
  shows "message_inv checked (g_message_queue st) (booted_system (Message_queue_demo stress) st) ts [] (boot_world (Message_queue_demo stress) st)"
    "\<And>i. typed (message_discipline (message_queue_debug v)) i (boot_tasks (Message_queue_demo stress) v b i) (ts i)"
proof -
  have "history_ok checked c ts [] statistics_initial" for c
    unfolding history_ok_def
    by (intro exI [of _ "[]"] exI [of _ "\<lambda>_. Idle"])
      (auto simp: ts_def messages_ok_def in_sequence_def sent_by_def checked_ok_def statistics_initial_def)
  moreover have "queue_start (g_message_queue st) (booted_system (Message_queue_demo stress) st)" using assms(1) by (simp add: booted_def)
  moreover have "w_queue (boot_world (Message_queue_demo stress) st) = booted_system (Message_queue_demo stress) st"
    by (simp add: boot_world_def booted_system_def)
  moreover have "ts i \<noteq> Checking b" for i b by (simp add: ts_def)
  moreover have "w_statistics (boot_world (Message_queue_demo stress) st) = statistics_initial" by (simp add: boot_world_def)
  ultimately show "message_inv checked (g_message_queue st) (booted_system (Message_queue_demo stress) st) ts [] (boot_world (Message_queue_demo stress) st)"
    by (simp add: message_inv_def queue_run.start)
  fix i
  have "message_queue_debug (with_buffer v) = message_queue_debug v" by (simp add: with_buffer_def)
  moreover have "message_at_loop i (if i = 3 then Buffer b else No_locals) (ts i)"
    by (auto simp: message_at_loop_def ts_def)
  ultimately show "typed (message_discipline (message_queue_debug v)) i (boot_tasks (Message_queue_demo stress) v b i) (ts i)"
    using message_body_typed [OF buffer_length, of i _ "ts i" v] by (simp add: boot_tasks_def)
qed

lemma boot_usage:
  assumes "booted L app demo st"
  shows "usage_inv demo (g_message_queue st) (booted_system demo st) (\<lambda>_. ()) [] (boot_world demo st)"
    "length b = 12 \<Longrightarrow> typed (usage_discipline demo) i (boot_tasks demo v b i) ()"
proof -
  have "mq_message_size (g_message_queue st) = 12" if demo: "queue_demo demo"
  proof -
    have "objects_ready demo st" using assms by (simp add: booted_def)
    then obtain bytes q where "g_message_queue st = fresh_queue demo bytes q"
      using demo by (auto simp: objects_ready_def)
    then show ?thesis
      using fresh_queue_init [of q bytes demo] os_message_queue_init_outcome [of None 12 "KERNEL_MESSAGE_QUEUE_CAPACITY demo" q bytes]
      by (auto split: if_splits)
  qed
  moreover have "task_total (world_ipc (boot_world demo st)) = 4"
    using assms by (simp add: boot_world_def booted_kernel booted_def)
  moreover have "w_queue (boot_world demo st) = booted_system demo st" by (simp add: boot_world_def booted_system_def)
  ultimately show "usage_inv demo (g_message_queue st) (booted_system demo st) (\<lambda>_. ()) [] (boot_world demo st)"
    using assms by (auto simp: usage_inv_def booted_def intro: queue_run.start)
  show "typed (usage_discipline demo) i (boot_tasks demo v b i) ()" if "length b = 12"
    using usage_body [OF buffer_length, of demo i "if i = 3 then Buffer b else No_locals" v] that
    by (simp add: boot_tasks_def usage_discipline_def)
qed

lemma boot_sleep:
  assumes "booted L app Sleep_test st"
  shows "sleep_inv (g_os_ticks st) 0 (boot_world Sleep_test st, boot_tasks Sleep_test v b)"
proof -
  let ?w = "boot_world Sleep_test st" and ?ps = "boot_tasks Sleep_test v b"
  have "stage_task (g_os_ticks st) 0 ?w ?ps i" if "tested i" for i
    using that unfolding stage_task_def
    by (intro conjI exI [of _ Begun])
      (auto simp: boot_tasks_def sleep_test_body boot_world_def statistics_initial_def sleep_statistics_initial_def
        never_early_def tested_def sleep_ms_def sleep_stats_of_def)
  moreover have "\<not> tested i \<Longrightarrow> \<exists>locals. ?ps i = Continue locals" for i by (simp add: boot_tasks_def sleep_test_body)
  moreover have "task_total (world_ipc ?w) = 4" using assms by (simp add: boot_world_def booted_kernel booted_def)
  moreover have "g_os_ticks (world_ipc ?w) = g_os_ticks st" by (simp add: boot_world_def booted_ipc_def kernel.defs ipc.defs)
  ultimately show ?thesis using boot_wf [OF assms] by (simp add: sleep_inv_def)
qed

text \<open>What every run of a demo keeps.\<close>

lemma run_console:
  assumes "booted L app demo st" "only_status hw" "fifo_drains hw" "demo_run hw demo v b st es w ps"
  obtains ts where "console_inv hw (uart_output (os_board st)) ts es w" "\<And>i. typed console_discipline i (ps i) (ts i)" "app_wf w ps"
proof -
  have "console.good hw (uart_output (os_board st)) (\<lambda>_. Free) [] (boot_world demo st, boot_tasks demo v b)"
    using boot_wf [OF assms(1)] boot_console [OF assms(1-3)] app_body_typed [OF buffer_length]
    by (simp add: console.good_def boot_tasks_def)
  from console.run_good [OF assms(4) this] show ?thesis using that by (auto simp: console.good_def)
qed

lemma run_resource:
  assumes "booted L app Semaphore_demo st" "demo_run hw Semaphore_demo v b st es w ps"
  obtains ts where "resource_inv ts es w" "\<And>i. typed resource_discipline i (ps i) (ts i)"
proof -
  have "resource.good (\<lambda>_. No_unit) [] (boot_world Semaphore_demo st, boot_tasks Semaphore_demo v b)"
    using boot_wf [OF assms(1)] boot_resource [OF assms(1)] resource_body_typed [OF buffer_length]
    by (simp add: resource.good_def boot_tasks_def)
  from resource.run_good [OF assms(2) this] show ?thesis using that by (auto simp: resource.good_def)
qed

lemma run_messages:
  assumes "booted L app (Message_queue_demo stress) st" "demo_run hw (Message_queue_demo stress) v b st es w ps"
  obtains ts where
    "message_inv (message_queue_debug v) (g_message_queue st) (booted_system (Message_queue_demo stress) st) ts es w"
    "\<And>i. typed (message_discipline (message_queue_debug v)) i (ps i) (ts i)"
proof -
  let ?ts = "\<lambda>i. if i \<in> {1, 2} then Producing 0 else if i = 3 then Consuming else Silent"
  have "messages.good v (g_message_queue st) (booted_system (Message_queue_demo stress) st) ?ts []
      (boot_world (Message_queue_demo stress) st, boot_tasks (Message_queue_demo stress) v b)"
    using boot_wf [OF assms(1)] boot_messages [OF assms(1)] by (simp add: messages.good_def)
  from messages.run_good [OF assms(2) this] show ?thesis using that by (auto simp: messages.good_def)
qed

lemma run_usage:
  assumes "booted L app demo st" "length b = 12" "demo_run hw demo v b st es w ps"
  shows "usage_inv demo (g_message_queue st) (booted_system demo st) (\<lambda>_. ()) es w"
    "typed (usage_discipline demo) i (ps i) ()"
proof -
  have "usage.good demo (g_message_queue st) (booted_system demo st) (\<lambda>_. ()) [] (boot_world demo st, boot_tasks demo v b)"
    using boot_wf [OF assms(1)] boot_usage [OF assms(1)] assms(2) by (simp add: usage.good_def)
  from usage.run_good [OF assms(3) this]
  show "usage_inv demo (g_message_queue st) (booted_system demo st) (\<lambda>_. ()) es w"
    "typed (usage_discipline demo) i (ps i) ()"
    by (auto simp: usage.good_def usage_inv_def)
qed

section \<open>Properties\<close>

text \<open>
  (C9) Freedom from deadlock: in every demo, with or without the stress test, and under every
  interleaving, never are all three tasks BLOCKED. Console mutex, resource semaphore, the mutex
  of the queue and its two semaphores are never held in a cycle, and a producer and the
  consumer never wait for each other.
\<close>

theorem demo_never_deadlocks:
  assumes "booted L app demo st" "only_status hw" "fifo_drains hw" "length b = 12"
    and "demo_run hw demo v b st es w ps"
  shows "\<exists>i \<in> {1, 2, 3}. state_of (world_ipc w) i \<noteq> TASK_STATE_BLOCKED"
proof (rule ccontr)
  assume "\<not> ?thesis"
  then have state: "\<And>i. i \<in> {1, 2, 3} \<Longrightarrow> state_of (world_ipc w) i = TASK_STATE_BLOCKED" by blast
  note usage = run_usage [OF assms(1,4,5)]
  have blocked: "task_blocked (world_ipc w) i" if "i \<in> {1, 2, 3}" for i
    using state [OF that] usage(1) that by (auto simp: task_blocked_def usage_inv_def)
  obtain ts where console: "console_inv hw (uart_output (os_board st)) ts es w"
      "\<And>i. typed console_discipline i (ps i) (ts i)" and wf: "app_wf w ps"
    using run_console [OF assms(1-3,5)] by blast
  have elsewhere: "ipc_activity (world_ipc w) i \<noteq> Locking console_mutex" if "i \<in> {1, 2, 3}" for i
    using console_owner_not_blocked [OF wf usage(2) console blocked [OF that]] blocked by blast
  have inside: "ipc_activity (world_ipc w) i \<noteq> Outside" if "i \<in> {1, 2, 3}" for i
    using ipc_wfD(4) [OF app_wfD(1) [OF wf] blocked [OF that]] .
  have at: "demo = Semaphore_demo \<and> ipc_activity (world_ipc w) i = Waiting resource_semaphore \<or>
      queue_demo demo \<and> sys_code (w_queue w) i \<noteq> None" if "i \<in> {1, 2, 3}" for i
  proof -
    from waiting_cases [OF wf usage(2) inside [OF that]] show ?thesis
      using elsewhere [OF that] by cases auto
  qed
  show False
  proof (cases demo)
    case Semaphore_demo
    obtain us where "resource_inv us es w" "\<And>i. typed resource_discipline i (ps i) (us i)"
      using run_resource [of L app st] assms(1,5) Semaphore_demo by blast
    from resource_not_all_waiting [OF wf usage(2) this] show ?thesis using blocked at Semaphore_demo by auto
  next
    case (Message_queue_demo stress)
    obtain us where
      "message_inv (message_queue_debug v) (g_message_queue st) (booted_system (Message_queue_demo stress) st) us es w"
      "\<And>i. typed (message_discipline (message_queue_debug v)) i (ps i) (us i)"
      using run_messages [of L app stress st] assms(1,5) Message_queue_demo by blast
    from queue_not_all_waiting [OF wf usage(2) this] show ?thesis using blocked at Message_queue_demo by auto
  qed (use at [of 1] in simp_all)
qed

text \<open>
  (C13) Progress: whenever a task of a demo executes, the system has a step in which that task
  gets on: its next action completes, it moves on inside the queue service, or it enters or
  blocks in a call that has to wait. So every action of the task bodies can be performed in
  every state that a run reaches: each service call returns or blocks, every character is sent,
  and every message has the size the queue was initialised with. And the critical section of a
  sleep is always accepted: it puts the task to sleep.
\<close>

theorem demo_task_advances:
  assumes "booted L app demo st" "only_status hw" "fifo_drains hw" "length b = 12"
    and "demo_run hw demo v b st es w ps"
    and "thread_active (world_ipc w)" "i = current_index (world_ipc w)" "i \<noteq> 0"
  shows "(\<exists>e x. app_step hw (app_body demo (with_buffer v)) (w, ps) e x \<and> advanced (w, ps) i x) \<and>
    (\<forall>tick f. ps i = Do (Sleep_until tick) f \<longrightarrow>
      fst (task_sleep_until (os_get_current_task_id (world_ipc w)) tick (world_ipc w)) = TASK_OK)"
proof (intro conjI)
  note usage = run_usage [OF assms(1,4,5)]
  obtain ts where wf: "app_wf w ps" using run_console [OF assms(1-3,5)] by blast
  have run: "running_task (world_ipc w) i"
    using ipc_wfD(1) [OF app_wfD(1) [OF wf]] assms(6-8) by (simp add: running_task_def)
  note r = running_taskD [OF run]
  show "\<forall>tick f. ps i = Do (Sleep_until tick) f \<longrightarrow>
      fst (task_sleep_until (os_get_current_task_id (world_ipc w)) tick (world_ipc w)) = TASK_OK"
    using assms(7,8) sched_wfD(2) [OF kernel_wfD(1) [OF r(1)]] kernel_wfD(7) [OF r(1) assms(6)]
    by (auto simp: task_sleep_until_eq os_get_current_task_id_def)
  show "\<exists>e x. app_step hw (app_body demo (with_buffer v)) (w, ps) e x \<and> advanced (w, ps) i x"
  proof (cases "sys_code (w_queue w) i")
    case None
    then show ?thesis by (rule app_advances [OF assms(2,3) wf run _ usage])
  next
    case (Some c)
    then show ?thesis by (rule code_advances [OF wf run])
  qed
qed

text \<open>
  (C16) Typing of the tasks: in every demo and validation mode each task body follows the console
  discipline (characters are sent only while holding the console mutex, in one complete line
  that names the task) and the resource discipline (a unit is taken before and given back after
  its use, and the user is counted only in between); the bodies of the queue demo follow the
  message discipline: producers send consecutive sequence numbers, the consumer checks every
  message it has received.
\<close>

theorem demo_tasks_well_typed:
  "typed console_discipline i (app_body demo (with_buffer v) i locals) Free \<and>
   typed resource_discipline i (app_body demo (with_buffer v) i locals) No_unit \<and>
   typed (message_discipline (message_queue_debug v)) 1
     (app_body (Message_queue_demo stress) (with_buffer v) 1 (Sequence (of_nat n))) (Producing n) \<and>
   typed (message_discipline (message_queue_debug v)) 2
     (app_body (Message_queue_demo stress) (with_buffer v) 2 (Sequence (of_nat n))) (Producing n) \<and>
   typed (message_discipline (message_queue_debug v)) 3
     (app_body (Message_queue_demo stress) (with_buffer v) 3 (Buffer b)) Consuming"
proof -
  have "typed (message_discipline (message_queue_debug v)) j (app_body (Message_queue_demo stress) (with_buffer v) j l) t"
    if "message_at_loop j l t" for j l t
    using message_body_typed [OF buffer_length that, of v] by (simp add: with_buffer_def)
  moreover have "message_at_loop 1 (Sequence (of_nat n)) (Producing n)" "message_at_loop 2 (Sequence (of_nat n)) (Producing n)"
    "message_at_loop 3 (Buffer b) Consuming" by (auto simp: message_at_loop_def)
  ultimately show ?thesis
    using app_body_typed [OF buffer_length, of i demo v locals] resource_body_typed [OF buffer_length, of i demo v locals]
    by simp
qed

text \<open>
  (C8) Console lines never mix: whatever the interleaving, the tasks' output is a sequence of
  complete lines, each naming one of the three tasks. Only while a task holds the console mutex
  can an incomplete line follow them, and that is then the beginning of a line of this task. With
  the mutex validation enabled it records no violation and no error.
\<close>

theorem console_lines_never_mix:
  assumes "booted L app demo st" "only_status hw" "fifo_drains hw" "demo_run hw demo v b st es w ps"
  shows "\<exists>ls p. (\<forall>l \<in> set ls. \<exists>i \<in> {1, 2, 3}. task_line i l) \<and>
    uart_output (w_board w) = uart_output (os_board st) @ concat ls @ p \<and>
    (case mutex_holder (ipc_mutexes (world_ipc w) console_mutex) of
       None \<Rightarrow> p = []
     | Some i \<Rightarrow> i \<in> {1, 2, 3} \<and> (\<exists>rest. task_line i (p @ rest))) \<and>
    g_mutex_violation_count (w_statistics w) = 0 \<and> g_mutex_error_count (w_statistics w) = 0"
proof -
  obtain ts where inv: "console_inv hw (uart_output (os_board st)) ts es w"
      and typed: "\<And>i. typed console_discipline i (ps i) (ts i)"
    using run_console [OF assms] by blast
  let ?holder = "mutex_holder (ipc_mutexes (world_ipc w) console_mutex)"
  have held: "i \<in> {1, 2, 3} \<and> (\<exists>rest. task_line i (text_of (console_user ts (world_ipc w)) @ rest))"
    if holder: "?holder = Some i" for i
  proof -
    have "ts i \<noteq> Free" "console_user ts (world_ipc w) = ts i"
      using inv holder by (simp_all add: console_inv_def console_user_def)
    then show ?thesis using holding_line [of i "ps i"] typed [of i] by (cases "ts i") simp_all
  qed
  have "text_of (console_user ts (world_ipc w)) = []" if "?holder = None"
    using that by (simp add: console_user_def)
  then have tail: "case ?holder of None \<Rightarrow> text_of (console_user ts (world_ipc w)) = []
      | Some i \<Rightarrow> i \<in> {1, 2, 3} \<and> (\<exists>rest. task_line i (text_of (console_user ts (world_ipc w)) @ rest))"
    using held by (simp split: option.split)
  obtain ls where "\<forall>l \<in> set ls. \<exists>i \<in> {1, 2, 3}. task_line i l"
      "uart_output (w_board w) = uart_output (os_board st) @ concat ls @ text_of (console_user ts (world_ipc w))"
      "g_mutex_violation_count (w_statistics w) = 0" "g_mutex_error_count (w_statistics w) = 0"
    using inv by (auto simp only: console_inv_def)
  with tail show ?thesis by blast
qed

text \<open>
  (C11) The resource has at most two users: in the semaphore demo the number of tasks between
  their enter and exit records never exceeds the capacity, and the validation records neither a
  violation nor an error, under every interleaving.
\<close>

theorem resource_users_within_capacity:
  assumes "booted L app Semaphore_demo st" "demo_run hw Semaphore_demo v b st es w ps"
  shows "g_semaphore_active_users (w_statistics w) \<le> KERNEL_SEMAPHORE_RESOURCE_CAPACITY \<and>
    g_semaphore_max_active_users (w_statistics w) \<le> KERNEL_SEMAPHORE_RESOURCE_CAPACITY \<and>
    g_semaphore_violation_count (w_statistics w) = 0 \<and> g_semaphore_error_count (w_statistics w) = 0"
proof -
  obtain ts where inv: "resource_inv ts es w" using run_resource [OF assms] by blast
  then have "resource_counted ts \<le> 2" using counted_le_users(1) [of ts] by (simp add: resource_inv_def)
  then have "resource_counted ts = 0 \<or> resource_counted ts = 1 \<or> resource_counted ts = 2" by auto
  then show ?thesis using inv by (auto simp: resource_inv_def)
qed

text \<open>
  (C7) Messages arrive in sequence: in the queue demo every message comes from producer 1 or 2,
  the messages of a producer carry consecutive sequence numbers from 0, and they are received
  in the order in which they were sent. The consumer's validation therefore records no
  sequence error, and its counters count exactly the messages it has checked, all received
  messages but at most the last.
\<close>

theorem messages_arrive_in_sequence:
  assumes "booted L app (Message_queue_demo stress) st" "message_queue_debug v" "demo_run hw (Message_queue_demo stress) v b st es w ps"
  shows "g_message_queue_sequence_error_count (w_statistics w) = 0 \<and>
    (\<exists>ms. enqueued es = dequeued es @ ms) \<and> messages_ok (enqueued es) \<and>
    (\<exists>seen rest. dequeued es = seen @ rest \<and> length rest \<le> 1 \<and> checked_ok seen (w_statistics w))"
proof -
  obtain ts where
    inv: "message_inv (message_queue_debug v) (g_message_queue st) (booted_system (Message_queue_demo stress) st) ts es w"
    using run_messages [OF assms(1,3)] by blast
  then have hist: "history_ok True (unat (mq_capacity (g_message_queue st))) ts es (w_statistics w)"
    using assms(2) by (simp add: message_inv_def)
  obtain ms pr seen where h: "spec_run (unat (mq_capacity (g_message_queue st))) es ([], \<lambda>_. Idle) = Some (ms, pr)"
      "messages_ok (enqueued es)" "dequeued es = seen @ pending (ts 3) (pr 3)" "checked_ok seen (w_statistics w)"
      "g_message_queue_sequence_error_count (w_statistics w) = 0"
    using hist unfolding history_ok_def by auto
  have "length (pending (ts 3) (pr 3)) \<le> 1" by (cases "ts 3"; cases "pr 3") simp_all
  then show ?thesis using h spec_fifo [OF h(1)] by auto
qed

text \<open>
  (C12) No early wakeup: in the sleep test every measured sleep lasts at least the requested
  time, for each of the three tasks, under every interleaving, as long as fewer than \<open>2 ^ 32\<close>
  ticks have passed since the start (49 days); so the validation counts no early wakeup, and no
  measurement exceeds the time that has passed.
\<close>

theorem sleep_test_never_early:
  assumes "booted L app Sleep_test st" "n < 2 ^ 32"
    and "timed_run hw (app_body Sleep_test (with_buffer v)) (boot_world Sleep_test st, boot_tasks Sleep_test v b) n (w, ps)"
  shows "never_early 500 n (g_task_1_sleep_stats (w_statistics w)) \<and>
    never_early 1000 n (g_task_2_sleep_stats (w_statistics w)) \<and>
    never_early 2000 n (g_task_3_sleep_stats (w_statistics w))"
proof -
  have "sleep_inv (g_os_ticks st) n (w, ps)" by (rule sleep_inv_run [OF assms(3) boot_sleep [OF assms(1)] assms(2)])
  then have "stage_task (g_os_ticks st) n w ps i" if "tested i" for i using that by (simp add: sleep_inv_def)
  from this [of 1] this [of 2] this [of 3] show ?thesis
    by (simp add: stage_task_def tested_def sleep_ms_def sleep_stats_of_def)
qed

section \<open>A concrete start\<close>

text \<open>The system that the concrete start reaches, and one timer interrupt after it.\<close>

lemma demo_booted: "\<exists>st. booted demo_layout demo_entries demo st"
  using kernel_main_result [OF demo_layout_ok demo_entries_ok demo_env_ok demo_reset_statics(1)] by blast

lemma demo_tick:
  assumes "booted L app demo st"
  shows "\<exists>w. demo_run hw demo v b st [] w (boot_tasks demo v b) \<and> g_os_ticks (world_ipc w) = g_os_ticks st + 1"
proof -
  let ?w = "boot_world demo st"
  let ?w' = "with_ipc ?w (systick_handler (world_ipc ?w))"
  have wf: "kernel_wf (world_ipc ?w)" using assms by (simp add: boot_world_def booted_def booted_kernel)
  have mask: "cpu_primask (world_ipc ?w) = 0" using wf by (simp add: kernel_wf_def)
  have "g_os_ticks (world_ipc ?w') = g_os_ticks (world_ipc ?w) + 1"
    by (simp add: systick_handler_eq [OF kernel_wfD(1-3) [OF wf]] ticked_def)
  moreover have "g_os_ticks (world_ipc ?w) = g_os_ticks st" by (simp add: boot_world_def booted_ipc_def kernel.defs ipc.defs)
  moreover have "app_run hw (app_body demo (with_buffer v)) (?w, boot_tasks demo v b) ([] @ []) (?w', boot_tasks demo v b)"
    by (rule app_run.step [OF app_run.start app_step.system [OF background.systick [OF mask]]])
  ultimately show ?thesis by auto
qed

lemma demo_timed_tick:
  assumes "booted L app demo st"
  shows "\<exists>w. timed_run hw body (boot_world demo st, ps) 1 (w, ps)"
proof -
  let ?w = "boot_world demo st"
  let ?w' = "with_ipc ?w (systick_handler (world_ipc ?w))"
  have wf: "kernel_wf (world_ipc ?w)" using assms by (simp add: boot_world_def booted_def booted_kernel)
  have mask: "cpu_primask (world_ipc ?w) = 0" using wf by (simp add: kernel_wf_def)
  have one: "g_os_ticks (world_ipc ?w') = g_os_ticks (world_ipc ?w) + 1"
    by (simp add: systick_handler_eq [OF kernel_wfD(1-3) [OF wf]] ticked_def)
  have "timed_run hw body (?w, ps) (0 + unat (world_ticks (?w', ps) - world_ticks (?w, ps))) (?w', ps)"
    by (rule timed_run.step [OF timed_run.start app_step.system [OF background.systick [OF mask]]])
  then show ?thesis using one by (intro exI [of _ ?w']) simp
qed

definition demo_validation :: validation where
  "demo_validation = \<lparr>mutex_debug = True, semaphore_debug = True, message_queue_debug = True,
     stale_digits = replicate 11 (CHR 0x55)\<rparr>"

theorem console_lines_never_mix_witness:
  "\<exists>st w ps. demo_run demo_hardware Mutex_demo demo_validation [] st [] w ps \<and>
     g_os_ticks (world_ipc w) = g_os_ticks st + 1 \<and> g_mutex_violation_count (w_statistics w) = 0"
proof -
  obtain st where st: "booted demo_layout demo_entries Mutex_demo st" using demo_booted by blast
  obtain w where w: "demo_run demo_hardware Mutex_demo demo_validation [] st [] w (boot_tasks Mutex_demo demo_validation [])"
      "g_os_ticks (world_ipc w) = g_os_ticks st + 1"
    using demo_tick [OF st] by blast
  show ?thesis
    using console_lines_never_mix [OF st demo_hardware_ok(1,3) w(1)] w by blast
qed

theorem demo_never_deadlocks_witness:
  "\<exists>st w ps. demo_run demo_hardware (Message_queue_demo True) demo_validation (replicate 12 0) st [] w ps \<and>
     g_os_ticks (world_ipc w) = g_os_ticks st + 1 \<and> (\<exists>i \<in> {1, 2, 3}. state_of (world_ipc w) i \<noteq> TASK_STATE_BLOCKED)"
proof -
  obtain st where st: "booted demo_layout demo_entries (Message_queue_demo True) st" using demo_booted by blast
  obtain w where w: "demo_run demo_hardware (Message_queue_demo True) demo_validation (replicate 12 0) st [] w
        (boot_tasks (Message_queue_demo True) demo_validation (replicate 12 0))"
      "g_os_ticks (world_ipc w) = g_os_ticks st + 1"
    using demo_tick [OF st] by blast
  have "length (replicate 12 0 :: u8 list) = 12" by simp
  from demo_never_deadlocks [OF st demo_hardware_ok(1,3) this w(1)] show ?thesis using w by blast
qed

text \<open>Task 1 of the queue demo executes when the system has started.\<close>

theorem demo_task_advances_witness:
  "\<exists>st e x. booted demo_layout demo_entries (Message_queue_demo False) st \<and>
     app_step demo_hardware (app_body (Message_queue_demo False) (with_buffer demo_validation))
       (boot_world (Message_queue_demo False) st, boot_tasks (Message_queue_demo False) demo_validation (replicate 12 0)) e x \<and>
     advanced (boot_world (Message_queue_demo False) st, boot_tasks (Message_queue_demo False) demo_validation (replicate 12 0)) 1 x"
proof -
  obtain st where st: "booted demo_layout demo_entries (Message_queue_demo False) st" using demo_booted by blast
  let ?w = "boot_world (Message_queue_demo False) st"
  have "length (replicate 12 0 :: u8 list) = 12" by simp
  note next_step = demo_task_advances [OF st demo_hardware_ok(1,3) this app_run.start, where v = demo_validation and i = 1]
  have "thread_active (world_ipc ?w)" "1 = current_index (world_ipc ?w)"
    using st by (simp_all add: booted_def boot_world_def booted_ipc_def thread_active_def kernel.defs ipc.defs)
  from next_step [OF this] st show ?thesis by auto
qed

theorem resource_users_within_capacity_witness:
  "\<exists>st w ps. demo_run demo_hardware Semaphore_demo demo_validation [] st [] w ps \<and>
     g_os_ticks (world_ipc w) = g_os_ticks st + 1 \<and> g_semaphore_violation_count (w_statistics w) = 0"
proof -
  obtain st where st: "booted demo_layout demo_entries Semaphore_demo st" using demo_booted by blast
  obtain w where w: "demo_run demo_hardware Semaphore_demo demo_validation [] st [] w (boot_tasks Semaphore_demo demo_validation [])"
      "g_os_ticks (world_ipc w) = g_os_ticks st + 1"
    using demo_tick [OF st] by blast
  show ?thesis using resource_users_within_capacity [OF st w(1)] w by blast
qed

theorem messages_arrive_in_sequence_witness:
  "\<exists>st w ps. demo_run demo_hardware (Message_queue_demo False) demo_validation (replicate 12 0) st [] w ps \<and>
     g_os_ticks (world_ipc w) = g_os_ticks st + 1 \<and> g_message_queue_sequence_error_count (w_statistics w) = 0"
proof -
  obtain st where st: "booted demo_layout demo_entries (Message_queue_demo False) st" using demo_booted by blast
  obtain w where w: "demo_run demo_hardware (Message_queue_demo False) demo_validation (replicate 12 0) st [] w
        (boot_tasks (Message_queue_demo False) demo_validation (replicate 12 0))"
      "g_os_ticks (world_ipc w) = g_os_ticks st + 1"
    using demo_tick [OF st] by blast
  have "message_queue_debug demo_validation" by (simp add: demo_validation_def)
  from messages_arrive_in_sequence [OF st this w(1)] show ?thesis using w by blast
qed

theorem sleep_test_never_early_witness:
  "\<exists>st w ps. timed_run demo_hardware (app_body Sleep_test (with_buffer demo_validation))
       (boot_world Sleep_test st, boot_tasks Sleep_test demo_validation []) 1 (w, ps) \<and>
     early_wakeup_count (g_task_1_sleep_stats (w_statistics w)) = 0"
proof -
  obtain st where st: "booted demo_layout demo_entries Sleep_test st" using demo_booted by blast
  obtain w where w: "timed_run demo_hardware (app_body Sleep_test (with_buffer demo_validation))
       (boot_world Sleep_test st, boot_tasks Sleep_test demo_validation []) 1 (w, boot_tasks Sleep_test demo_validation [])"
    using demo_timed_tick [OF st] by blast
  from sleep_test_never_early [OF st _ w] have "early_wakeup_count (g_task_1_sleep_stats (w_statistics w)) = 0"
    by (simp add: never_early_def)
  then show ?thesis using w by blast
qed

end
