(* ===== verification/Spec2Isabelle.thy ===== *)
theory Spec2Isabelle
  imports Task_Properties Kernel_Run_Properties Ipc_Properties Ipc_Calls Queue_Completion Console_Properties Gpio
    System_Clock Boot_Properties App_Properties
begin

text \<open>
  MELK OS is a small preemptive real-time kernel in C for one Cortex-M4 (TM4C123): up to eight
  tasks with static stacks, a round-robin scheduler driven by a 1 ms tick, mutexes, counting
  semaphores and message queues, drivers for the timer, the UART and three LEDs, the startup
  code and a demonstration program. This development models the whole program and proves what
  its parts promise, alone and together.

  Parts and their interaction. \<open>Reset_Handler\<close> initialises memory and enters \<open>kernel_main\<close>,
  which starts the drivers, creates the service objects and three tasks, and enters the first
  task by an SVC exception. From then on SysTick counts, wakes sleeping tasks and pends PendSV
  when the time slice is over; PendSV saves the registers of the current task on its stack,
  asks the scheduler for the next one and restores it. A task gives up the processor by
  \<open>os_yield\<close>, \<open>os_sleep\<close>, or by blocking in a service; a service passes its object directly to
  the waiting task that comes next in circular order. A message queue consists of a ring of
  slots, two semaphores that count items and spaces, and a mutex around the copy loops.

  Theories and source files (under \<open>src/\<close>).

  \<^item> \<open>Kernel_Prelude\<close>: machine integers (\<open>uint32_t\<close> is \<open>u32\<close>, wrapping), task masks, shared list
    facts. \<open>Ring_Search\<close>: the circular searches of the code as three locales, \<open>ring_next\<close>,
    \<open>ring_rotation\<close> and the wait objects, with fairness proved once.
  \<^item> \<open>Task\<close>, \<open>Task_Lemmas\<close>, \<open>Task_Properties\<close>: \<open>kernel/task.c\<close> and \<open>task.h\<close>. The task table is a list of
    eight control blocks; the stacks are words of a memory.
  \<^item> \<open>Machine\<close>, \<open>Systick\<close>, \<open>Interrupts\<close>: \<open>kernel/context_switch_asm.asm\<close>, \<open>kernel/context_switch.c\<close>,
    \<open>drivers/systick.c\<close>. The processor's registers as far as the handlers use them; exception entry
    and return stack and unstack a frame as the architecture defines.
  \<^item> \<open>Scheduler\<close>, \<open>Scheduler_Lemmas\<close>, \<open>Scheduler_Properties\<close>: \<open>kernel/task_scheduler.c\<close>.
    \<open>Kernel_Run_Properties\<close>: executions, the step relation \<open>kernel_step\<close> of theory \<open>Interrupts\<close>.
  \<^item> \<open>Wait_Scan\<close>, \<open>Mutex\<close>, \<open>Semaphore\<close>: \<open>kernel/mutex.c\<close>, \<open>kernel/semaphore.c\<close>; \<open>Ipc\<close> composes any number
    of both with the kernel into the step relation \<open>ipc_step\<close>; \<open>Ipc_Fairness\<close>, \<open>Ipc_Properties\<close> and
    \<open>Ipc_Calls\<close> hold the results on it and on whole calls.
  \<^item> \<open>Message_Queue\<close>: \<open>kernel/message_queue.c\<close>, each call a tree of atomic steps; \<open>Queue_Ring\<close> the
    storage as slots; \<open>Queue_System\<close> the interleaving of all tasks (\<open>queue_step\<close>) and the abstract
    queue; \<open>Queue_Invariant\<close>, \<open>Queue_Steps\<close>, \<open>Queue_Properties\<close>, \<open>Queue_Completion\<close> the proofs.
  \<^item> \<open>Board\<close>, \<open>Console\<close>, \<open>Console_Properties\<close>, \<open>Gpio\<close>, \<open>System_Clock\<close>: the register file,
    \<open>drivers/uart.c\<close>, \<open>kernel/printk.c\<close>, \<open>drivers/gpio.c\<close>, \<open>system/system.c\<close>.
  \<^item> \<open>Kernel_Main\<close>, \<open>Boot_Lemmas\<close>, \<open>Kernel_Stages\<close>, \<open>Kernel_Main_Properties\<close>: \<open>kernel_main\<close> of
    \<open>kernel/kernel.c\<close>; \<open>Boot\<close>, \<open>Boot_Properties\<close>: \<open>boot/boot_tm4c123gh6pm.c\<close>.
  \<^item> \<open>Application\<close>: the task bodies, printing routines and validation recorders of
    \<open>kernel/kernel.c\<close> in its four demos, the stress test of the queue and all validation modes,
    each pass of a task's loop a tree of actions. \<open>App_System\<close> interleaves the tasks with the kernel and the services
    (\<open>app_run\<close>) and states the locale \<open>sound_discipline\<close>: a typing of the trees that every step
    keeps. \<open>App_Console\<close>, \<open>App_Resource\<close>, \<open>App_Messages\<close> with \<open>App_Sequence\<close> and
    \<open>App_Deadlock\<close> (which calls the tasks make) are its interpretations; \<open>App_Progress\<close> shows that a
    running task always has a next step; \<open>App_Sleep\<close> follows the sleep test through runs with their duration;
    \<open>App_Properties\<close> holds the results, from the state in which \<open>kernel_main\<close> ends.

  What is shown.

  \<^item> Tasks: no sequence of calls breaks the identity of the tasks in use or the placement and
    separation of their stacks; the states stay consistent as long as the unguarded
    \<open>task_set_state\<close> is called harmlessly, as the scheduler does; the other calls make only the
    documented state transitions; creation writes the initial exception frame; sleeping tasks
    wake exactly at their tick across the wrap of the counter, and the bound of \<open>2 ^ 31\<close> ticks
    beyond which they do not.
  \<^item> Scheduler and processor: the round-robin choice, its fairness, the safety of every
    execution (one running task, no fault loop), the bound of the time slice, sleeping end to
    end with whatever happens between the tick's reading and the critical section of
    \<open>os_sleep\<close>, and that two context switches give a task its registers back; the timer's period,
    and the busy-wait with any number of ticks between its polls.
  \<^item> Services: every interleaving refines an abstract lock and an abstract counter; blocked tasks
    are registered (no lost wakeup); direct handoff; bounded bypass; the outcome of every call.
  \<^item> Message queue: linearizability with a bounded FIFO queue under all interleavings of single
    steps, no loss or duplication, no task blocked without reason, completion of calls that need
    not wait, and every branch of each call.
  \<^item> Drivers: console text with line ends, decimal numbers, the closest baud rate, LEDs, and the
    clock that the PLL sequence configures.
  \<^item> Start: from reset to the first task in a state from which the executions above start.
  \<^item> Demonstration: under every interleaving the lines of the console never mix and an
    unfinished line is the beginning of one of the mutex holder's, at most two tasks use the resource, each producer's messages arrive with consecutive sequence
    numbers, and no measured sleep is too short; the validation counters record no violation.
    The three tasks are never all BLOCKED, and a task that executes always gets on.

  Atomic steps. A handler, a critical section under \<open>os_irq_save\<close>, and a single access of shared
  data outside of one (a byte or field of the queue, the tick counter, a counter of the
  validation, the port of the LEDs) are one step each; interrupts and other tasks come between
  any two. \<open>os_sleep\<close> is two steps: its entry, which reads the tick counter, and its critical
  section. Toggling an LED is a read and a write of the port.

  Bounds and fuel. There is none: loops are structural, have a termination proof (\<open>digit_loop\<close>,
  \<open>pll_wait\<close>), or are \<open>partial_function (option)\<close> with a theorem that they return. Executions are
  inductive relations of arbitrary length.

  Hardware and linker as hypotheses. What status registers do between two polls is a function
  (\<open>hw\<close>); \<open>env_ok\<close> and \<open>only_status\<close> say that it changes status registers only and that a peripheral
  becomes ready eventually. The addresses of stacks and sections are parameters with the order
  that the linker script gives them (\<open>layout_ok\<close>, \<open>linked_ok\<close>); that the sizes of \<open>.data\<close> and \<open>.bss\<close>
  are multiples of a word is an assumption about the image, the script does not align them.

  Not modelled: the linker script and the debugger configuration (no C code); barriers and
  pipeline effects of the assembly; floating point context (never used by the code); fault
  exceptions other than entering their endless loops. PendSV is one step, although SysTick can
  interrupt it: a tick that arrives in the handler is taken before or after it. The two
  writes that enable or disable preemption are one step. During the start
  the ticks are taken after whole outputs, not inside one or between two calls that print
  nothing. In the demonstration a character sent to the UART, with the polling before it, is one
  step, and so is the update of a task's own sleep statistics, which no other task accesses.
\<close>

end
